(* ===== verification/Vattn_Prelude.thy ===== *)
theory Vattn_Prelude
  imports "HOL-Library.Word" "HOL-Library.Multiset"
begin

text \<open>
  Shared vocabulary of the development.

  \<^item> Machine integers: \<open>u64\<close> (\<^verbatim>\<open>unsigned long\<close>, \<^verbatim>\<open>NvU64\<close>, \<^verbatim>\<open>size_t\<close>) and
    \<open>i32\<close> (\<^verbatim>\<open>int\<close>) are words, so that wrap-around is part of every definition. \<open>i2u\<close>
    is the implicit conversion of an \<^verbatim>\<open>int\<close> to an unsigned long (sign extension).
  \<^item> \<open>outcome\<close> is the result of a C++ routine that may throw or end the process:
    \<open>Ret a s\<close> returns \<open>a\<close> in state \<open>s\<close>, \<open>Fail e s\<close> leaves by the error
    \<open>e\<close>, with the state the side effects so far have produced.
  \<^item> \<open>holds m Q E\<close> is the total-correctness judgement on outcomes: a normal return
    satisfies \<open>Q\<close>, an error satisfies \<open>E\<close>.
  \<^item> \<open>for_each\<close> is a counted loop whose body may fail.
\<close>

type_synonym u64 = "64 word"
type_synonym i32 = "32 word"

abbreviation i2u :: "i32 \<Rightarrow> u64" where
  "i2u x \<equiv> scast x"

abbreviation i2n :: "i32 \<Rightarrow> nat" where
  "i2n x \<equiv> nat (sint x)"

named_theorems outcome_simps \<open>equations that evaluate outcomes\<close>
named_theorems frame_simps \<open>fields an operation leaves alone\<close>

section \<open>Outcomes\<close>

datatype ('e, 's, 'a) outcome = Ret 'a 's | Fail 'e 's

primrec obind :: "('e, 's, 'a) outcome \<Rightarrow> ('a \<Rightarrow> 's \<Rightarrow> ('e, 's, 'b) outcome) \<Rightarrow> ('e, 's, 'b) outcome" where
  "obind (Ret a s) f = f a s"
| "obind (Fail e s) f = Fail e s"

fun for_each :: "('i \<Rightarrow> 's \<Rightarrow> ('e, 's, unit) outcome) \<Rightarrow> 'i list \<Rightarrow> 's \<Rightarrow> ('e, 's, unit) outcome" where
  "for_each f [] s = Ret () s"
| "for_each f (i # is) s = obind (f i s) (\<lambda>_ s'. for_each f is s')"

primrec holds :: "('e, 's, 'a) outcome \<Rightarrow> ('a \<Rightarrow> 's \<Rightarrow> bool) \<Rightarrow> ('e \<Rightarrow> 's \<Rightarrow> bool) \<Rightarrow> bool" where
  "holds (Ret a s) Q E = Q a s"
| "holds (Fail e s) Q E = E e s"

primrec out_state :: "('e, 's, 'a) outcome \<Rightarrow> 's" where
  "out_state (Ret a s) = s"
| "out_state (Fail e s) = s"

lemma holds_obind [simp]:
  "holds (obind m f) Q E \<longleftrightarrow> holds m (\<lambda>a s. holds (f a s) Q E) E"
  by (cases m) auto

lemma holds_conseq:
  assumes "holds m Q E" "\<And>a s. Q a s \<Longrightarrow> Q' a s" "\<And>e s. E e s \<Longrightarrow> E' e s"
  shows "holds m Q' E'"
  using assms by (cases m) auto

lemma holds_conj:
  "holds m (\<lambda>a s. Q a s \<and> Q' a s) (\<lambda>e s. E e s \<and> E' e s) \<longleftrightarrow> holds m Q E \<and> holds m Q' E'"
  by (cases m) auto

lemma holds_Ret: "holds m Q E \<Longrightarrow> m = Ret a s \<Longrightarrow> Q a s"
  by simp

lemma holds_Fail: "holds m Q E \<Longrightarrow> m = Fail e s \<Longrightarrow> E e s"
  by simp

lemma holds_out_state:
  "holds m (\<lambda>_ s. P s) (\<lambda>_ s. P s) \<longleftrightarrow> P (out_state m)"
  by (cases m) auto

lemma obind_eq_Ret:
  "obind m f = Ret b s' \<longleftrightarrow> (\<exists>a s. m = Ret a s \<and> f a s = Ret b s')"
  by (cases m) auto

lemma obind_assoc [simp]:
  "obind (obind m f) g = obind m (\<lambda>a s. obind (f a s) g)"
  by (cases m) auto

lemma for_each_append:
  "for_each f (xs @ ys) s = obind (for_each f xs s) (\<lambda>_ s'. for_each f ys s')"
proof (induction xs arbitrary: s)
  case (Cons x xs)
  then show ?case by (cases "f x s") simp_all
qed simp

text \<open>The loop rule: the invariant speaks of the iterations done so far.\<close>

lemma holds_for_each:
  assumes step: "\<And>xs x ys s. is = xs @ x # ys \<Longrightarrow> I xs s \<Longrightarrow> holds (f x s) (\<lambda>_. I (xs @ [x])) E"
    and start: "I [] s"
  shows "holds (for_each f is s) (\<lambda>_. I is) E"
proof -
  have "holds (for_each f ys s) (\<lambda>_. I is) E" if "is = xs @ ys" "I xs s" for xs ys s
    using that
  proof (induction ys arbitrary: xs s)
    case Nil
    then show ?case by simp
  next
    case (Cons y ys)
    have "holds (f y s) (\<lambda>_ s. I (xs @ [y]) s) E"
      using step Cons.prems by blast
    then show ?case
      using Cons.IH [of "xs @ [y]"] Cons.prems(1) by (auto elim: holds_conseq)
  qed
  then show ?thesis using start by force
qed

text \<open>The same with an invariant that does not speak of progress.\<close>

lemma holds_for_each_inv:
  assumes "\<And>x s. x \<in> set is \<Longrightarrow> I s \<Longrightarrow> holds (f x s) (\<lambda>_. I) E" and "I s"
  shows "holds (for_each f is s) (\<lambda>_. I) E"
  by (rule holds_for_each [where I = "\<lambda>_. I"]) (use assms in auto)

lemma holds_for_each_upto:
  assumes "\<And>i s. i < n \<Longrightarrow> I i s \<Longrightarrow> holds (f i s) (\<lambda>_. I (Suc i)) E" and "I 0 s"
  shows "holds (for_each f [0..<n] s) (\<lambda>_. I n) E"
proof -
  have "holds (for_each f [0..<n] s) (\<lambda>_ s. I (length [0..<n]) s) E"
  proof (rule holds_for_each [where I = "\<lambda>xs s. I (length xs) s"])
    fix xs x ys s
    assume eq: "[0..<n] = xs @ x # ys" and I: "I (length xs) s"
    have len: "length xs < n"
      using arg_cong [OF eq, of length] by simp
    moreover have "x = [0..<n] ! length xs"
      by (simp add: eq nth_append)
    ultimately have "x = length xs" by simp
    then show "holds (f x s) (\<lambda>_. I (length (xs @ [x]))) E"
      using assms(1) I len by simp
  qed (use assms in simp)
  then show ?thesis by simp
qed

section \<open>Machine arithmetic\<close>

lemma unat_lt_2p64 [simp]: "unat (x :: u64) < 18446744073709551616"
  using unsigned_less [of x] by simp

lemma unat_lt_2pow: "unat (x :: u64) < 2 ^ 64"
  using unsigned_less [of x] by simp

lemma unat_add_no_wrap:
  "unat (a :: u64) + unat b < 2 ^ 64 \<Longrightarrow> unat (a + b) = unat a + unat b"
  using unat_add_lem [of a b] by simp

lemma unat_plus_one: "unat (a :: u64) < unat (b :: u64) \<Longrightarrow> unat (a + 1) = Suc (unat a)"
proof -
  assume "unat a < unat b"
  then have "unat a + unat (1 :: u64) < 2 ^ 64" using unat_lt_2pow [of b] by (simp only: unat_1)
  then show ?thesis by (subst unat_add_no_wrap) simp_all
qed

lemma unat_mult_no_wrap:
  "unat (a :: u64) * unat b < 2 ^ 64 \<Longrightarrow> unat (a * b) = unat a * unat b"
  using unat_mult_lem [of a b] by simp

lemma unat_of_nat_u64 [simp]: "n < 2 ^ 64 \<Longrightarrow> unat (of_nat n :: u64) = n"
  by (simp add: unat_of_nat)

lemma of_nat_unat_u64 [simp]: "(of_nat (unat (x :: u64)) :: u64) = x"
  by simp

lemma of_nat_u64_inj:
  "a < 2 ^ 64 \<Longrightarrow> b < 2 ^ 64 \<Longrightarrow> (of_nat a :: u64) = of_nat b \<longleftrightarrow> a = b"
  by (metis unat_of_nat_u64)

lemma unat_i2u: "0 \<le> sint x \<Longrightarrow> unat (i2u x) = i2n x"
proof -
  assume "0 \<le> sint x"
  moreover have "sint x < 2 ^ 31" using sint_lt [of x] by simp
  ultimately show ?thesis
    by (simp only: scast_eq unat_eq_nat_uint uint_word_of_int) simp
qed

lemma i2u_nat: "0 \<le> sint x \<Longrightarrow> i2u x = of_nat (i2n x)"
  using unat_i2u [of x] by (metis of_nat_unat_u64)

text \<open>Ceiling division as the sources write it.\<close>

definition ceil_div :: "nat \<Rightarrow> nat \<Rightarrow> nat" where
  "ceil_div n d = (n + d - 1) div d"

lemma ceil_div_le_iff: "0 < d \<Longrightarrow> ceil_div n d \<le> k \<longleftrightarrow> n \<le> k * d"
proof -
  assume d: "0 < d"
  have "ceil_div n d \<le> k \<longleftrightarrow> ceil_div n d < Suc k" by auto
  also have "\<dots> \<longleftrightarrow> n + d - 1 < Suc k * d"
    unfolding ceil_div_def by (rule div_less_iff_less_mult [OF d])
  also have "\<dots> \<longleftrightarrow> n \<le> k * d" using d by auto
  finally show ?thesis .
qed

lemma ceil_div_mult_ge: "0 < d \<Longrightarrow> n \<le> ceil_div n d * d"
  using ceil_div_le_iff [of d n "ceil_div n d"] by simp

lemma ceil_div_mono: "0 < d \<Longrightarrow> m \<le> n \<Longrightarrow> ceil_div m d \<le> ceil_div n d"
  by (simp add: ceil_div_def div_le_mono)

lemma ceil_div_0 [simp]: "0 < d \<Longrightarrow> ceil_div 0 d = 0"
  by (simp add: ceil_div_def)

lemma ceil_div_pos: "0 < d \<Longrightarrow> 0 < n \<Longrightarrow> 0 < ceil_div n d"
  using ceil_div_le_iff [of d n 0] by auto

lemma ceil_div_slack: "0 < d \<Longrightarrow> 0 < n \<Longrightarrow> ceil_div n d * d < n + d"
proof -
  assume "0 < d" "0 < n"
  moreover have "(n + d - 1) div d * d \<le> n + d - 1"
    by (rule div_times_less_eq_dividend)
  ultimately show ?thesis unfolding ceil_div_def by linarith
qed

end
