(* ===== verification/Vattn_State.thy ===== *)
theory Vattn_State
  imports Vattn_Prelude
begin

text \<open>
  The allocator's globals and the helpers of \<^verbatim>\<open>src/vattention/utils.h\<close>.

  The C++ code keeps its state in globals and in the single object \<^verbatim>\<open>vattn\<close>. The model splits
  them in two records: \<open>vcfg\<close> holds the model, framework and virtual-memory parameters, which
  are written by initialisation and clean-up only, and \<open>vst\<close> holds everything the run-time
  operations change. The GPU behind the CUDA driver (and the UVM driver's ioctls) is the field
  \<open>gpu\<close> of an arbitrary type: that code is not part of this component, so its calls are the
  fields of \<open>gpu_api\<close> and every definition that reaches the driver takes one as an argument.

  A \<^verbatim>\<open>std::vector\<close> is a list (the back of the vector is the last element), a \<^verbatim>\<open>std::map\<close>
  a finite map, a request id an index below \<open>max_batch_size\<close>.
\<close>

section \<open>Errors\<close>

datatype vattn_error =
    RuntimeError string     \<comment> \<open>\<^verbatim>\<open>throw std::runtime_error\<close>\<close>
  | OutOfMemoryError        \<comment> \<open>\<^verbatim>\<open>TORCH_CHECK_WITH(OutOfMemoryError, ...)\<close>\<close>
  | AssertFail string       \<comment> \<open>a failed \<^verbatim>\<open>assert\<close>\<close>
  | ExitCuda i32            \<comment> \<open>\<^verbatim>\<open>CHECK_CUDA\<close> saw this result and called \<^verbatim>\<open>exit(1)\<close>\<close>
  | ExitVattn u64           \<comment> \<open>\<^verbatim>\<open>CHECK_VATTN\<close> saw this result and called \<^verbatim>\<open>exit(1)\<close>\<close>
  | ExitNoContext           \<comment> \<open>no CUDA context: \<^verbatim>\<open>exit(1)\<close>\<close>
  | DivideByZero            \<comment> \<open>an integer division traps\<close>
  | OutOfRange              \<comment> \<open>a vector is read beyond its end\<close>

text \<open>The errors that end the process, as opposed to the exceptions the caller can catch.\<close>

fun is_exit :: "vattn_error \<Rightarrow> bool" where
  "is_exit (ExitCuda _) = True"
| "is_exit (ExitVattn _) = True"
| "is_exit ExitNoContext = True"
| "is_exit _ = False"

section \<open>Data\<close>

datatype scalar_type = Half | BFloat16 | Float

record tensor =
  data_ptr :: u64
  storage_nbytes :: u64
  tensor_shape :: "u64 list"
  tensor_itemsize :: u64

record virtual_tensor_allocator =
  alloc_device_idx :: i32
  alloc_page_size :: u64

record vcfg =
  num_kv_heads :: i32
  head_size :: i32
  num_layers :: i32
  bytes_per_elem :: i32
  device :: i32
  scalar_type :: scalar_type
  component_spec_enabled :: bool
  page_buffer_token_bytes :: u64
  cached_token_bytes_local :: u64
  cache_component_token_dims :: "i32 list"
  megacache_enabled :: bool
  megacache_enabled_global :: bool
  max_batch_size :: i32
  max_context_length :: u64
  virt_buff_size :: u64
  virt_buff_size_per_req :: u64
  virt_buff_size_per_token :: u64
  virt_buff_num_kv_tokens :: u64
  tokens_per_page :: u64
  max_pages_per_req :: u64
  page_size :: u64

type_synonym page_key = "u64 \<times> u64 \<times> u64"
type_synonym pagemap = "page_key \<rightharpoonup> u64 \<times> u64"

record 'g vst =
  cfg :: vcfg
  gpu :: 'g
  verbose :: bool
  deferred_reclaim :: bool
  is_configured :: bool
  allocator :: virtual_tensor_allocator
  cuda_pages :: "u64 list"
  uvm_pages :: "u64 list"
  cuda_pagemap :: pagemap
  uvm_pagemap :: pagemap
  k_ptr :: "u64 list"
  v_ptr :: "u64 list"
  k_tensors :: "tensor list"
  v_tensors :: "tensor list"
  mapped_pages :: "u64 list"
  curr_seq_lengths :: "u64 list"
  mem_manager_running :: bool
  cached_uuid :: "8 word list"
  nvidia_uvm_fd :: i32
  uvm_page_size :: u64

type_synonym ('g, 'a) vout = "(vattn_error, 'g vst, 'a) outcome"

section \<open>Constants and configuration helpers\<close>

definition KB :: u64 where "KB = 1024"
definition MB :: u64 where "MB = 1024 * KB"

lemma KB_MB_eval [simp]: "KB = 1024" "MB = 1048576"
  by (simp_all add: KB_def MB_def)

text \<open>\<^verbatim>\<open>ROUND_UP\<close> on \<^verbatim>\<open>size_t\<close> operands.\<close>

definition ROUND_UP :: "u64 \<Rightarrow> u64 \<Rightarrow> u64" where
  "ROUND_UP x y = ((x + y - 1) div y) * y"

definition is_uvm_backend :: "u64 \<Rightarrow> bool" where
  "is_uvm_backend ps \<longleftrightarrow> ps \<noteq> 2 * MB"

definition batch :: "vcfg \<Rightarrow> nat" where
  "batch c = i2n (max_batch_size c)"

definition init_kvcache_batch_metadata :: "'g vst \<Rightarrow> 'g vst" where
  "init_kvcache_batch_metadata s =
     s\<lparr>mapped_pages := replicate (batch (cfg s)) 0,
       curr_seq_lengths := replicate (batch (cfg s)) 0\<rparr>"

definition check_kvcache_config :: "vcfg \<Rightarrow> bool" where
  "check_kvcache_config c \<longleftrightarrow>
     \<not> (num_layers c = 0 \<or> max_batch_size c = 0 \<or> max_context_length c = 0 \<or>
        page_buffer_token_bytes c = 0)"

section \<open>Tokens, pages and requests\<close>

definition tokens_to_pages :: "vcfg \<Rightarrow> u64 \<Rightarrow> u64" where
  "tokens_to_pages c num_tokens = (num_tokens + tokens_per_page c - 1) div tokens_per_page c"

definition pages_to_tokens :: "vcfg \<Rightarrow> u64 \<Rightarrow> u64" where
  "pages_to_tokens c num_blocks = num_blocks * tokens_per_page c"

definition get_req_pages :: "'g vst \<Rightarrow> nat \<Rightarrow> u64" where
  "get_req_pages s reqId = mapped_pages s ! reqId"

definition get_req_mapped_tokens :: "'g vst \<Rightarrow> nat \<Rightarrow> u64" where
  "get_req_mapped_tokens s reqId = pages_to_tokens (cfg s) (mapped_pages s ! reqId)"

definition inc_req_page_count :: "nat \<Rightarrow> 'g vst \<Rightarrow> 'g vst" where
  "inc_req_page_count reqId s =
     s\<lparr>mapped_pages := (mapped_pages s)[reqId := mapped_pages s ! reqId + 1]\<rparr>"

definition dec_req_page_count :: "nat \<Rightarrow> 'g vst \<Rightarrow> 'g vst" where
  "dec_req_page_count reqId s =
     s\<lparr>mapped_pages := (mapped_pages s)[reqId := mapped_pages s ! reqId - 1]\<rparr>"

definition get_req_begin_offset_virt :: "vcfg \<Rightarrow> nat \<Rightarrow> u64" where
  "get_req_begin_offset_virt c reqId = of_nat reqId * virt_buff_size_per_req c"

definition get_req_seq_length :: "'g vst \<Rightarrow> nat \<Rightarrow> u64" where
  "get_req_seq_length s reqId = curr_seq_lengths s ! reqId"

definition is_active_req :: "'g vst \<Rightarrow> nat \<Rightarrow> bool" where
  "is_active_req s reqId \<longleftrightarrow> curr_seq_lengths s ! reqId \<noteq> 0"

definition set_req_seq_length :: "nat \<Rightarrow> u64 \<Rightarrow> 'g vst \<Rightarrow> 'g vst" where
  "set_req_seq_length reqId seq_len s =
     s\<lparr>curr_seq_lengths := (curr_seq_lengths s)[reqId := seq_len]\<rparr>"

definition set_curr_seq_lengths :: "u64 list \<Rightarrow> 'g vst \<Rightarrow> 'g vst" where
  "set_curr_seq_lengths seq_lens s = s\<lparr>curr_seq_lengths := seq_lens\<rparr>"

fun set_seq_lengths_from :: "nat list \<Rightarrow> u64 list \<Rightarrow> 'g vst \<Rightarrow> 'g vst" where
  "set_seq_lengths_from [] seq_lens s = s"
| "set_seq_lengths_from (reqId # rest) seq_lens s =
     set_seq_lengths_from rest seq_lens
       (if \<not> is_active_req s reqId then s
        else set_req_seq_length reqId (seq_lens ! reqId + 1) s)"

definition set_seq_lengths_for_next_step :: "u64 list \<Rightarrow> 'g vst \<Rightarrow> 'g vst" where
  "set_seq_lengths_for_next_step seq_lens s =
     set_seq_lengths_from [0..<batch (cfg s)] seq_lens s"

definition get_num_overcommitted_kvblocks :: "'g vst \<Rightarrow> u64" where
  "get_num_overcommitted_kvblocks s =
     (\<Sum>reqId \<leftarrow> [0..<batch (cfg s)].
        mapped_pages s ! reqId - tokens_to_pages (cfg s) (get_req_seq_length s reqId))"

definition get_req_current_map_offset :: "'g vst \<Rightarrow> nat \<Rightarrow> u64" where
  "get_req_current_map_offset s reqId =
     get_req_begin_offset_virt (cfg s) reqId + get_req_pages s reqId * page_size (cfg s)"

text \<open>The only helper with an assertion: nothing may be unmapped from a request without pages.\<close>

definition get_req_current_unmap_offset :: "nat \<Rightarrow> 'g vst \<Rightarrow> ('g, u64) vout" where
  "get_req_current_unmap_offset reqId s =
     (if \<not> reqId < length (mapped_pages s) then Fail OutOfRange s
      else if \<not> get_req_pages s reqId > 0 then Fail (AssertFail ''num_mapped_blocks > 0'') s
      else Ret (get_req_begin_offset_virt (cfg s) reqId
                + (get_req_pages s reqId - 1) * page_size (cfg s)) s)"

section \<open>Logical KV blocks and physical pages\<close>

definition get_num_cache_components :: "vcfg \<Rightarrow> u64" where
  "get_num_cache_components c =
     (if cache_component_token_dims c \<noteq> [] then of_nat (length (cache_component_token_dims c))
      else 2)"

definition get_pages_per_kvblock :: "vcfg \<Rightarrow> u64" where
  "get_pages_per_kvblock c =
     (if megacache_enabled_global c then get_num_cache_components c
      else get_num_cache_components c * i2u (num_layers c))"

definition kvblocks_to_pages :: "vcfg \<Rightarrow> u64 \<Rightarrow> u64" where
  "kvblocks_to_pages c kvblocks = kvblocks * get_pages_per_kvblock c"

definition pages_to_kvblocks :: "vcfg \<Rightarrow> u64 \<Rightarrow> u64" where
  "pages_to_kvblocks c pages = pages div get_pages_per_kvblock c"

definition need_new_page_async :: "'g vst \<Rightarrow> nat \<Rightarrow> i32 \<Rightarrow> u64" where
  "need_new_page_async s reqId eager_step_count =
     (if \<not> is_active_req s reqId then 0
      else if get_req_pages s reqId = max_pages_per_req (cfg s) then 0
      else let nr_mapped = get_req_pages s reqId;
               nr_required = tokens_to_pages (cfg s)
                 (get_req_seq_length s reqId + i2u eager_step_count)
           in if nr_required \<le> nr_mapped then 0 else nr_required - nr_mapped)"

definition get_num_phys_blocks :: "vcfg \<Rightarrow> u64 \<Rightarrow> u64 \<Rightarrow> u64" where
  "get_num_phys_blocks c free_memory ps =
     (let n = free_memory div ps in n - n mod get_pages_per_kvblock c)"

section \<open>Arithmetic of the helpers without wrap-around\<close>

lemma unat_tokens_to_pages:
  assumes "tokens_per_page c \<noteq> 0" "unat n + unat (tokens_per_page c) \<le> 2 ^ 64"
  shows "unat (tokens_to_pages c n) = ceil_div (unat n) (unat (tokens_per_page c))"
proof -
  let ?t = "tokens_per_page c"
  have t: "unat (?t - 1) = unat ?t - 1" "0 < unat ?t"
    using assms(1) by (simp_all add: unat_minus_one unat_gt_0)
  have "unat (n + (?t - 1)) = unat n + (unat ?t - 1)"
    using assms(2) t by (subst unat_add_no_wrap) auto
  then show ?thesis
    using t by (simp add: tokens_to_pages_def ceil_div_def unat_div add_diff_eq)
qed

lemma tokens_to_pages_0 [simp]: "tokens_per_page c \<noteq> 0 \<Longrightarrow> tokens_to_pages c 0 = 0"
  using unat_tokens_to_pages [of c 0] by (simp add: unat_gt_0 unat_eq_0 less_imp_le)

text \<open>
  Physical pages are reserved in whole KV blocks: the number is a multiple of the pages of a
  block, it fits in the memory, and no further block would.
\<close>

lemma get_num_phys_blocks_unat:
  "unat (get_num_phys_blocks c m ps) =
     unat m div unat ps - unat m div unat ps mod unat (get_pages_per_kvblock c)"
proof -
  have "m div ps mod get_pages_per_kvblock c \<le> m div ps"
    by (simp add: word_le_nat_alt unat_mod)
  then show ?thesis
    by (simp add: get_num_phys_blocks_def Let_def unat_sub unat_div unat_mod)
qed

end
