(* ===== verification/Vattn_Backend.thy ===== *)
theory Vattn_Backend
  imports Vattn_State
begin

text \<open>
  The two page backends of the allocator: CUDA's virtual-memory API
  (\<^verbatim>\<open>src/vattention/cudaInternal.h\<close>, 2MB pages) and the custom UVM driver
  (\<^verbatim>\<open>src/vattention/uvmInternal.h\<close>, 64KB to 256KB pages), and the macros that choose between
  them (\<^verbatim>\<open>src/vattention/mux.h\<close>).

  The driver itself is a parameter: \<open>gpu_api\<close> lists the calls the sources make, each a function of
  the device state that gives its result code, its outputs and the new device state; the last three
  fields are the PyTorch size computations the tensor code relies on. The locale
  \<open>page_backend\<close> is the contract the allocator relies on; it is interpreted on the CUDA backend, on the
  UVM backend and on the macros \<^verbatim>\<open>MAP_PAGES\<close> and \<^verbatim>\<open>UNMAP_PAGES\<close>.
\<close>

section \<open>The driver calls\<close>

type_synonym CUresult = i32

record vattn_get_mem_page_params =
  gp_size :: u64
  gp_uuid :: "8 word list"
  gp_page :: u64
  gp_status :: i32

record vattn_mem_map_params =
  mm_base_address :: u64
  mm_page :: u64
  mm_uuid :: "8 word list"
  mm_size :: u64
  mm_status :: i32

record vattn_clear_address_params =
  ca_base_address :: u64
  ca_size :: u64
  ca_uuid :: "8 word list"
  ca_status :: i32

record vattn_free_mem_page_params =
  fp_page :: u64
  fp_size :: u64
  fp_uuid :: "8 word list"
  fp_status :: i32

text \<open>The four ioctls: the request number selects the parameter block.\<close>

datatype vattn_ioctl =
    GET_MEM_PAGE vattn_get_mem_page_params
  | MEM_MAP vattn_mem_map_params
  | FREE_MEM_PAGE vattn_free_mem_page_params
  | CLEAR_ADDRESS vattn_clear_address_params

fun ioctl_num :: "vattn_ioctl \<Rightarrow> nat" where
  "ioctl_num (GET_MEM_PAGE _) = 200"
| "ioctl_num (MEM_MAP _) = 201"
| "ioctl_num (FREE_MEM_PAGE _) = 202"
| "ioctl_num (CLEAR_ADDRESS _) = 203"

record 'g gpu_api =
  cuInit :: "'g \<Rightarrow> CUresult \<times> 'g"
  cuCtxGetCurrent :: "'g \<Rightarrow> CUresult \<times> u64 \<times> 'g"
  cuMemGetAllocationGranularity :: "i32 \<Rightarrow> 'g \<Rightarrow> CUresult \<times> u64 \<times> 'g"
  cuMemCreate :: "u64 \<Rightarrow> i32 \<Rightarrow> 'g \<Rightarrow> CUresult \<times> u64 \<times> 'g"
  cuMemRelease :: "u64 \<Rightarrow> 'g \<Rightarrow> CUresult \<times> 'g"
  cuMemMap :: "u64 \<Rightarrow> u64 \<Rightarrow> u64 \<Rightarrow> 'g \<Rightarrow> CUresult \<times> 'g"
  cuMemSetAccess :: "u64 \<Rightarrow> u64 \<Rightarrow> i32 \<Rightarrow> 'g \<Rightarrow> CUresult \<times> 'g"
  cuMemUnmap :: "u64 \<Rightarrow> u64 \<Rightarrow> 'g \<Rightarrow> CUresult \<times> 'g"
  cuMemAddressReserve :: "u64 \<Rightarrow> u64 \<Rightarrow> 'g \<Rightarrow> CUresult \<times> u64 \<times> 'g"
  cuMemAddressFree :: "u64 \<Rightarrow> u64 \<Rightarrow> 'g \<Rightarrow> CUresult \<times> 'g"
  cudaSetDevice :: "i32 \<Rightarrow> 'g \<Rightarrow> 'g"
  cudaMallocManaged :: "u64 \<Rightarrow> 'g \<Rightarrow> CUresult \<times> u64 \<times> 'g"
  cudaFree :: "u64 \<Rightarrow> 'g \<Rightarrow> 'g"
  device_uuid :: "i32 \<Rightarrow> 'g \<Rightarrow> 8 word list"
  readdir_psf :: "'g \<Rightarrow> (bool \<times> string) list option"
  realpath_psf :: "'g \<Rightarrow> string \<Rightarrow> string option"
  ioctl :: "i32 \<Rightarrow> vattn_ioctl \<Rightarrow> 'g \<Rightarrow> i32 \<times> vattn_ioctl \<times> 'g"
  stack_u64 :: u64 \<comment> \<open>what an uninitialised stack slot holds\<close>
  check_size_nonnegative :: "u64 list \<Rightarrow> bool"
  computeStorageNbytesContiguous :: "u64 list \<Rightarrow> u64 \<Rightarrow> u64"
  tensor_nbytes :: "tensor \<Rightarrow> u64"

text \<open>\<^verbatim>\<open>CHECK_CUDA(x)\<close>: the call's effect, then \<^verbatim>\<open>exit(1)\<close> unless it succeeded.\<close>

definition CHECK_CUDA :: "('g \<Rightarrow> CUresult \<times> 'g) \<Rightarrow> 'g vst \<Rightarrow> ('g, unit) vout" where
  "CHECK_CUDA x s =
     (case x (gpu s) of (res, g) \<Rightarrow>
        if res \<noteq> 0 then Fail (ExitCuda res) (s\<lparr>gpu := g\<rparr>) else Ret () (s\<lparr>gpu := g\<rparr>))"

definition CHECK_CUDA_out :: "('g \<Rightarrow> CUresult \<times> 'a \<times> 'g) \<Rightarrow> 'g vst \<Rightarrow> ('g, 'a) vout" where
  "CHECK_CUDA_out x s =
     (case x (gpu s) of (res, a, g) \<Rightarrow>
        if res \<noteq> 0 then Fail (ExitCuda res) (s\<lparr>gpu := g\<rparr>) else Ret a (s\<lparr>gpu := g\<rparr>))"

section \<open>The UVM backend\<close>

definition VATTN_IOCTL_MEM_MAP_ERR :: u64 where "VATTN_IOCTL_MEM_MAP_ERR = - 6"
definition VATTN_IOCTL_CLEAR_ADDRESS_ERR :: u64 where "VATTN_IOCTL_CLEAR_ADDRESS_ERR = - 5"
definition VATTN_IOCTL_MEM_PAGE_ERR :: u64 where "VATTN_IOCTL_MEM_PAGE_ERR = - 4"
definition VATTN_IOCTL_FREE_MEM_PAGE_ERR :: u64 where "VATTN_IOCTL_FREE_MEM_PAGE_ERR = - 3"
definition VATTN_ERR_PATH :: u64 where "VATTN_ERR_PATH = - 1"
definition VATTN_OK :: u64 where "VATTN_OK = 0"

definition CHECK_VATTN :: "('g vst \<Rightarrow> u64 \<times> 'g vst) \<Rightarrow> 'g vst \<Rightarrow> ('g, unit) vout" where
  "CHECK_VATTN x s =
     (case x s of (res, s') \<Rightarrow>
        if res \<noteq> VATTN_OK then Fail (ExitVattn res) s' else Ret () s')"

text \<open>\<^verbatim>\<open>atoi\<close> on the directory entries of \<^verbatim>\<open>/proc/self/fd\<close>: leading digits, 0 if there is none.\<close>

fun atoi_from :: "i32 \<Rightarrow> string \<Rightarrow> i32" where
  "atoi_from acc [] = acc"
| "atoi_from acc (c # cs) =
     (if of_char c \<ge> (48::nat) \<and> of_char c \<le> (57::nat)
      then atoi_from (acc * 10 + (of_nat (of_char c) - 48)) cs else acc)"

text \<open>
  The scan of \<^verbatim>\<open>/proc/self/fd\<close> for the descriptor of \<^verbatim>\<open>/dev/nvidia-uvm\<close>: links only, an
  unresolvable link is skipped, and the scan stops as soon as a descriptor is known.
\<close>

fun find_uvm_fd :: "(string \<Rightarrow> string option) \<Rightarrow> (bool \<times> string) list \<Rightarrow> i32 \<Rightarrow> i32" where
  "find_uvm_fd rp [] fd = fd"
| "find_uvm_fd rp ((is_lnk, name) # es) fd =
     (if \<not> is_lnk then find_uvm_fd rp es fd
      else case rp name of
             None \<Rightarrow> find_uvm_fd rp es fd
           | Some p \<Rightarrow>
               let fd' = (if p = ''/dev/nvidia-uvm'' then atoi_from 0 name else fd)
               in if 0 \<le> sint fd' then fd' else find_uvm_fd rp es fd')"

definition vattn_init :: "'g gpu_api \<Rightarrow> i32 \<Rightarrow> u64 \<Rightarrow> 'g vst \<Rightarrow> u64 \<times> 'g vst" where
  "vattn_init api in_device in_page_size s =
     (let g1 = cudaSetDevice api in_device (gpu s);
          (_, dummy, g2) = cudaMallocManaged api 4 g1;
          g3 = cudaFree api dummy g2;
          uuid = take 16 (device_uuid api in_device g3);
          fd = (case readdir_psf api g3 of
                  None \<Rightarrow> nvidia_uvm_fd s
                | Some es \<Rightarrow> find_uvm_fd (realpath_psf api g3) es (nvidia_uvm_fd s));
          s1 = s\<lparr>gpu := g3, cached_uuid := uuid, nvidia_uvm_fd := fd\<rparr>
      in if sint fd < 0 then (VATTN_ERR_PATH, s1)
         else (VATTN_OK, s1\<lparr>uvm_page_size := in_page_size\<rparr>))"

definition vattn_reserve_memory :: "'g gpu_api \<Rightarrow> u64 \<Rightarrow> 'g vst \<Rightarrow> u64 \<times> 'g vst" where
  "vattn_reserve_memory api size_bytes s =
     (case cudaMallocManaged api (2 * 1024 * 1024) (gpu s) of
        (_, allocation, g) \<Rightarrow> (allocation, s\<lparr>gpu := g\<rparr>))"

definition vattn_get_mem_page :: "'g gpu_api \<Rightarrow> 'g vst \<Rightarrow> u64 \<times> u64 \<times> 'g vst" where
  "vattn_get_mem_page api s =
     (let request = \<lparr>gp_size = uvm_page_size s, gp_uuid = cached_uuid s,
                     gp_page = stack_u64 api, gp_status = 0\<rparr>
      in case ioctl api (nvidia_uvm_fd s) (GET_MEM_PAGE request) (gpu s) of
           (rc, out, g) \<Rightarrow>
             if rc \<noteq> 0 then (VATTN_IOCTL_MEM_PAGE_ERR, stack_u64 api, s\<lparr>gpu := g\<rparr>)
             else (VATTN_OK,
                   (case out of GET_MEM_PAGE r \<Rightarrow> gp_page r | _ \<Rightarrow> gp_page request),
                   s\<lparr>gpu := g\<rparr>))"

definition vattn_mem_map :: "'g gpu_api \<Rightarrow> u64 \<Rightarrow> u64 \<Rightarrow> 'g vst \<Rightarrow> u64 \<times> 'g vst" where
  "vattn_mem_map api address page s =
     (let request = \<lparr>mm_base_address = address, mm_page = page, mm_uuid = cached_uuid s,
                     mm_size = uvm_page_size s, mm_status = 0\<rparr>
      in case ioctl api (nvidia_uvm_fd s) (MEM_MAP request) (gpu s) of
           (rc, _, g) \<Rightarrow>
             (if rc \<noteq> 0 then VATTN_IOCTL_MEM_MAP_ERR else VATTN_OK, s\<lparr>gpu := g\<rparr>))"

definition vattn_free_reserved_address :: "'g gpu_api \<Rightarrow> u64 \<Rightarrow> u64 \<Rightarrow> 'g vst \<Rightarrow> u64 \<times> 'g vst" where
  "vattn_free_reserved_address api address size_bytes s =
     (let request = \<lparr>ca_base_address = address, ca_size = size_bytes, ca_uuid = cached_uuid s,
                     ca_status = 0\<rparr>
      in case ioctl api (nvidia_uvm_fd s) (CLEAR_ADDRESS request) (gpu s) of
           (rc, _, g) \<Rightarrow>
             if rc \<noteq> 0 then (VATTN_IOCTL_CLEAR_ADDRESS_ERR, s\<lparr>gpu := g\<rparr>)
             else (VATTN_OK, s\<lparr>gpu := cudaFree api address g\<rparr>))"

definition vattn_release_mem_page :: "'g gpu_api \<Rightarrow> u64 \<Rightarrow> 'g vst \<Rightarrow> u64 \<times> 'g vst" where
  "vattn_release_mem_page api page s =
     (let request = \<lparr>fp_page = page, fp_size = uvm_page_size s, fp_uuid = cached_uuid s,
                     fp_status = 0\<rparr>
      in case ioctl api (nvidia_uvm_fd s) (FREE_MEM_PAGE request) (gpu s) of
           (rc, _, g) \<Rightarrow>
             (if rc \<noteq> 0 then VATTN_IOCTL_FREE_MEM_PAGE_ERR else VATTN_OK, s\<lparr>gpu := g\<rparr>))"

definition do_cuda_uvm_init :: "'g gpu_api \<Rightarrow> i32 \<Rightarrow> u64 \<Rightarrow> 'g vst \<Rightarrow> ('g, u64) vout" where
  "do_cuda_uvm_init api dev ps s =
     (if \<not> (ps = 64 * KB \<or> ps = 128 * KB \<or> ps = 256 * KB)
      then Fail (AssertFail ''page_size'') s
      else obind (CHECK_VATTN (vattn_init api dev ps) s) (\<lambda>_ s'. Ret ps s'))"

text \<open>
  The reservation loops run while the pool is short of the target, so they make as many driver
  calls as pages are missing.
\<close>

fun reserve_uvm_loop :: "'g gpu_api \<Rightarrow> nat \<Rightarrow> 'g vst \<Rightarrow> ('g, unit) vout" where
  "reserve_uvm_loop api 0 s = Ret () s"
| "reserve_uvm_loop api (Suc n) s =
     (case vattn_get_mem_page api s of (res, page, s') \<Rightarrow>
        if res \<noteq> VATTN_OK then Fail (ExitVattn res) s'
        else reserve_uvm_loop api n (s'\<lparr>uvm_pages := uvm_pages s' @ [page]\<rparr>))"

definition reserve_uvm_pages :: "'g gpu_api \<Rightarrow> u64 \<Rightarrow> u64 \<Rightarrow> 'g vst \<Rightarrow> ('g, u64) vout" where
  "reserve_uvm_pages api free_memory ps s =
     (let n = unat (get_num_phys_blocks (cfg s) free_memory ps) - length (uvm_pages s)
      in obind (reserve_uvm_loop api n s) (\<lambda>_ s'. Ret (of_nat (length (uvm_pages s'))) s'))"

definition map_uvm_pages ::
  "'g gpu_api \<Rightarrow> nat \<Rightarrow> nat \<Rightarrow> u64 \<Rightarrow> u64 \<Rightarrow> u64 \<Rightarrow> u64 \<Rightarrow> u64 \<Rightarrow> 'g vst \<Rightarrow> ('g, unit) vout" where
  "map_uvm_pages api reqId layer_idx req_offset kcache_ptr vcache_ptr k_page v_page s =
     obind (CHECK_VATTN (vattn_mem_map api (kcache_ptr + req_offset) k_page) s) (\<lambda>_ s.
     obind (CHECK_VATTN (vattn_mem_map api (vcache_ptr + req_offset) v_page) s) (\<lambda>_ s.
     Ret () (s\<lparr>uvm_pagemap := (uvm_pagemap s)
                 ((of_nat reqId, req_offset, of_nat layer_idx) \<mapsto> (k_page, v_page))\<rparr>)))"

definition do_uvm_kvcache_cleanup :: "'g gpu_api \<Rightarrow> 'g vst \<Rightarrow> ('g, unit) vout" where
  "do_uvm_kvcache_cleanup api s =
     obind (for_each (\<lambda>(k, v) s.
              obind (CHECK_VATTN (vattn_free_reserved_address api (data_ptr k) (tensor_nbytes api k)) s) (\<lambda>_.
                CHECK_VATTN (vattn_free_reserved_address api (data_ptr v) (tensor_nbytes api v))))
            (zip (k_tensors s) (v_tensors s)) s) (\<lambda>_ s.
     for_each (\<lambda>p. CHECK_VATTN (vattn_release_mem_page api p)) (uvm_pages s) s)"

section \<open>The CUDA backend\<close>

definition do_cuda_default_init :: "'g gpu_api \<Rightarrow> i32 \<Rightarrow> u64 \<Rightarrow> 'g vst \<Rightarrow> ('g, u64) vout" where
  "do_cuda_default_init api dev ps s =
     obind (CHECK_CUDA (cuInit api) s) (\<lambda>_ s.
     obind (CHECK_CUDA_out (cuCtxGetCurrent api) s) (\<lambda>ctx s.
     if ctx = 0 then Fail ExitNoContext s
     else obind (CHECK_CUDA_out (cuMemGetAllocationGranularity api dev) s) (\<lambda>phys_granularity s.
     if phys_granularity \<noteq> ps then Fail (AssertFail ''phys_granularity == page_size'') s
     else Ret phys_granularity s)))"

definition do_cuda_init :: "'g gpu_api \<Rightarrow> i32 \<Rightarrow> u64 \<Rightarrow> 'g vst \<Rightarrow> ('g, u64) vout" where
  "do_cuda_init api dev ps s =
     (if is_uvm_backend ps then do_cuda_uvm_init api dev ps s
      else do_cuda_default_init api dev ps s)"

fun reserve_cuda_loop :: "'g gpu_api \<Rightarrow> u64 \<Rightarrow> nat \<Rightarrow> 'g vst \<Rightarrow> ('g, unit) vout" where
  "reserve_cuda_loop api ps 0 s = Ret () s"
| "reserve_cuda_loop api ps (Suc n) s =
     obind (CHECK_CUDA_out (cuMemCreate api ps (device (cfg s))) s) (\<lambda>cuda_page s'.
       reserve_cuda_loop api ps n (s'\<lparr>cuda_pages := cuda_pages s' @ [cuda_page]\<rparr>))"

definition reserve_cuda_pages :: "'g gpu_api \<Rightarrow> u64 \<Rightarrow> u64 \<Rightarrow> 'g vst \<Rightarrow> ('g, u64) vout" where
  "reserve_cuda_pages api free_memory ps s =
     (let n = unat (get_num_phys_blocks (cfg s) free_memory ps) - length (cuda_pages s)
      in obind (reserve_cuda_loop api ps n s) (\<lambda>_ s'. Ret (of_nat (length (cuda_pages s'))) s'))"

definition reserve_gpu_pages :: "'g gpu_api \<Rightarrow> u64 \<Rightarrow> u64 \<Rightarrow> 'g vst \<Rightarrow> ('g, u64) vout" where
  "reserve_gpu_pages api free_memory ps s =
     (if is_uvm_backend ps then reserve_uvm_pages api free_memory ps s
      else reserve_cuda_pages api free_memory ps s)"

definition map_cuda_pages ::
  "'g gpu_api \<Rightarrow> nat \<Rightarrow> nat \<Rightarrow> u64 \<Rightarrow> u64 \<Rightarrow> u64 \<Rightarrow> u64 \<Rightarrow> u64 \<Rightarrow> 'g vst \<Rightarrow> ('g, unit) vout" where
  "map_cuda_pages api reqId layer_idx req_offset kcache_ptr vcache_ptr k_page v_page s =
     (let ps = page_size (cfg s); dev = device (cfg s) in
     obind (CHECK_CUDA (cuMemMap api (kcache_ptr + req_offset) ps k_page) s) (\<lambda>_ s.
     obind (CHECK_CUDA (cuMemMap api (vcache_ptr + req_offset) ps v_page) s) (\<lambda>_ s.
     obind (CHECK_CUDA (cuMemSetAccess api (kcache_ptr + req_offset) ps dev) s) (\<lambda>_ s.
     obind (CHECK_CUDA (cuMemSetAccess api (vcache_ptr + req_offset) ps dev) s) (\<lambda>_ s.
     Ret () (s\<lparr>cuda_pagemap := (cuda_pagemap s)
                 ((of_nat reqId, req_offset, of_nat layer_idx) \<mapsto> (k_page, v_page))\<rparr>))))))"

definition do_cuda_kvcache_cleanup :: "'g gpu_api \<Rightarrow> 'g vst \<Rightarrow> ('g, unit) vout" where
  "do_cuda_kvcache_cleanup api s =
     obind (for_each (\<lambda>(k, v) s.
              obind (CHECK_CUDA (cuMemUnmap api (data_ptr k) (storage_nbytes k)) s) (\<lambda>_ s.
              obind (CHECK_CUDA (cuMemUnmap api (data_ptr v) (storage_nbytes v)) s) (\<lambda>_ s.
              obind (CHECK_CUDA (cuMemAddressFree api (data_ptr k) (storage_nbytes k)) s) (\<lambda>_.
                CHECK_CUDA (cuMemAddressFree api (data_ptr v) (storage_nbytes v))))))
            (zip (k_tensors s) (v_tensors s)) s) (\<lambda>_ s.
     for_each (\<lambda>p. CHECK_CUDA (cuMemRelease api p)) (cuda_pages s) s)"

section \<open>The macros that choose the backend\<close>

definition pop_cuda_page :: "'g vst \<Rightarrow> ('g, u64) vout" where
  "pop_cuda_page s =
     (if cuda_pages s = [] then Fail (RuntimeError ''***** page pool is empty *****'') s
      else Ret (last (cuda_pages s)) (s\<lparr>cuda_pages := butlast (cuda_pages s)\<rparr>))"

definition pop_uvm_page :: "'g vst \<Rightarrow> ('g, u64) vout" where
  "pop_uvm_page s =
     (if uvm_pages s = [] then Fail (RuntimeError ''***** uvm_page pool is empty *****'') s
      else Ret (last (uvm_pages s)) (s\<lparr>uvm_pages := butlast (uvm_pages s)\<rparr>))"

definition get_num_free_pages :: "'g vst \<Rightarrow> u64 \<Rightarrow> u64" where
  "get_num_free_pages s ps =
     (if is_uvm_backend ps then of_nat (length (uvm_pages s)) else of_nat (length (cuda_pages s)))"

definition MAP_PAGES ::
  "'g gpu_api \<Rightarrow> nat \<Rightarrow> nat \<Rightarrow> u64 \<Rightarrow> u64 \<Rightarrow> u64 \<Rightarrow> 'g vst \<Rightarrow> ('g, unit) vout" where
  "MAP_PAGES api reqId layer_idx req_offset kcache_ptr vcache_ptr s =
     (if \<not> is_uvm_backend (page_size (cfg s)) then
        obind (pop_cuda_page s) (\<lambda>k_page s.
        obind (pop_cuda_page s) (\<lambda>v_page.
        map_cuda_pages api reqId layer_idx req_offset kcache_ptr vcache_ptr k_page v_page))
      else
        obind (pop_uvm_page s) (\<lambda>k_page s.
        obind (pop_uvm_page s) (\<lambda>v_page.
        map_uvm_pages api reqId layer_idx req_offset kcache_ptr vcache_ptr k_page v_page)))"

text \<open>
  \<^verbatim>\<open>map[key]\<close> on a \<^verbatim>\<open>std::map\<close> inserts a zero pair when the key is absent; the macro erases the
  key right after it, so only the value read depends on that.
\<close>

definition pagemap_at :: "pagemap \<Rightarrow> page_key \<Rightarrow> u64 \<times> u64" where
  "pagemap_at m k = (case m k of None \<Rightarrow> (0, 0) | Some p \<Rightarrow> p)"

definition UNMAP_PAGES ::
  "'g gpu_api \<Rightarrow> nat \<Rightarrow> nat \<Rightarrow> u64 \<Rightarrow> u64 \<Rightarrow> u64 \<Rightarrow> 'g vst \<Rightarrow> ('g, unit) vout" where
  "UNMAP_PAGES api reqId layer_idx req_offset kcache_ptr vcache_ptr s =
     (let key = (of_nat reqId, req_offset, of_nat layer_idx); ps = page_size (cfg s) in
      if \<not> is_uvm_backend ps then
        obind (CHECK_CUDA (cuMemUnmap api (kcache_ptr + req_offset) ps) s) (\<lambda>_ s.
        obind (CHECK_CUDA (cuMemUnmap api (vcache_ptr + req_offset) ps) s) (\<lambda>_ s.
        Ret () (s\<lparr>cuda_pages := cuda_pages s @ [fst (pagemap_at (cuda_pagemap s) key),
                                              snd (pagemap_at (cuda_pagemap s) key)],
                  cuda_pagemap := (cuda_pagemap s)(key := None)\<rparr>)))
      else
        Ret () (s\<lparr>uvm_pages := uvm_pages s @ [fst (pagemap_at (uvm_pagemap s) key),
                                            snd (pagemap_at (uvm_pagemap s) key)],
                  uvm_pagemap := (uvm_pagemap s)(key := None)\<rparr>))"

text \<open>The loop over the batch inside \<^verbatim>\<open>MAP_COMMON_PAGES\<close>: every request maps the same two pages.\<close>

definition MAP_COMMON_PAGES ::
  "'g gpu_api \<Rightarrow> nat \<Rightarrow> u64 \<Rightarrow> u64 \<Rightarrow> 'g vst \<Rightarrow> ('g, unit) vout" where
  "MAP_COMMON_PAGES api layer_idx kcache_ptr vcache_ptr s =
     (if \<not> is_uvm_backend (page_size (cfg s)) then
        obind (pop_cuda_page s) (\<lambda>k_page s.
        obind (pop_cuda_page s) (\<lambda>v_page s.
        for_each (\<lambda>reqId s. map_cuda_pages api reqId layer_idx (get_req_current_map_offset s reqId)
                              kcache_ptr vcache_ptr k_page v_page s)
          [0..<batch (cfg s)] s))
      else
        obind (pop_uvm_page s) (\<lambda>k_page s.
        obind (pop_uvm_page s) (\<lambda>v_page s.
        for_each (\<lambda>reqId s. map_uvm_pages api reqId layer_idx (get_req_current_map_offset s reqId)
                              kcache_ptr vcache_ptr k_page v_page s)
          [0..<batch (cfg s)] s)))"

section \<open>The contract of a page backend\<close>

text \<open>The physical pages a page map holds, with multiplicity.\<close>

fun pair_mset :: "u64 \<times> u64 \<Rightarrow> u64 multiset" where
  "pair_mset (k, v) = {#k, v#}"

definition pm_pages :: "pagemap \<Rightarrow> u64 multiset" where
  "pm_pages m = (\<Sum>key \<in> dom m. pair_mset (the (m key)))"

definition block_keys :: "nat \<Rightarrow> u64 \<Rightarrow> nat \<Rightarrow> page_key set" where
  "block_keys r off n = {(of_nat r, off, of_nat l) |l. l < n}"

lemma block_keys_0 [simp]: "block_keys r off 0 = {}"
  by (simp add: block_keys_def)

lemma block_keys_Suc:
  "block_keys r off (Suc n) = insert (of_nat r, off, of_nat n) (block_keys r off n)"
  by (auto simp: block_keys_def less_Suc_eq)

lemma block_keys_mem: "l < n \<Longrightarrow> (of_nat r, off, of_nat l) \<in> block_keys r off n"
  by (auto simp: block_keys_def)

lemma block_keys_fresh:
  "n < 2 ^ 64 \<Longrightarrow> (of_nat r, off, of_nat n) \<notin> block_keys r off n"
  by (auto simp: block_keys_def of_nat_u64_inj)

lemma pm_pages_insert:
  assumes "finite (dom m)" "m key = None"
  shows "pm_pages (m(key \<mapsto> p)) = pm_pages m + pair_mset p"
proof -
  have "(\<Sum>k \<in> dom m. pair_mset (the ((m(key \<mapsto> p)) k))) = (\<Sum>k \<in> dom m. pair_mset (the (m k)))"
    using assms(2) by (intro sum.cong) auto
  then show ?thesis
    using assms by (simp add: pm_pages_def domIff)
qed

lemma pm_pages_delete:
  assumes "finite (dom m)" "m key = Some p"
  shows "pm_pages (m(key := None)) + pair_mset p = pm_pages m"
proof -
  have "finite (dom (m(key := None)))" using assms(1) by simp
  from pm_pages_insert [OF this, of key p] assms(2) show ?thesis
    by (simp add: map_upd_triv)
qed

locale page_backend =
  fixes pool :: "'s \<Rightarrow> u64 list"
    and pmap :: "'s \<Rightarrow> pagemap"
    and rest :: "'s \<Rightarrow> 'f"
    and map_pages :: "nat \<Rightarrow> nat \<Rightarrow> u64 \<Rightarrow> u64 \<Rightarrow> u64 \<Rightarrow> 's \<Rightarrow> (vattn_error, 's, unit) outcome"
    and unmap_pages :: "nat \<Rightarrow> nat \<Rightarrow> u64 \<Rightarrow> u64 \<Rightarrow> u64 \<Rightarrow> 's \<Rightarrow> (vattn_error, 's, unit) outcome"
  assumes map_pages:
    "holds (map_pages r l off kp vp s)
       (\<lambda>_ s'. \<exists>ps v k. pool s = ps @ [v, k] \<and> pool s' = ps \<and>
          pmap s' = (pmap s)((of_nat r, off, of_nat l) \<mapsto> (k, v)) \<and> rest s' = rest s)
       (\<lambda>e _. is_exit e \<or> length (pool s) < 2)"
  and unmap_pages:
    "holds (unmap_pages r l off kp vp s)
       (\<lambda>_ s'. pool s' = pool s @ [fst (pagemap_at (pmap s) (of_nat r, off, of_nat l)),
                                 snd (pagemap_at (pmap s) (of_nat r, off, of_nat l))] \<and>
          pmap s' = (pmap s)((of_nat r, off, of_nat l) := None) \<and> rest s' = rest s)
       (\<lambda>e _. is_exit e)"
begin

text \<open>
  A KV block is one pair of pages per layer. Mapping a block moves pages from the pool into the page
  map; the only way to fail, given enough pages, is a driver call that ends the process.
\<close>

definition conserved :: "'s \<Rightarrow> u64 multiset" where
  "conserved s = mset (pool s) + pm_pages (pmap s)"

lemma map_one:
  assumes "finite (dom (pmap s))" "(of_nat r, off, of_nat l) \<notin> dom (pmap s)" "2 \<le> length (pool s)"
  shows "holds (map_pages r l off kp vp s)
    (\<lambda>_ s'. length (pool s) = length (pool s') + 2 \<and>
       dom (pmap s') = insert (of_nat r, off, of_nat l) (dom (pmap s)) \<and>
       (\<forall>k. k \<noteq> (of_nat r, off, of_nat l) \<longrightarrow> pmap s' k = pmap s k) \<and>
       conserved s' = conserved s \<and> rest s' = rest s)
    (\<lambda>e _. is_exit e)"
proof -
  have "pmap s (of_nat r, off, of_nat l) = None"
    using assms(2) by (metis domI option.exhaust)
  note ins = pm_pages_insert [OF assms(1) this]
  show ?thesis
    by (rule holds_conseq [OF map_pages]) (use assms(3) in \<open>auto simp: conserved_def ins\<close>)
qed

lemma map_block:
  assumes "finite (dom (pmap s))" "block_keys r off n \<inter> dom (pmap s) = {}"
    "2 * n \<le> length (pool s)" "n < 2 ^ 64"
  shows "holds (for_each (\<lambda>l s. map_pages r l off (kp l s) (vp l s) s) [0..<n] s)
    (\<lambda>_ s'. length (pool s) = length (pool s') + 2 * n \<and>
       dom (pmap s') = dom (pmap s) \<union> block_keys r off n \<and>
       (\<forall>k. k \<notin> block_keys r off n \<longrightarrow> pmap s' k = pmap s k) \<and>
       conserved s' = conserved s \<and> rest s' = rest s)
    (\<lambda>e _. is_exit e)"
proof (rule holds_for_each_upto)
  fix i t
  assume i: "i < n" and
    I: "length (pool s) = length (pool t) + 2 * i \<and>
       dom (pmap t) = dom (pmap s) \<union> block_keys r off i \<and>
       (\<forall>k. k \<notin> block_keys r off i \<longrightarrow> pmap t k = pmap s k) \<and>
       conserved t = conserved s \<and> rest t = rest s"
  have "(of_nat r, off, of_nat i) \<notin> dom (pmap t)"
    using I i assms(2,4) block_keys_fresh [of i r off] block_keys_mem [OF i, of r off] by auto
  moreover have "finite (dom (pmap t))"
    using I assms(1) by (simp add: block_keys_def)
  ultimately have "holds (map_pages r i off (kp i t) (vp i t) t)
    (\<lambda>_ s'. length (pool t) = length (pool s') + 2 \<and>
       dom (pmap s') = insert (of_nat r, off, of_nat i) (dom (pmap t)) \<and>
       (\<forall>k. k \<noteq> (of_nat r, off, of_nat i) \<longrightarrow> pmap s' k = pmap t k) \<and>
       conserved s' = conserved t \<and> rest s' = rest t)
    (\<lambda>e _. is_exit e)"
    using I i assms(3) by (intro map_one) auto
  then show "holds (map_pages r i off (kp i t) (vp i t) t)
    (\<lambda>_ s'. length (pool s) = length (pool s') + 2 * Suc i \<and>
       dom (pmap s') = dom (pmap s) \<union> block_keys r off (Suc i) \<and>
       (\<forall>k. k \<notin> block_keys r off (Suc i) \<longrightarrow> pmap s' k = pmap s k) \<and>
       conserved s' = conserved s \<and> rest s' = rest s)
    (\<lambda>e _. is_exit e)"
    by (rule holds_conseq) (use I in \<open>auto simp: block_keys_Suc\<close>)
qed simp

lemma unmap_one:
  assumes "finite (dom (pmap s))" "(of_nat r, off, of_nat l) \<in> dom (pmap s)"
  shows "holds (unmap_pages r l off kp vp s)
    (\<lambda>_ s'. length (pool s') = length (pool s) + 2 \<and>
       dom (pmap s') = dom (pmap s) - {(of_nat r, off, of_nat l)} \<and>
       (\<forall>k. k \<noteq> (of_nat r, off, of_nat l) \<longrightarrow> pmap s' k = pmap s k) \<and>
       conserved s' = conserved s \<and> rest s' = rest s)
    (\<lambda>e _. is_exit e)"
proof -
  obtain k v where kv: "pmap s (of_nat r, off, of_nat l) = Some (k, v)"
    using assms(2) by auto
  show ?thesis
    by (rule holds_conseq [OF unmap_pages])
      (use pm_pages_delete [OF assms(1) kv] kv in \<open>auto simp: conserved_def pagemap_at_def add_mset_commute\<close>)
qed

lemma unmap_block:
  assumes "finite (dom (pmap s))" "block_keys r off n \<subseteq> dom (pmap s)" "n < 2 ^ 64"
  shows "holds (for_each (\<lambda>l s. unmap_pages r l off (kp l s) (vp l s) s) [0..<n] s)
    (\<lambda>_ s'. length (pool s') = length (pool s) + 2 * n \<and>
       dom (pmap s') = dom (pmap s) - block_keys r off n \<and>
       (\<forall>k. k \<notin> block_keys r off n \<longrightarrow> pmap s' k = pmap s k) \<and>
       conserved s' = conserved s \<and> rest s' = rest s)
    (\<lambda>e _. is_exit e)"
proof (rule holds_for_each_upto)
  fix i t
  assume i: "i < n" and
    I: "length (pool t) = length (pool s) + 2 * i \<and>
       dom (pmap t) = dom (pmap s) - block_keys r off i \<and>
       (\<forall>k. k \<notin> block_keys r off i \<longrightarrow> pmap t k = pmap s k) \<and>
       conserved t = conserved s \<and> rest t = rest s"
  have "(of_nat r, off, of_nat i) \<in> dom (pmap t)"
    using I i assms(2,3) block_keys_fresh [of i r off] block_keys_mem [OF i, of r off] by auto
  moreover have "finite (dom (pmap t))"
    using I assms(1) by simp
  ultimately show "holds (unmap_pages r i off (kp i t) (vp i t) t)
    (\<lambda>_ s'. length (pool s') = length (pool s) + 2 * Suc i \<and>
       dom (pmap s') = dom (pmap s) - block_keys r off (Suc i) \<and>
       (\<forall>k. k \<notin> block_keys r off (Suc i) \<longrightarrow> pmap s' k = pmap s k) \<and>
       conserved s' = conserved s \<and> rest s' = rest s)
    (\<lambda>e _. is_exit e)"
    by (intro holds_conseq [OF unmap_one]) (use I in \<open>auto simp: block_keys_Suc\<close>)
qed simp

end

section \<open>The backends meet the contract\<close>

text \<open>What neither backend touches: everything but the device, the pools and the page maps.\<close>

definition vrest where
  "vrest s = (cfg s, verbose s, deferred_reclaim s, is_configured s, allocator s, k_ptr s, v_ptr s,
     k_tensors s, v_tensors s, mapped_pages s, curr_seq_lengths s, mem_manager_running s,
     cached_uuid s, nvidia_uvm_fd s, uvm_page_size s)"

definition cuda_map where
  "cuda_map api reqId layer_idx req_offset kcache_ptr vcache_ptr s =
     obind (pop_cuda_page s) (\<lambda>k_page s.
     obind (pop_cuda_page s) (\<lambda>v_page.
     map_cuda_pages api reqId layer_idx req_offset kcache_ptr vcache_ptr k_page v_page))"

definition uvm_map where
  "uvm_map api reqId layer_idx req_offset kcache_ptr vcache_ptr s =
     obind (pop_uvm_page s) (\<lambda>k_page s.
     obind (pop_uvm_page s) (\<lambda>v_page.
     map_uvm_pages api reqId layer_idx req_offset kcache_ptr vcache_ptr k_page v_page))"

definition cuda_unmap where
  "cuda_unmap api reqId layer_idx req_offset kcache_ptr vcache_ptr s =
     (let key = (of_nat reqId, req_offset, of_nat layer_idx); ps = page_size (cfg s) in
        obind (CHECK_CUDA (cuMemUnmap api (kcache_ptr + req_offset) ps) s) (\<lambda>_ s.
        obind (CHECK_CUDA (cuMemUnmap api (vcache_ptr + req_offset) ps) s) (\<lambda>_ s.
        Ret () (s\<lparr>cuda_pages := cuda_pages s @ [fst (pagemap_at (cuda_pagemap s) key),
                                              snd (pagemap_at (cuda_pagemap s) key)],
                  cuda_pagemap := (cuda_pagemap s)(key := None)\<rparr>))))"

definition uvm_unmap where
  "uvm_unmap (api :: 'g gpu_api) reqId layer_idx req_offset (kcache_ptr :: u64) (vcache_ptr :: u64) s =
     (let key = (of_nat reqId, req_offset, of_nat layer_idx) in
        (Ret () (s\<lparr>uvm_pages := uvm_pages s @ [fst (pagemap_at (uvm_pagemap s) key),
                                            snd (pagemap_at (uvm_pagemap s) key)],
                  uvm_pagemap := (uvm_pagemap s)(key := None)\<rparr>) :: ('g, unit) vout))"

lemma MAP_PAGES_backend:
  "MAP_PAGES api r l off kp vp s =
     (if \<not> is_uvm_backend (page_size (cfg s)) then cuda_map api r l off kp vp s
      else uvm_map api r l off kp vp s)"
  by (simp add: MAP_PAGES_def cuda_map_def uvm_map_def)

lemma UNMAP_PAGES_backend:
  "UNMAP_PAGES api r l off kp vp s =
     (if \<not> is_uvm_backend (page_size (cfg s)) then cuda_unmap api r l off kp vp s
      else uvm_unmap api r l off kp vp s)"
  by (simp add: UNMAP_PAGES_def cuda_unmap_def uvm_unmap_def Let_def)

lemma holds_CHECK_CUDA:
  "(\<And>g. Q () (s\<lparr>gpu := g\<rparr>)) \<Longrightarrow> (\<And>res g. E (ExitCuda res) (s\<lparr>gpu := g\<rparr>)) \<Longrightarrow>
   holds (CHECK_CUDA x s) Q E"
  by (cases "x (gpu s)") (simp add: CHECK_CUDA_def)

lemma vattn_mem_map_gpu: "\<exists>res g. vattn_mem_map api a p s = (res, s\<lparr>gpu := g\<rparr>)"
  by (auto simp: vattn_mem_map_def Let_def split: prod.splits)

lemma holds_CHECK_vattn_mem_map:
  "(\<And>g. Q () (s\<lparr>gpu := g\<rparr>)) \<Longrightarrow> (\<And>res g. E (ExitVattn res) (s\<lparr>gpu := g\<rparr>)) \<Longrightarrow>
   holds (CHECK_VATTN (vattn_mem_map api a p) s) Q E"
  using vattn_mem_map_gpu [of api a p s] by (auto simp: CHECK_VATTN_def)

lemma two_pops_cases:
  obtains "xs = []" | x where "xs = [x]" | ps v k where "xs = ps @ [v, k]"
proof (cases xs rule: rev_cases)
  case (snoc ys k)
  then show ?thesis using that by (cases ys rule: rev_cases) auto
qed (use that in simp)

interpretation cuda: page_backend cuda_pages cuda_pagemap vrest "cuda_map api" "cuda_unmap api" for api
proof (unfold_locales, goal_cases)
  case (1 r l off kp vp s)
  show ?case
    unfolding cuda_map_def pop_cuda_page_def map_cuda_pages_def Let_def
    by (cases "cuda_pages s" rule: two_pops_cases)
      (auto intro!: holds_CHECK_CUDA simp: vrest_def butlast_append)
next
  case (2 r l off kp vp s)
  show ?case
    unfolding cuda_unmap_def Let_def
    by (auto intro!: holds_CHECK_CUDA simp: vrest_def)
qed

interpretation uvm: page_backend uvm_pages uvm_pagemap vrest "uvm_map api" "uvm_unmap api" for api
proof (unfold_locales, goal_cases)
  case (1 r l off kp vp s)
  show ?case
    unfolding uvm_map_def pop_uvm_page_def map_uvm_pages_def Let_def
    by (cases "uvm_pages s" rule: two_pops_cases)
      (auto intro!: holds_CHECK_vattn_mem_map simp: vrest_def butlast_append)
next
  case (2 r l off kp vp s)
  show ?case
    unfolding uvm_unmap_def Let_def by (auto simp: vrest_def)
qed

text \<open>The pool and the page map of the backend in use.\<close>

definition free_pool :: "'g vst \<Rightarrow> u64 list" where
  "free_pool s = (if is_uvm_backend (page_size (cfg s)) then uvm_pages s else cuda_pages s)"

definition active_pagemap :: "'g vst \<Rightarrow> pagemap" where
  "active_pagemap s =
     (if is_uvm_backend (page_size (cfg s)) then uvm_pagemap s else cuda_pagemap s)"

lemma vrest_fields:
  assumes "vrest s' = vrest s"
  shows "cfg s' = cfg s" "verbose s' = verbose s" "deferred_reclaim s' = deferred_reclaim s"
    "k_tensors s' = k_tensors s" "v_tensors s' = v_tensors s" "mapped_pages s' = mapped_pages s"
    "curr_seq_lengths s' = curr_seq_lengths s" "mem_manager_running s' = mem_manager_running s"
  using assms by (auto simp: vrest_def)

interpretation mux: page_backend free_pool active_pagemap vrest "MAP_PAGES api" "UNMAP_PAGES api"
  for api
proof (unfold_locales, goal_cases)
  case (1 r l off kp vp s)
  show ?case
  proof (cases "is_uvm_backend (page_size (cfg s))")
    case True
    then show ?thesis
      by (auto simp: MAP_PAGES_backend free_pool_def active_pagemap_def
          intro!: holds_conseq [OF uvm.map_pages] dest: vrest_fields(1))
  next
    case False
    then show ?thesis
      by (auto simp: MAP_PAGES_backend free_pool_def active_pagemap_def
          intro!: holds_conseq [OF cuda.map_pages] dest: vrest_fields(1))
  qed
next
  case (2 r l off kp vp s)
  show ?case
  proof (cases "is_uvm_backend (page_size (cfg s))")
    case True
    then show ?thesis
      by (auto simp: UNMAP_PAGES_backend free_pool_def active_pagemap_def
          intro!: holds_conseq [OF uvm.unmap_pages] dest: vrest_fields(1))
  next
    case False
    then show ?thesis
      by (auto simp: UNMAP_PAGES_backend free_pool_def active_pagemap_def
          intro!: holds_conseq [OF cuda.unmap_pages] dest: vrest_fields(1))
  qed
qed

lemma get_num_free_pages_pool [simp]:
  "get_num_free_pages s (page_size (cfg s)) = of_nat (length (free_pool s))"
  by (simp add: get_num_free_pages_def free_pool_def)

end
