(* ===== verification/Vattn_Tensor.thy ===== *)
theory Vattn_Tensor
  imports Vattn_Backend
begin

text \<open>
  Virtual tensors (\<^verbatim>\<open>src/vattention/vtensor.h\<close>): address space is reserved for a tensor without
  physical memory behind it. The request stride of the reserved storage is rounded up to whole pages.
  The size of a contiguous tensor and the check of its dimensions are PyTorch's
  (\<open>computeStorageNbytesContiguous\<close>, \<open>check_size_nonnegative\<close>).
\<close>

text \<open>\<^verbatim>\<open>VirtualTensorAllocator::allocate\<close>\<close>

definition vt_allocate :: "'g gpu_api \<Rightarrow> virtual_tensor_allocator \<Rightarrow> u64 \<Rightarrow> 'g vst \<Rightarrow> ('g, u64) vout" where
  "vt_allocate api al nbytes s =
     (if \<not> nbytes < 1152921504606846976 then Fail OutOfMemoryError s
      else if nbytes = 0 then Fail (RuntimeError ''can't allocate 0 sized tensor...'') s
      else if \<not> is_uvm_backend (alloc_page_size al)
      then CHECK_CUDA_out (cuMemAddressReserve api nbytes (alloc_page_size al)) s
      else CHECK_CUDA_out (cudaMallocManaged api nbytes) s)"

text \<open>
  The sizes \<^verbatim>\<open>_alloc_vtensor\<close> computes before it reserves storage: the storage size, or the
  exception it throws. A zero page size would trap in \<^verbatim>\<open>ROUND_UP\<close>.
\<close>

definition vtensor_size :: "'g gpu_api \<Rightarrow> u64 list \<Rightarrow> u64 \<Rightarrow> u64 \<Rightarrow> u64 \<Rightarrow> vattn_error + u64" where
  "vtensor_size api shape ps min_request_bytes itemsize =
     (if \<not> check_size_nonnegative api shape then Inl (RuntimeError ''negative dimension'')
      else if shape = [] \<or> shape ! 0 = 0
      then Inl (RuntimeError ''vtensor shape must include a positive batch dimension'')
      else let batch_size = shape ! 0;
               logical_size_bytes = computeStorageNbytesContiguous api shape itemsize;
               per_request_bytes = logical_size_bytes div batch_size
           in if logical_size_bytes mod batch_size \<noteq> 0
              then Inl (RuntimeError ''logical_size_bytes is not divisible by batch size'')
              else if ps = 0 then Inl DivideByZero
              else let per_request_bytes = (if per_request_bytes < min_request_bytes
                                            then min_request_bytes else per_request_bytes);
                       per_request_bytes = ROUND_UP per_request_bytes ps;
                       size_bytes = per_request_bytes * batch_size;
                       size_bytes = (if size_bytes < ps * batch_size then ps * batch_size
                                     else size_bytes)
                   in if size_bytes mod batch_size \<noteq> 0
                      then Inl (RuntimeError ''size_bytes is not divisible by batch size'')
                      else if (size_bytes div batch_size) mod ps \<noteq> 0
                      then Inl (RuntimeError ''request stride is not a multiple of page_size'')
                      else Inr size_bytes)"

text \<open>
  \<^verbatim>\<open>alloc_vtensor\<close> with the template \<^verbatim>\<open>_alloc_vtensor\<close> it instantiates: the storage has the size
  computed above, the tensor keeps the contiguous shape it was asked for.
\<close>

definition alloc_vtensor ::
  "'g gpu_api \<Rightarrow> u64 list \<Rightarrow> u64 \<Rightarrow> u64 \<Rightarrow> u64 \<Rightarrow> virtual_tensor_allocator \<Rightarrow> 'g vst \<Rightarrow> ('g, tensor) vout" where
  "alloc_vtensor api shape ps min_request_bytes itemsize al s =
     (case vtensor_size api shape ps min_request_bytes itemsize of
        Inl e \<Rightarrow> Fail e s
      | Inr size_bytes \<Rightarrow>
          obind (vt_allocate api al size_bytes s) (\<lambda>ptr s'.
            Ret \<lparr>data_ptr = ptr, storage_nbytes = size_bytes, tensor_shape = shape,
                 tensor_itemsize = itemsize\<rparr> s'))"

text \<open>
  The distance in bytes between consecutive requests as PyTorch addresses the tensor: the strides are
  those of the contiguous shape, so it is the size of one batch entry.
\<close>

definition tensor_request_stride :: "tensor \<Rightarrow> u64" where
  "tensor_request_stride t = prod_list (tl (tensor_shape t)) * tensor_itemsize t"

section \<open>Sizes\<close>

lemma unat_ROUND_UP:
  assumes "y \<noteq> 0" "unat x + unat y \<le> 2 ^ 64"
  shows "unat (ROUND_UP x y) = ceil_div (unat x) (unat y) * unat y"
proof -
  have y: "unat (y - 1) = unat y - 1" "0 < unat y"
    using assms(1) by (simp_all add: unat_minus_one unat_gt_0)
  have s: "unat (x + (y - 1)) = unat x + (unat y - 1)"
    using assms(2) y by (subst unat_add_no_wrap) auto
  then have d: "unat ((x + y - 1) div y) = ceil_div (unat x) (unat y)"
    using y by (simp add: unat_div ceil_div_def add_diff_eq)
  have "ceil_div (unat x) (unat y) * unat y \<le> unat x + (unat y - 1)"
    using div_times_less_eq_dividend [of "unat x + unat y - 1" "unat y"] y
    by (simp add: ceil_div_def)
  also have "\<dots> < 2 ^ 64" using assms(2) y by linarith
  finally show ?thesis
    unfolding ROUND_UP_def by (subst unat_mult_no_wrap) (simp_all add: d)
qed

text \<open>
  Without wrap-around the computation cannot fail for a positive batch and a logical size that is
  a whole number of requests: the storage is one stride per request, the stride is a whole number of
  pages, covers the request and its minimum, and wastes less than a page.
\<close>

lemma vtensor_size_ok:
  fixes B per ps :: nat and m :: u64
  defines "stride \<equiv> ceil_div (max per (unat m)) ps * ps"
  assumes shape: "shape = b # dims" and nonneg: "check_size_nonnegative api shape"
    and b: "unat b = B" "0 < B" and p: "unat pgs = ps" "0 < ps"
    and logical: "unat (computeStorageNbytesContiguous api shape isz) = per * B"
    and pos: "0 < per"
    and fits: "(max per (unat m) + ps) * B < 2 ^ 64"
  shows "\<exists>sz. vtensor_size api shape pgs m isz = Inr sz \<and> unat sz = stride * B"
proof -
  define lg where "lg = computeStorageNbytesContiguous api shape isz"
  define pr where "pr = (if lg div b < m then m else lg div b)"
  have ub: "unat (lg div b) = per"
    using logical b by (simp add: lg_def unat_div)
  have pr: "unat pr = max per (unat m)"
    using ub by (auto simp: pr_def word_less_nat_alt max_def)
  have le: "max per (unat m) + ps \<le> (max per (unat m) + ps) * B"
    using b(2) by simp
  have ru: "unat (ROUND_UP pr pgs) = stride"
  proof -
    have "pgs \<noteq> 0" using p by auto
    moreover have "max per (unat m) + ps < 2 ^ 64" by (rule le_less_trans [OF le fits])
    ultimately show ?thesis
      unfolding stride_def by (subst unat_ROUND_UP) (simp_all add: pr p)
  qed
  have strb: "stride < max per (unat m) + ps"
    unfolding stride_def using ceil_div_slack [of ps "max per (unat m)"] p pos
    by (simp add: less_max_iff_disj)
  have ge: "ps \<le> stride"
    unfolding stride_def using ceil_div_pos [of ps "max per (unat m)"] p pos by (simp add: less_max_iff_disj Suc_le_eq)
  have sb: "stride * B < 2 ^ 64"
    using strb fits b(2) by (metis mult_le_mono1 less_imp_le_nat le_less_trans)
  have sz: "unat (ROUND_UP pr pgs * b) = stride * B"
    using ru b sb by (subst unat_mult_no_wrap) auto
  have psb: "unat (pgs * b) = ps * B"
    using p b ge sb by (subst unat_mult_no_wrap) (auto intro: le_less_trans [OF mult_le_mono1])
  have nlt: "\<not> ROUND_UP pr pgs * b < pgs * b"
    using ge by (simp add: word_less_nat_alt sz psb)
  have m0: "lg mod b = 0"
    using logical b by (simp add: word_eq_iff_unsigned lg_def unat_mod flip: unat_eq_0)
  have m1: "(ROUND_UP pr pgs * b) mod b = 0"
    by (simp add: unat_mod sz b flip: unat_eq_0)
  have m2: "(ROUND_UP pr pgs * b) div b mod pgs = 0"
    using b by (simp add: unat_mod unat_div sz p stride_def flip: unat_eq_0)
  have "vtensor_size api shape pgs m isz = Inr (ROUND_UP pr pgs * b)"
  proof -
    have sh: "shape \<noteq> []" "shape ! 0 = b" "b \<noteq> 0" "pgs \<noteq> 0"
      using shape b p by auto
    show ?thesis
      unfolding vtensor_size_def Let_def sh lg_def [symmetric] pr_def [symmetric] m0
      using nonneg sh nlt m1 m2 by simp
  qed
  then show ?thesis using sz by blast
qed

end
