(* ===== verification/Vattn_Init.thy ===== *)
theory Vattn_Init
  imports Vattn_Tensor
begin

text \<open>
  Initialisation of the KV cache: the first part of \<^verbatim>\<open>vAttentionCachingAllocator\<close> in
  \<^verbatim>\<open>src/vattention/vattention.cu\<close> (lines 39 to 309). The dense path takes the geometry as arguments
  and asserts bounds on it, the component-spec path takes it from a Python dictionary, here the record
  \<open>component_payload\<close> with one field per key. Log lines are left out.
\<close>

definition dense_token_bytes :: "vcfg \<Rightarrow> i32" where
  "dense_token_bytes c =
     (if megacache_enabled c
      then num_kv_heads c * head_size c * bytes_per_elem c * num_layers c
      else num_kv_heads c * head_size c * bytes_per_elem c)"

definition init_kv_block_size :: "'g gpu_api \<Rightarrow> 'g vst \<Rightarrow> ('g, unit) vout" where
  "init_kv_block_size api s =
     obind (do_cuda_init api (device (cfg s)) (page_size (cfg s)) s) (\<lambda>ps s.
     let c = (cfg s)\<lparr>page_size := ps\<rparr>; s = s\<lparr>cfg := c\<rparr> in
     if component_spec_enabled c then
       (if tokens_per_page c = 0 then
          (if page_buffer_token_bytes c = 0 then Fail DivideByZero s
           else Ret () (s\<lparr>cfg := c\<lparr>tokens_per_page := ps div page_buffer_token_bytes c\<rparr>\<rparr>))
        else Ret () s)
     else if dense_token_bytes c = 0 then Fail DivideByZero s
     else Ret () (s\<lparr>cfg := c\<lparr>tokens_per_page := ps div i2u (dense_token_bytes c)\<rparr>\<rparr>))"

definition init_buffer_sizes :: "'g vst \<Rightarrow> ('g, unit) vout" where
  "init_buffer_sizes s =
     (let c = cfg s;
          c = c\<lparr>virt_buff_size_per_token :=
                  (if component_spec_enabled c then page_buffer_token_bytes c
                   else i2u (dense_token_bytes c))\<rparr>
      in if tokens_per_page c = 0 then Fail DivideByZero (s\<lparr>cfg := c\<rparr>)
         else let c = c\<lparr>max_pages_per_req := tokens_to_pages c (max_context_length c)\<rparr>;
                  c = c\<lparr>virt_buff_size_per_req := max_pages_per_req c * page_size c\<rparr>;
                  c = c\<lparr>virt_buff_size := virt_buff_size_per_req c * i2u (max_batch_size c)\<rparr>;
                  c = c\<lparr>virt_buff_num_kv_tokens := i2u (max_batch_size c) * max_context_length c\<rparr>;
                  c = (if megacache_enabled c
                       then c\<lparr>virt_buff_num_kv_tokens := virt_buff_num_kv_tokens c * i2u (num_layers c)\<rparr>
                       else c)
              in Ret () (s\<lparr>cfg := c\<rparr>))"

definition resize :: "nat \<Rightarrow> u64 list \<Rightarrow> u64 list" where
  "resize n xs = take n xs @ replicate (n - length xs) 0"

text \<open>What both initialisation paths do after the parameters are set.\<close>

definition init_tail :: "'g gpu_api \<Rightarrow> 'g vst \<Rightarrow> ('g, unit) vout" where
  "init_tail api s =
     obind (init_kv_block_size api s) (\<lambda>_ s.
     obind (init_buffer_sizes s) (\<lambda>_ s.
     let s = init_kvcache_batch_metadata s; n = i2n (num_layers (cfg s)) in
     Ret () (s\<lparr>k_ptr := resize n (k_ptr s), v_ptr := resize n (v_ptr s),
               allocator := \<lparr>alloc_device_idx = device (cfg s), alloc_page_size = page_size (cfg s)\<rparr>,
               is_configured := True\<rparr>)))"

definition init_kvcache ::
  "'g gpu_api \<Rightarrow> i32 \<Rightarrow> i32 \<Rightarrow> i32 \<Rightarrow> i32 \<Rightarrow> u64 \<Rightarrow> i32 \<Rightarrow> scalar_type \<Rightarrow> i32 \<Rightarrow> u64 \<Rightarrow> bool
   \<Rightarrow> 'g vst \<Rightarrow> ('g, unit) vout" where
  "init_kvcache api num_layers' num_kv_heads' head_size' max_batch_size' max_context_length'
     device' dtype' itemsize page_size' megacache s =
     (if \<not> (0 < sint max_batch_size' \<and> sint max_batch_size' < 1000) then Fail (AssertFail ''max_batch_size'') s
      else if \<not> (0 < sint max_context_length' \<and> sint max_context_length' < 1000000)
      then Fail (AssertFail ''max_context_length'') s
      else if \<not> (0 < sint num_layers' \<and> sint num_layers' < 100) then Fail (AssertFail ''num_layers'') s
      else if \<not> (0 < sint num_kv_heads' \<and> sint num_kv_heads' < 256)
      then Fail (AssertFail ''num_kv_heads'') s
      else let tb = i2u num_kv_heads' * i2u head_size' * i2u itemsize;
               c = (cfg s)\<lparr>num_layers := num_layers', num_kv_heads := num_kv_heads',
                     head_size := head_size', max_batch_size := max_batch_size',
                     max_context_length := max_context_length', device := device',
                     scalar_type := dtype', page_size := page_size',
                     megacache_enabled := megacache, megacache_enabled_global := megacache,
                     bytes_per_elem := itemsize,
                     page_buffer_token_bytes := (if megacache then tb * i2u num_layers' else tb),
                     cached_token_bytes_local :=
                       i2u num_layers' * 2 * i2u num_kv_heads' * i2u head_size' * i2u itemsize,
                     component_spec_enabled := False,
                     cache_component_token_dims :=
                       [num_kv_heads' * head_size', num_kv_heads' * head_size']\<rparr>
           in init_tail api (s\<lparr>cfg := c\<rparr>))"

definition parse_scalar_type :: "string \<Rightarrow> vattn_error + scalar_type" where
  "parse_scalar_type dtype_name =
     (if dtype_name = ''float16'' \<or> dtype_name = ''half'' then Inr Half
      else if dtype_name = ''bfloat16'' then Inr BFloat16
      else if dtype_name = ''float32'' \<or> dtype_name = ''float'' then Inr Float
      else Inl (RuntimeError (''Unsupported dtype for component-spec initialization: '' @ dtype_name)))"

record component_payload =
  p_max_batch_size :: i32
  p_max_context_length :: u64
  p_device_idx :: i32
  p_dtype :: string
  p_page_size :: u64
  p_megacache :: bool
  p_num_layers :: i32
  p_num_kv_heads :: i32
  p_head_size :: i32
  p_tokens_per_page :: u64
  p_page_buffer_token_bytes :: u64
  p_cached_token_bytes_local :: u64
  p_dtype_size :: i32
  p_cache_components :: "i32 list"

definition init_kvcache_component_spec ::
  "'g gpu_api \<Rightarrow> component_payload \<Rightarrow> 'g vst \<Rightarrow> ('g, unit) vout" where
  "init_kvcache_component_spec api payload s =
     (let c = (cfg s)\<lparr>max_batch_size := p_max_batch_size payload,
                max_context_length := p_max_context_length payload,
                device := p_device_idx payload, page_size := p_page_size payload,
                megacache_enabled := p_megacache payload,
                megacache_enabled_global := p_megacache payload,
                num_layers := p_num_layers payload, num_kv_heads := p_num_kv_heads payload,
                head_size := p_head_size payload, tokens_per_page := p_tokens_per_page payload,
                page_buffer_token_bytes := p_page_buffer_token_bytes payload,
                cached_token_bytes_local := p_cached_token_bytes_local payload,
                bytes_per_elem := p_dtype_size payload\<rparr>
      in case parse_scalar_type (p_dtype payload) of
           Inl e \<Rightarrow> Fail e (s\<lparr>cfg := c\<rparr>)
         | Inr ty \<Rightarrow>
             let c = c\<lparr>scalar_type := ty, component_spec_enabled := True,
                       cache_component_token_dims := p_cache_components payload\<rparr>
             in if length (cache_component_token_dims c) \<noteq> 2
                then Fail (RuntimeError ''component-spec initialization currently expects exactly 2 cache components'')
                       (s\<lparr>cfg := c\<rparr>)
                else init_tail api (s\<lparr>cfg := c\<rparr>))"

text \<open>The element size PyTorch gives a scalar type.\<close>

fun itemsize_of :: "scalar_type \<Rightarrow> u64" where
  "itemsize_of Half = 2"
| "itemsize_of BFloat16 = 2"
| "itemsize_of Float = 4"

definition alloc_virtual_tensor :: "'g gpu_api \<Rightarrow> 'g vst \<Rightarrow> ('g, tensor) vout" where
  "alloc_virtual_tensor api s =
     (let c = cfg s;
          shape = (if megacache_enabled c
                   then [i2u (max_batch_size c), max_context_length c, i2u (num_layers c),
                         i2u (num_kv_heads c), i2u (head_size c)]
                   else [i2u (max_batch_size c), max_context_length c,
                         i2u (num_kv_heads c), i2u (head_size c)])
      in alloc_vtensor api shape (page_size c) (virt_buff_size_per_req c)
           (itemsize_of (scalar_type c)) (allocator s) s)"

definition alloc_component_virtual_tensor :: "'g gpu_api \<Rightarrow> i32 \<Rightarrow> 'g vst \<Rightarrow> ('g, tensor) vout" where
  "alloc_component_virtual_tensor api component_token_dim s =
     (let c = cfg s;
          shape = (if megacache_enabled c
                   then [i2u (max_batch_size c), max_context_length c, i2u (num_layers c),
                         i2u component_token_dim]
                   else [i2u (max_batch_size c), max_context_length c, i2u component_token_dim])
      in alloc_vtensor api shape (page_size c) (virt_buff_size_per_req c)
           (itemsize_of (scalar_type c)) (allocator s) s)"

definition push_k :: "tensor \<Rightarrow> 'g vst \<Rightarrow> 'g vst" where
  "push_k t s = s\<lparr>k_tensors := k_tensors s @ [t]\<rparr>"

definition push_v :: "tensor \<Rightarrow> 'g vst \<Rightarrow> 'g vst" where
  "push_v t s = s\<lparr>v_tensors := v_tensors s @ [t]\<rparr>"

definition init_kvcache_virtual :: "'g gpu_api \<Rightarrow> 'g vst \<Rightarrow> ('g, tensor list) vout" where
  "init_kvcache_virtual api s =
     (if \<not> check_kvcache_config (cfg s) then Ret [] s
      else obind
        (if megacache_enabled (cfg s) then
           obind (alloc_virtual_tensor api s) (\<lambda>t0 s.
           obind (alloc_virtual_tensor api s) (\<lambda>t1 s.
           Ret () (push_v t1 (push_k t0 s))))
         else
           for_each (\<lambda>i s. obind (alloc_virtual_tensor api s) (\<lambda>t s.
               if i < i2n (num_layers (cfg s)) then Ret () (push_k t s) else Ret () (push_v t s)))
             [0..<2 * i2n (num_layers (cfg s))] s)
        (\<lambda>_ s. Ret (k_tensors s @ v_tensors s) s))"

definition init_kvcache_component_spec_virtual :: "'g gpu_api \<Rightarrow> 'g vst \<Rightarrow> ('g, tensor list) vout" where
  "init_kvcache_component_spec_virtual api s =
     (let d0 = cache_component_token_dims (cfg s) ! 0; d1 = cache_component_token_dims (cfg s) ! 1 in
      if \<not> check_kvcache_config (cfg s) then Ret [] s
      else obind
        (if megacache_enabled (cfg s) then
           obind (alloc_component_virtual_tensor api d0 s) (\<lambda>t0 s.
           obind (alloc_component_virtual_tensor api d1 s) (\<lambda>t1 s.
           Ret () (push_v t1 (push_k t0 s))))
         else
           for_each (\<lambda>layer_idx s.
               obind (alloc_component_virtual_tensor api d0 s) (\<lambda>t0 s.
               let s = push_k t0 s in
               obind (alloc_component_virtual_tensor api d1 s) (\<lambda>t1 s.
               Ret () (push_v t1 s))))
             [0..<i2n (num_layers (cfg s))] s)
        (\<lambda>_ s. Ret (k_tensors s @ v_tensors s) s))"

definition reserve_physical_pages :: "'g gpu_api \<Rightarrow> u64 \<Rightarrow> 'g vst \<Rightarrow> ('g, u64) vout" where
  "reserve_physical_pages api free_memory s =
     reserve_gpu_pages api free_memory (page_size (cfg s)) s"

end
