(* ===== verification/Vattn_Alloc.thy ===== *)
theory Vattn_Alloc
  imports Vattn_Init
begin

text \<open>
  The run-time operations of \<^verbatim>\<open>vAttentionCachingAllocator\<close>
  (\<^verbatim>\<open>src/vattention/vattention.cu\<close>, lines 311 to 828): growing and releasing the physical memory of a
  request, the synchronous step, reclamation, the background memory management, request ids, metrics
  and clean-up. Printing (\<^verbatim>\<open>log.log\<close>, \<^verbatim>\<open>printf\<close>, \<^verbatim>\<open>show_allocator_state\<close>) is left out.
\<close>

section \<open>Free memory\<close>

definition get_num_free_kvblocks :: "'g vst \<Rightarrow> u64" where
  "get_num_free_kvblocks s =
     pages_to_kvblocks (cfg s) (get_num_free_pages s (page_size (cfg s)))
     + get_num_overcommitted_kvblocks s"

definition kvblocks_available :: "'g vst \<Rightarrow> u64 \<Rightarrow> bool" where
  "kvblocks_available s num_kvblocks \<longleftrightarrow>
     pages_to_kvblocks (cfg s) (get_num_free_pages s (page_size (cfg s))) \<ge> num_kvblocks"

section \<open>Releasing memory\<close>

definition kcache_ptr :: "'g vst \<Rightarrow> nat \<Rightarrow> u64" where
  "kcache_ptr s layer_idx = data_ptr (k_tensors s ! layer_idx)"

definition vcache_ptr :: "'g vst \<Rightarrow> nat \<Rightarrow> u64" where
  "vcache_ptr s layer_idx = data_ptr (v_tensors s ! layer_idx)"

text \<open>One KV block of a request: a pair of pages in the shared tensors, or in every layer's.\<close>

definition unmap_kvblock :: "'g gpu_api \<Rightarrow> nat \<Rightarrow> u64 \<Rightarrow> 'g vst \<Rightarrow> ('g, unit) vout" where
  "unmap_kvblock api reqId req_offset s =
     (if megacache_enabled (cfg s) then
        UNMAP_PAGES api reqId 0 req_offset (kcache_ptr s 0) (vcache_ptr s 0) s
      else
        for_each (\<lambda>layer_idx s.
            UNMAP_PAGES api reqId layer_idx req_offset (kcache_ptr s layer_idx)
              (vcache_ptr s layer_idx) s)
          [0..<i2n (num_layers (cfg s))] s)"

definition unmap_req_page_one :: "'g gpu_api \<Rightarrow> nat \<Rightarrow> 'g vst \<Rightarrow> ('g, unit) vout" where
  "unmap_req_page_one api reqId s =
     obind (get_req_current_unmap_offset reqId s) (\<lambda>req_offset s.
     obind (unmap_kvblock api reqId req_offset s) (\<lambda>_ s.
     Ret () (dec_req_page_count reqId s)))"

text \<open>Every unmapping takes one page from the request's count, so the release loop ends.\<close>

lemma holds_vrest_UNMAP:
  "holds (UNMAP_PAGES api r l off kp vp s) (\<lambda>_ s'. vrest s' = vrest s) (\<lambda>_ _. True)"
  by (rule holds_conseq [OF mux.unmap_pages]) auto

lemma unmap_req_page_one_decreases:
  assumes "unmap_req_page_one api r s = Ret u s'"
  shows "unat (mapped_pages s' ! r) < unat (mapped_pages s ! r)"
proof -
  have off: "holds (get_req_current_unmap_offset r s)
      (\<lambda>_ t. t = s \<and> r < length (mapped_pages s) \<and> mapped_pages s ! r > 0) (\<lambda>_ _. True)"
    by (auto simp: get_req_current_unmap_offset_def get_req_pages_def)
  have blk: "holds (unmap_kvblock api r off s) (\<lambda>_ t. vrest t = vrest s) (\<lambda>_ _. True)" for off
    unfolding unmap_kvblock_def
    by (auto intro!: holds_for_each_inv holds_conseq [OF holds_vrest_UNMAP])
  have dec: "unat (mapped_pages (dec_req_page_count r t) ! r) < unat (mapped_pages s ! r)"
    if "vrest t = vrest s" "r < length (mapped_pages s)" "mapped_pages s ! r > 0" for t
    using that(2,3) vrest_fields(6) [OF that(1)]
    by (simp add: dec_req_page_count_def measure_unat word_greater_zero_iff)
  have "holds (unmap_req_page_one api r s)
      (\<lambda>_ t. unat (mapped_pages t ! r) < unat (mapped_pages s ! r)) (\<lambda>_ _. True)"
    unfolding unmap_req_page_one_def
    by (auto intro!: holds_conseq [OF off] holds_conseq [OF blk] dec)
  then show ?thesis using assms by (rule holds_Ret)
qed

function release_kvcache_pages_some :: "'g gpu_api \<Rightarrow> nat \<Rightarrow> u64 \<Rightarrow> 'g vst \<Rightarrow> ('g, unit) vout" where
  "release_kvcache_pages_some api reqId retain_blocks s =
     (if get_req_pages s reqId > retain_blocks
      then (case unmap_req_page_one api reqId s of
              Ret _ s' \<Rightarrow> release_kvcache_pages_some api reqId retain_blocks s'
            | Fail e s' \<Rightarrow> Fail e s')
      else Ret () s)"
  by pat_completeness auto
termination
  by (relation "measure (\<lambda>(api, r, n, s). unat (mapped_pages s ! r))")
    (auto dest: unmap_req_page_one_decreases)

declare release_kvcache_pages_some.simps [simp del]

definition release_kvcache_pages_all :: "'g gpu_api \<Rightarrow> nat \<Rightarrow> 'g vst \<Rightarrow> ('g, unit) vout" where
  "release_kvcache_pages_all api reqId s = release_kvcache_pages_some api reqId 0 s"

section \<open>Growing a request\<close>

text \<open>
  The synchronous branch builds a \<^verbatim>\<open>std::runtime_error\<close> but does not throw it, so both branches
  return false.
\<close>

definition is_valid_offset :: "vcfg \<Rightarrow> nat \<Rightarrow> u64 \<Rightarrow> bool \<Rightarrow> bool" where
  "is_valid_offset c reqId req_offset sync =
     (if req_offset < of_nat (reqId + 1) * virt_buff_size_per_req c then True
      else if \<not> sync then False
      else False)"

definition map_kvblock :: "'g gpu_api \<Rightarrow> nat \<Rightarrow> u64 \<Rightarrow> 'g vst \<Rightarrow> ('g, unit) vout" where
  "map_kvblock api reqId req_offset s =
     (if megacache_enabled (cfg s) then
        MAP_PAGES api reqId 0 req_offset (kcache_ptr s 0) (vcache_ptr s 0) s
      else
        for_each (\<lambda>layer_idx s.
            MAP_PAGES api reqId layer_idx req_offset (kcache_ptr s layer_idx)
              (vcache_ptr s layer_idx) s)
          [0..<i2n (num_layers (cfg s))] s)"

fun grow_loop :: "'g gpu_api \<Rightarrow> nat \<Rightarrow> nat \<Rightarrow> bool \<Rightarrow> 'g vst \<Rightarrow> ('g, unit) vout" where
  "grow_loop api reqId 0 sync s = Ret () s"
| "grow_loop api reqId (Suc n) sync s =
     (let req_offset = get_req_current_map_offset s reqId in
      if \<not> is_valid_offset (cfg s) reqId req_offset sync then Ret () s
      else obind (map_kvblock api reqId req_offset s)
             (\<lambda>_ s. grow_loop api reqId n sync (inc_req_page_count reqId s)))"

definition oom_error :: vattn_error where
  "oom_error = RuntimeError ''***** OOM on demand: not enough free pages to continue *****''"

definition grow_kvcache_phys :: "'g gpu_api \<Rightarrow> nat \<Rightarrow> u64 \<Rightarrow> bool \<Rightarrow> 'g vst \<Rightarrow> ('g, unit) vout" where
  "grow_kvcache_phys api reqId num_blocks sync s =
     (if num_blocks \<le> 0 then Ret () s
      else if \<not> kvblocks_available s num_blocks then
        (if \<not> sync then Ret () s else Fail oom_error (s\<lparr>verbose := True\<rparr>))
      else grow_loop api reqId (unat num_blocks) sync s)"

fun common_loop :: "'g gpu_api \<Rightarrow> nat \<Rightarrow> 'g vst \<Rightarrow> ('g, unit) vout" where
  "common_loop api 0 s = Ret () s"
| "common_loop api (Suc n) s =
     obind
       (if megacache_enabled (cfg s) then
          MAP_COMMON_PAGES api 0 (kcache_ptr s 0) (vcache_ptr s 0) s
        else
          for_each (\<lambda>layer_idx s.
              MAP_COMMON_PAGES api layer_idx (kcache_ptr s layer_idx) (vcache_ptr s layer_idx) s)
            [0..<i2n (num_layers (cfg s))] s)
       (\<lambda>_ s. common_loop api n (fold inc_req_page_count [0..<batch (cfg s)] s))"

definition map_common_pages_in_batch :: "'g gpu_api \<Rightarrow> u64 \<Rightarrow> 'g vst \<Rightarrow> ('g, unit) vout" where
  "map_common_pages_in_batch api num_tokens s =
     (if tokens_per_page (cfg s) = 0 then Fail DivideByZero s
      else let num_blocks = tokens_to_pages (cfg s) num_tokens in
      if num_blocks \<le> 0 then Ret () s
      else if \<not> kvblocks_available s num_blocks then Fail oom_error s
      else common_loop api (unat num_blocks) s)"

section \<open>Reclaiming memory on demand\<close>

fun reclaim_loop :: "'g gpu_api \<Rightarrow> u64 \<Rightarrow> nat list \<Rightarrow> 'g vst \<Rightarrow> ('g, unit) vout" where
  "reclaim_loop api num_kvblocks [] s = Ret () s"
| "reclaim_loop api num_kvblocks (reqId # rest) s =
     (if kvblocks_available s num_kvblocks then Ret () s
      else let nr_mapped = get_req_pages s reqId;
               nr_required = tokens_to_pages (cfg s) (get_req_seq_length s reqId)
           in if nr_mapped \<le> nr_required then reclaim_loop api num_kvblocks rest s
              else obind (release_kvcache_pages_some api reqId nr_required s)
                     (\<lambda>_ s. reclaim_loop api num_kvblocks rest s))"

definition reclaim_kvblocks_on_demand :: "'g gpu_api \<Rightarrow> u64 \<Rightarrow> 'g vst \<Rightarrow> ('g, unit) vout" where
  "reclaim_kvblocks_on_demand api num_kvblocks s =
     reclaim_loop api num_kvblocks (rev [0..<batch (cfg s)]) s"

section \<open>The synchronous step\<close>

definition map_pages_for_curr_step :: "'g gpu_api \<Rightarrow> nat \<Rightarrow> u64 \<Rightarrow> 'g vst \<Rightarrow> ('g, unit) vout" where
  "map_pages_for_curr_step api reqId seq_len s =
     (if seq_len = 0 then Ret () s
      else let nr_required = tokens_to_pages (cfg s) seq_len;
               nr_mapped = get_req_pages s reqId
           in if nr_required \<le> nr_mapped then Ret () s
              else let nr_to_grow = nr_required - nr_mapped in
                   obind (if \<not> kvblocks_available s nr_to_grow
                          then reclaim_kvblocks_on_demand api nr_to_grow s else Ret () s) (\<lambda>_ s.
                   obind (grow_kvcache_phys api reqId nr_to_grow True s) (\<lambda>_ s.
                   Ret () (set_req_seq_length reqId seq_len s))))"

definition step_sync :: "'g gpu_api \<Rightarrow> u64 list \<Rightarrow> bool \<Rightarrow> 'g vst \<Rightarrow> ('g, unit) vout" where
  "step_sync api seq_lens eager_reclaim s =
     for_each (\<lambda>reqId s.
         if \<not> reqId < length seq_lens then Fail OutOfRange s
         else let s = set_req_seq_length reqId (seq_lens ! reqId) s in
              if eager_reclaim \<and> seq_lens ! reqId = 0 \<and> mapped_pages s ! reqId \<noteq> 0
              then release_kvcache_pages_all api reqId s
              else map_pages_for_curr_step api reqId (seq_lens ! reqId) s)
       [0..<batch (cfg s)] s"

definition prepare_prefill_kvcache :: "'g gpu_api \<Rightarrow> 'g vst \<Rightarrow> ('g, unit) vout" where
  "prepare_prefill_kvcache api s =
     for_each (\<lambda>reqId s. map_pages_for_curr_step api reqId (get_req_seq_length s reqId) s)
       [0..<batch (cfg s)] s"

section \<open>The background memory manager\<close>

fun reclaim_one :: "'g gpu_api \<Rightarrow> int \<Rightarrow> nat list \<Rightarrow> 'g vst \<Rightarrow> ('g, unit) vout" where
  "reclaim_one api next_prefill_reqId [] s = Ret () s"
| "reclaim_one api next_prefill_reqId (reqId # rest) s =
     (if is_active_req s reqId \<or> int reqId = next_prefill_reqId
      then reclaim_one api next_prefill_reqId rest s
      else if get_req_pages s reqId = 0 then reclaim_one api next_prefill_reqId rest s
      else unmap_req_page_one api reqId s)"

definition first_inactive :: "'g vst \<Rightarrow> int" where
  "first_inactive s =
     (case filter (\<lambda>reqId. \<not> is_active_req s reqId) [0..<batch (cfg s)] of
        [] \<Rightarrow> - 1 | reqId # _ \<Rightarrow> int reqId)"

definition do_reclaim_pages :: "'g gpu_api \<Rightarrow> 'g vst \<Rightarrow> ('g, unit) vout" where
  "do_reclaim_pages api s =
     (if deferred_reclaim s then Ret () s
      else reclaim_one api (first_inactive s) (rev [0..<batch (cfg s)]) s)"

text \<open>
  One pass of the eager loop over the batch: the running count of blocks and whether the pass ended
  the whole loop.
\<close>

fun eager_pass :: "'g gpu_api \<Rightarrow> nat \<Rightarrow> nat list \<Rightarrow> u64 \<Rightarrow> 'g vst \<Rightarrow> ('g, u64 \<times> bool) vout" where
  "eager_pass api eager_step_count [] nr_mapped_curr s = Ret (nr_mapped_curr, False) s"
| "eager_pass api eager_step_count (reqId # rest) nr_mapped_curr s =
     (let nr_required_curr = need_new_page_async s reqId (of_nat eager_step_count) in
      obind (grow_kvcache_phys api reqId nr_required_curr False s) (\<lambda>_ s.
      let nr_mapped_curr = nr_mapped_curr + nr_required_curr in
      if eager_step_count = 1 then eager_pass api eager_step_count rest nr_mapped_curr s
      else if nr_mapped_curr \<ge> 2 then Ret (nr_mapped_curr, True) s
      else eager_pass api eager_step_count rest nr_mapped_curr s))"

fun eager_loop :: "'g gpu_api \<Rightarrow> nat list \<Rightarrow> u64 \<Rightarrow> 'g vst \<Rightarrow> ('g, unit) vout" where
  "eager_loop api [] nr_mapped_curr s = Ret () s"
| "eager_loop api (eager_step_count # steps) nr_mapped_curr s =
     obind (eager_pass api eager_step_count [0..<batch (cfg s)] nr_mapped_curr s)
       (\<lambda>(nr_mapped_curr, d) s. if d then Ret () s else eager_loop api steps nr_mapped_curr s)"

definition EAGER_NUM_STEPS :: nat where "EAGER_NUM_STEPS = 10"

definition nr_required_next :: "'g vst \<Rightarrow> u64" where
  "nr_required_next s = (\<Sum>reqId \<leftarrow> [0..<batch (cfg s)]. need_new_page_async s reqId 1)"

definition do_kvcache_memory_management :: "'g gpu_api \<Rightarrow> 'g vst \<Rightarrow> ('g, unit) vout" where
  "do_kvcache_memory_management api s =
     (let nr_required = nr_required_next s in
      obind (if \<not> kvblocks_available s nr_required
             then reclaim_kvblocks_on_demand api nr_required s else Ret () s) (\<lambda>_ s.
      if \<not> kvblocks_available s nr_required then Ret () s
      else obind (eager_loop api [1..<EAGER_NUM_STEPS] 0 s) (\<lambda>_ s.
           if nr_required \<noteq> 0 then Ret () s else do_reclaim_pages api s)))"

section \<open>Request ids\<close>

fun best_fit :: "'g vst \<Rightarrow> u64 \<Rightarrow> nat list \<Rightarrow> int \<Rightarrow> int" where
  "best_fit s nr_required [] new_id = new_id"
| "best_fit s nr_required (reqId # rest) new_id =
     best_fit s nr_required rest
       (if is_active_req s reqId then new_id
        else if new_id = - 1 then int reqId
        else if get_req_pages s reqId \<ge> nr_required \<and>
                get_req_pages s reqId < get_req_pages s (nat new_id) then int reqId
        else new_id)"

definition alloc_new_batch_idx :: "u64 \<Rightarrow> 'g vst \<Rightarrow> ('g, int) vout" where
  "alloc_new_batch_idx seqlen s =
     (if tokens_per_page (cfg s) = 0 then Fail DivideByZero s
      else let new_id = best_fit s (tokens_to_pages (cfg s) seqlen) [0..<batch (cfg s)] (- 1) in
           Ret new_id (if new_id \<noteq> - 1 then set_req_seq_length (nat new_id) seqlen s else s))"

definition free_batch_idx :: "int \<Rightarrow> 'g vst \<Rightarrow> ('g, unit) vout" where
  "free_batch_idx reqId s =
     (if reqId < 0 \<or> int (length (curr_seq_lengths s)) \<le> reqId then Fail OutOfRange s
      else Ret () (set_req_seq_length (nat reqId) 0 s))"

definition set_deferred_reclamation :: "bool \<Rightarrow> 'g vst \<Rightarrow> 'g vst" where
  "set_deferred_reclamation val s = s\<lparr>deferred_reclaim := val\<rparr>"

section \<open>Metrics\<close>

text \<open>
  The percentages are doubles; their arithmetic is the record \<open>dbl_ops\<close>, so that nothing
  is claimed about rounding.
\<close>

record 'd dbl_ops =
  dbl_of_u64 :: "u64 \<Rightarrow> 'd"
  dbl_mul :: "'d \<Rightarrow> 'd \<Rightarrow> 'd"
  dbl_div :: "'d \<Rightarrow> 'd \<Rightarrow> 'd"
  dbl_sub :: "'d \<Rightarrow> 'd \<Rightarrow> 'd"
  dbl_100 :: 'd
  dbl_0 :: 'd

record 'd fragmentation_metrics =
  fm_seq_len :: u64
  fm_mapped_blocks :: u64
  fm_pages_per_kvblock :: u64
  fm_tokens_per_page :: u64
  fm_mapped_token_capacity :: u64
  fm_resident_tokens :: u64
  fm_slack_tokens :: u64
  fm_useful_payload_bytes :: u64
  fm_mapped_physical_bytes :: u64
  fm_token_fill_pct :: 'd
  fm_token_frag_pct :: 'd
  fm_payload_util_pct :: 'd
  fm_payload_overhead_pct :: 'd

definition pct :: "'d dbl_ops \<Rightarrow> u64 \<Rightarrow> u64 \<Rightarrow> 'd" where
  "pct d part whole = dbl_div d (dbl_mul d (dbl_100 d) (dbl_of_u64 d part)) (dbl_of_u64 d whole)"

definition compute_fragmentation_metrics ::
  "'d dbl_ops \<Rightarrow> vcfg \<Rightarrow> u64 \<Rightarrow> u64 \<Rightarrow> 'd fragmentation_metrics" where
  "compute_fragmentation_metrics d c seq_len nr_mapped =
     (let ppk = get_pages_per_kvblock c;
          capacity = nr_mapped * tokens_per_page c;
          resident = (if seq_len < capacity then seq_len else capacity);
          slack = capacity - resident;
          payload = resident * cached_token_bytes_local c;
          phys = nr_mapped * ppk * page_size c;
          util = (if phys > 0 then pct d payload phys else dbl_0 d)
      in \<lparr>fm_seq_len = seq_len, fm_mapped_blocks = nr_mapped, fm_pages_per_kvblock = ppk,
          fm_tokens_per_page = tokens_per_page c, fm_mapped_token_capacity = capacity,
          fm_resident_tokens = resident, fm_slack_tokens = slack,
          fm_useful_payload_bytes = payload, fm_mapped_physical_bytes = phys,
          fm_token_fill_pct = (if capacity > 0 then pct d resident capacity else dbl_0 d),
          fm_token_frag_pct = (if capacity > 0 then pct d slack capacity else dbl_0 d),
          fm_payload_util_pct = util,
          fm_payload_overhead_pct = (if phys > 0 then dbl_sub d (dbl_100 d) util else dbl_0 d)\<rparr>)"

record allocator_debug_info =
  di_tokens_per_page :: u64
  di_page_buffer_token_bytes :: u64
  di_cached_token_bytes_local :: u64
  di_pages_per_kvblock :: u64
  di_component_spec_enabled :: bool
  di_megacache_enabled :: bool
  di_num_layers :: i32
  di_num_cache_components :: u64
  di_max_pages_per_req :: u64
  di_virt_buff_size_per_req :: u64

definition get_allocator_debug_info :: "'g vst \<Rightarrow> allocator_debug_info" where
  "get_allocator_debug_info s = (let c = cfg s in
     \<lparr>di_tokens_per_page = tokens_per_page c,
      di_page_buffer_token_bytes = page_buffer_token_bytes c,
      di_cached_token_bytes_local = cached_token_bytes_local c,
      di_pages_per_kvblock = get_pages_per_kvblock c,
      di_component_spec_enabled = component_spec_enabled c,
      di_megacache_enabled = megacache_enabled c,
      di_num_layers = num_layers c,
      di_num_cache_components = get_num_cache_components c,
      di_max_pages_per_req = max_pages_per_req c,
      di_virt_buff_size_per_req = virt_buff_size_per_req c\<rparr>)"

section \<open>Clean-up\<close>

definition DO_KVCACHE_CLEANUP :: "'g gpu_api \<Rightarrow> 'g vst \<Rightarrow> ('g, unit) vout" where
  "DO_KVCACHE_CLEANUP api s =
     obind (for_each (release_kvcache_pages_all api) [0..<batch (cfg s)] s) (\<lambda>_ s.
     if is_uvm_backend (page_size (cfg s)) then
       obind (do_uvm_kvcache_cleanup api s) (\<lambda>_ s. Ret () (s\<lparr>uvm_pages := []\<rparr>))
     else
       obind (do_cuda_kvcache_cleanup api s) (\<lambda>_ s. Ret () (s\<lparr>cuda_pages := []\<rparr>)))"

text \<open>\<^verbatim>\<open>cleanup\<close> after the background thread has stopped (it first waits for it).\<close>

definition cleanup :: "'g gpu_api \<Rightarrow> 'g vst \<Rightarrow> ('g, unit) vout" where
  "cleanup api s =
     obind (DO_KVCACHE_CLEANUP api s) (\<lambda>_ s.
     Ret () (s\<lparr>k_tensors := [], v_tensors := [],
       cfg := (cfg s)\<lparr>cache_component_token_dims := [], component_spec_enabled := False,
         megacache_enabled_global := False, tokens_per_page := 0,
         page_buffer_token_bytes := 0, cached_token_bytes_local := 0\<rparr>\<rparr>))"

end
