(* ===== verification/Vattn_Inv.thy ===== *)
theory Vattn_Inv
  imports Vattn_Alloc
begin

text \<open>
  The allocator's invariant and what mapping and unmapping a KV block do to it.

  \<open>geom\<close> is the geometry initialisation establishes: no offset of the reserved address space wraps,
  a page holds at least one token, two cache components. \<open>vinv\<close> says that the page map holds
  exactly the blocks the counters announce: for every request the blocks at its first
  \<open>mapped_pages\<close> offsets, one pair of pages per layer.
\<close>

section \<open>Geometry\<close>

definition nlayers :: "vcfg \<Rightarrow> nat" where
  "nlayers c = (if megacache_enabled c then 1 else i2n (num_layers c))"

definition geom :: "vcfg \<Rightarrow> bool" where
  "geom c \<longleftrightarrow>
     page_size c \<noteq> 0 \<and> tokens_per_page c \<noteq> 0 \<and> 0 < sint (num_layers c) \<and>
     virt_buff_size_per_req c = max_pages_per_req c * page_size c \<and>
     unat (max_pages_per_req c) * unat (page_size c) * batch c < 2 ^ 64 \<and>
     max_pages_per_req c = tokens_to_pages c (max_context_length c) \<and>
     unat (max_context_length c) + unat (tokens_per_page c) \<le> 2 ^ 64 \<and>
     0 < max_context_length c \<and>
     megacache_enabled_global c = megacache_enabled c \<and>
     length (cache_component_token_dims c) = 2"

definition block_offset :: "vcfg \<Rightarrow> nat \<Rightarrow> nat \<Rightarrow> u64" where
  "block_offset c r j = of_nat r * virt_buff_size_per_req c + of_nat j * page_size c"

definition req_keys :: "vcfg \<Rightarrow> nat \<Rightarrow> nat \<Rightarrow> page_key set" where
  "req_keys c r m = (\<Union>j<m. block_keys r (block_offset c r j) (nlayers c))"

lemma geom_fits:
  "geom c \<Longrightarrow> batch c * (unat (max_pages_per_req c) * unat (page_size c)) < 2 ^ 64"
  unfolding geom_def by (metis mult.commute)

lemma geom_page_size: "geom c \<Longrightarrow> 0 < unat (page_size c)"
  by (simp add: geom_def unat_gt_0)

lemma geom_vbs:
  "geom c \<Longrightarrow> virt_buff_size_per_req c = of_nat (unat (max_pages_per_req c) * unat (page_size c))"
  unfolding geom_def by simp

lemma nlayers_pos: "geom c \<Longrightarrow> 0 < nlayers c"
  by (auto simp: geom_def nlayers_def)

lemma nlayers_bound: "nlayers c < 2 ^ 31"
proof -
  have "sint (num_layers c) < 2 ^ 31" using sint_lt [of "num_layers c"] by simp
  then show ?thesis by (auto simp: nlayers_def)
qed

lemma unat_pages_per_kvblock: "geom c \<Longrightarrow> unat (get_pages_per_kvblock c) = 2 * nlayers c"
proof -
  assume g: "geom c"
  then have comp: "get_num_cache_components c = 2" and pos: "0 \<le> sint (num_layers c)"
    by (auto simp: geom_def get_num_cache_components_def)
  have n: "unat (i2u (num_layers c)) = i2n (num_layers c)"
    using pos by (rule unat_i2u)
  have "sint (num_layers c) < 2 ^ 31" using sint_lt [of "num_layers c"] by simp
  then have "unat (2 :: u64) * unat (i2u (num_layers c)) < 2 ^ 64"
    using n by simp
  then have "unat (2 * i2u (num_layers c)) = 2 * i2n (num_layers c)"
    using unat_mult_no_wrap [of 2 "i2u (num_layers c)"] n by simp
  then show ?thesis
    using g comp by (simp add: get_pages_per_kvblock_def nlayers_def geom_def)
qed

text \<open>Blocks of one request have different offsets, so their keys do not meet.\<close>

lemma block_offset_inj:
  assumes "geom c" "r < batch c" "i < unat (max_pages_per_req c)" "j < unat (max_pages_per_req c)"
    and "block_offset c r i = block_offset c r j"
  shows "i = j"
proof -
  let ?p = "unat (page_size c)" and ?m = "unat (max_pages_per_req c)"
  have fits: "?m * ?p < 2 ^ 64"
  proof -
    have "1 * (?m * ?p) \<le> batch c * (?m * ?p)" using assms(2) by (intro mult_le_mono1) simp
    then show ?thesis using geom_fits [OF assms(1)] by linarith
  qed
  have val: "unat (of_nat k * page_size c) = k * ?p" if "k < ?m" for k
  proof -
    have "k * ?p < 2 ^ 64" using that fits by (metis le_less_trans less_imp_le_nat mult_le_mono1)
    moreover have "k < 2 ^ 64" by (rule less_trans [OF that]) simp
    ultimately show ?thesis by (subst unat_mult_no_wrap) simp_all
  qed
  have "of_nat i * page_size c = (of_nat j * page_size c :: u64)"
    using assms(5) by (simp add: block_offset_def)
  then have "i * ?p = j * ?p" using val assms(3,4) by metis
  moreover have "?p \<noteq> 0" using geom_page_size [OF assms(1)] by simp
  ultimately show ?thesis by simp
qed

text \<open>
  No wrap-around: the offsets of block \<open>j\<close> of request \<open>r\<close> in the reserved buffer are
  the mathematical ones, and stay inside the buffer.
\<close>

lemma unat_block_offset:
  assumes "geom c" "r < batch c" "j < unat (max_pages_per_req c)"
  shows "unat (block_offset c r j) =
      (r * unat (max_pages_per_req c) + j) * unat (page_size c)"
    and "(r * unat (max_pages_per_req c) + j + 1) * unat (page_size c)
      \<le> batch c * unat (max_pages_per_req c) * unat (page_size c)"
proof -
  let ?p = "unat (page_size c)" and ?m = "unat (max_pages_per_req c)"
  have tot: "batch c * ?m * ?p < 2 ^ 64"
    using geom_fits [OF assms(1)] by (simp only: mult.assoc)
  have idx: "r * ?m + j + 1 \<le> batch c * ?m"
  proof -
    have "(r + 1) * ?m \<le> batch c * ?m" using assms(2) by (intro mult_le_mono1) simp
    then show ?thesis using assms(3) by simp
  qed
  show le: "(r * ?m + j + 1) * ?p \<le> batch c * ?m * ?p"
    using idx by (rule mult_le_mono1)
  have "(r * ?m + j) * ?p \<le> (r * ?m + j + 1) * ?p"
    by (rule mult_le_mono1) simp
  then have lt: "(r * ?m + j) * ?p < 2 ^ 64"
    using le tot by linarith
  have "block_offset c r j = of_nat r * of_nat (?m * ?p) + of_nat j * of_nat ?p"
    by (simp only: block_offset_def geom_vbs [OF assms(1)] of_nat_unat_u64)
  also have "\<dots> = of_nat ((r * ?m + j) * ?p)"
    by (simp only: of_nat_add of_nat_mult distrib_right mult.assoc)
  finally show "unat (block_offset c r j) = (r * ?m + j) * ?p"
    by (simp only: unat_of_nat_u64 [OF lt])
qed

lemma req_keys_fresh:
  assumes "geom c" "r < batch c" "m < unat (max_pages_per_req c)"
  shows "block_keys r (block_offset c r m) (nlayers c) \<inter> req_keys c r m = {}"
proof -
  have "block_offset c r m \<noteq> block_offset c r j" if "j < m" for j
    using block_offset_inj [OF assms(1,2), of m j] assms(3) that by auto
  then show ?thesis by (auto simp: req_keys_def block_keys_def)
qed

lemma req_keys_fst: "k \<in> req_keys c r m \<Longrightarrow> fst k = of_nat r"
  by (auto simp: req_keys_def block_keys_def)

lemma req_keys_Suc:
  "req_keys c r (Suc m) = req_keys c r m \<union> block_keys r (block_offset c r m) (nlayers c)"
  by (auto simp: req_keys_def lessThan_Suc)

lemma req_keys_0 [simp]: "req_keys c r 0 = {}"
  by (simp add: req_keys_def)

lemma finite_req_keys [simp]: "finite (req_keys c r m)"
  by (simp add: req_keys_def block_keys_def)

lemma batch_bound: "batch c < 2 ^ 64"
proof -
  have "sint (max_batch_size c) < 2 ^ 31" using sint_lt [of "max_batch_size c"] by simp
  then show ?thesis by (auto simp: batch_def)
qed

lemma req_keys_disjoint:
  assumes "r < batch c" "r' < batch c" "r \<noteq> r'"
  shows "req_keys c r m \<inter> req_keys c' r' m' = {}"
proof -
  have "(of_nat r :: u64) \<noteq> of_nat r'"
    using assms batch_bound [of c] by (simp add: of_nat_u64_inj)
  then show ?thesis by (metis (no_types, lifting) disjoint_iff req_keys_fst)
qed

section \<open>The invariant\<close>

definition all_pages :: "'g vst \<Rightarrow> u64 multiset" where
  "all_pages s = mset (free_pool s) + pm_pages (active_pagemap s)"

abbreviation mapped :: "'g vst \<Rightarrow> nat \<Rightarrow> nat" where
  "mapped s r \<equiv> unat (mapped_pages s ! r)"

definition vinv :: "'g vst \<Rightarrow> bool" where
  "vinv s \<longleftrightarrow>
     geom (cfg s) \<and>
     length (mapped_pages s) = batch (cfg s) \<and>
     length (curr_seq_lengths s) = batch (cfg s) \<and>
     (\<forall>r < batch (cfg s). mapped s r \<le> unat (max_pages_per_req (cfg s))) \<and>
     dom (active_pagemap s) = (\<Union>r < batch (cfg s). req_keys (cfg s) r (mapped s r)) \<and>
     size (all_pages s) < 2 ^ 64"

lemma conserved_all_pages [simp]: "mux.conserved s = all_pages s"
  by (simp add: mux.conserved_def all_pages_def)

text \<open>What every operation leaves alone.\<close>

definition keeps :: "'g vst \<Rightarrow> 'g vst \<Rightarrow> bool" where
  "keeps s s' \<longleftrightarrow> cfg s' = cfg s \<and> all_pages s' = all_pages s \<and> k_tensors s' = k_tensors s \<and>
     v_tensors s' = v_tensors s \<and> deferred_reclaim s' = deferred_reclaim s \<and>
     mem_manager_running s' = mem_manager_running s"

lemma keeps_refl [simp]: "keeps s s"
  by (simp add: keeps_def)

lemma keeps_trans: "keeps s t \<Longrightarrow> keeps t u \<Longrightarrow> keeps s u"
  by (simp add: keeps_def)

lemma keeps_cfg: "keeps s t \<Longrightarrow> cfg t = cfg s"
  by (simp add: keeps_def)

lemma vinv_finite_dom: "vinv s \<Longrightarrow> finite (dom (active_pagemap s))"
  by (simp add: vinv_def)

lemma pool_fields_mapped [simp]:
  "free_pool (s\<lparr>mapped_pages := m\<rparr>) = free_pool s"
  "active_pagemap (s\<lparr>mapped_pages := m\<rparr>) = active_pagemap s"
  "all_pages (s\<lparr>mapped_pages := m\<rparr>) = all_pages s"
  "free_pool (s\<lparr>curr_seq_lengths := q\<rparr>) = free_pool s"
  "active_pagemap (s\<lparr>curr_seq_lengths := q\<rparr>) = active_pagemap s"
  "all_pages (s\<lparr>curr_seq_lengths := q\<rparr>) = all_pages s"
  "free_pool (s\<lparr>verbose := b\<rparr>) = free_pool s"
  "active_pagemap (s\<lparr>verbose := b\<rparr>) = active_pagemap s"
  "all_pages (s\<lparr>verbose := b\<rparr>) = all_pages s"
  by (simp_all add: free_pool_def active_pagemap_def all_pages_def)

lemma block_size_pm:
  "finite (dom m) \<Longrightarrow> size (pm_pages m) = 2 * card (dom m)"
proof -
  have "size (pair_mset p) = 2" for p by (cases p) simp
  then show ?thesis by (simp add: pm_pages_def size_multiset_sum mult.commute)
qed

text \<open>Every page is in the pool or in a block of a request, so the counters determine the pool.\<close>

lemma finite_block_keys: "finite (block_keys r off n)"
  by (simp add: block_keys_def)

lemma card_block_keys: "n < 2 ^ 64 \<Longrightarrow> card (block_keys r off n) = n"
proof -
  assume n: "n < 2 ^ 64"
  have "block_keys r off n = (\<lambda>l. (of_nat r, off, of_nat l)) ` {..<n}"
    by (auto simp: block_keys_def)
  moreover have "inj_on (\<lambda>l. (of_nat r :: u64, off, of_nat l :: u64)) {..<n}"
    using n by (auto simp: inj_on_def of_nat_u64_inj)
  ultimately show ?thesis by (simp add: card_image)
qed

lemma card_req_keys:
  assumes "geom c" "r < batch c" "m \<le> unat (max_pages_per_req c)"
  shows "card (req_keys c r m) = m * nlayers c"
  using assms(3)
proof (induction m)
  case (Suc m)
  have "nlayers c < 2 ^ 64" using nlayers_bound [of c] by simp
  then show ?case
    using Suc req_keys_fresh [OF assms(1,2), of m]
    by (simp add: req_keys_Suc card_Un_disjoint card_block_keys Int_commute finite_block_keys)
qed simp

lemma total_pages:
  assumes "vinv s"
  shows "size (all_pages s) =
    length (free_pool s) + 2 * nlayers (cfg s) * (\<Sum>r < batch (cfg s). mapped s r)"
proof -
  let ?c = "cfg s"
  have g: "geom ?c" and le: "\<And>r. r < batch ?c \<Longrightarrow> mapped s r \<le> unat (max_pages_per_req ?c)"
    and d: "dom (active_pagemap s) = (\<Union>r < batch ?c. req_keys ?c r (mapped s r))"
    using assms by (auto simp: vinv_def)
  have "card (dom (active_pagemap s)) = (\<Sum>r < batch ?c. card (req_keys ?c r (mapped s r)))"
    unfolding d by (rule card_UN_disjoint) (auto simp: req_keys_disjoint)
  also have "\<dots> = (\<Sum>r < batch ?c. mapped s r * nlayers ?c)"
    using g le by (intro sum.cong) (auto simp: card_req_keys)
  finally have "card (dom (active_pagemap s)) = (\<Sum>r < batch ?c. mapped s r) * nlayers ?c"
    by (simp add: sum_distrib_right)
  then show ?thesis
    using block_size_pm [OF vinv_finite_dom [OF assms]] by (simp add: all_pages_def algebra_simps)
qed

lemma pool_bound: "vinv s \<Longrightarrow> length (free_pool s) < 2 ^ 64"
  by (auto simp: vinv_def all_pages_def)

text \<open>The availability check is exact: the free pages cover that many whole blocks.\<close>

lemma kvblocks_available_iff:
  assumes "vinv s"
  shows "kvblocks_available s n \<longleftrightarrow> unat n * (2 * nlayers (cfg s)) \<le> length (free_pool s)"
proof -
  have g: "geom (cfg s)" using assms by (simp add: vinv_def)
  have "unat (pages_to_kvblocks (cfg s) (of_nat (length (free_pool s)))) =
      length (free_pool s) div (2 * nlayers (cfg s))"
    using pool_bound [OF assms] by (simp add: pages_to_kvblocks_def unat_div unat_pages_per_kvblock [OF g])
  then show ?thesis
    using nlayers_pos [OF g]
    by (simp add: kvblocks_available_def word_le_nat_alt less_eq_div_iff_mult_less_eq)
qed

section \<open>Mapping and unmapping one block\<close>

lemma for_each_single: "for_each f [x] s = f x s"
  by (cases "f x s") auto

lemma map_kvblock_layers:
  "map_kvblock api r off s =
     for_each (\<lambda>l s. MAP_PAGES api r l off (kcache_ptr s l) (vcache_ptr s l) s)
       [0..<nlayers (cfg s)] s"
  by (simp add: map_kvblock_def nlayers_def for_each_single del: for_each.simps)

lemma unmap_kvblock_layers:
  "unmap_kvblock api r off s =
     for_each (\<lambda>l s. UNMAP_PAGES api r l off (kcache_ptr s l) (vcache_ptr s l) s)
       [0..<nlayers (cfg s)] s"
  by (simp add: unmap_kvblock_def nlayers_def for_each_single del: for_each.simps)

lemma get_req_current_map_offset_block:
  "get_req_current_map_offset s r = block_offset (cfg s) r (mapped s r)"
  by (simp add: get_req_current_map_offset_def get_req_begin_offset_virt_def get_req_pages_def
      block_offset_def)

lemma get_req_current_unmap_offset_block:
  assumes "r < length (mapped_pages s)" "0 < mapped s r"
  shows "get_req_current_unmap_offset r s = Ret (block_offset (cfg s) r (mapped s r - 1)) s"
proof -
  have eq: "of_nat (mapped s r - 1) = mapped_pages s ! r - 1"
    using assms(2) by (metis One_nat_def of_nat_unat_u64 unat_gt_0 unat_minus_one)
  show ?thesis
    using assms unfolding block_offset_def eq
    by (simp add: get_req_current_unmap_offset_def get_req_begin_offset_virt_def
        get_req_pages_def unat_gt_0 word_greater_zero_iff)
qed

lemma dom_UN_update:
  assumes "r < n" "\<And>r'. r' < n \<Longrightarrow> r' \<noteq> r \<Longrightarrow> A r' = B r'"
  shows "(\<Union>r' < n. B r') = (\<Union>r' \<in> {..<n} - {r}. A r') \<union> B r"
  using assms by fastforce

text \<open>A change of the page map that goes with a change of one counter keeps the invariant.\<close>

lemma vinv_recount:
  assumes "vinv s" "vrest t = vrest s" "all_pages t = all_pages s" "r < batch (cfg s)"
    and "unat n \<le> unat (max_pages_per_req (cfg s))"
    and "dom (active_pagemap t) =
      (\<Union>r' < batch (cfg s). req_keys (cfg s) r' (unat ((mapped_pages s)[r := n] ! r')))"
  shows "vinv (t\<lparr>mapped_pages := (mapped_pages t)[r := n]\<rparr>) \<and>
    keeps s (t\<lparr>mapped_pages := (mapped_pages t)[r := n]\<rparr>) \<and>
    mapped_pages t = mapped_pages s \<and> curr_seq_lengths t = curr_seq_lengths s"
  using assms vrest_fields [OF assms(2)]
  by (simp add: vinv_def keeps_def nth_list_update)

text \<open>Mapping the next block of a request keeps the invariant; only the driver can stop it.\<close>

lemma map_block_inv:
  assumes inv: "vinv s" and r: "r < batch (cfg s)"
    and room: "mapped s r < unat (max_pages_per_req (cfg s))"
    and pool: "2 * nlayers (cfg s) \<le> length (free_pool s)"
  shows "holds (map_kvblock api r (block_offset (cfg s) r (mapped s r)) s)
    (\<lambda>_ s'. vinv (inc_req_page_count r s') \<and> keeps s (inc_req_page_count r s') \<and>
       mapped_pages (inc_req_page_count r s') = (mapped_pages s)[r := mapped_pages s ! r + 1] \<and>
       curr_seq_lengths (inc_req_page_count r s') = curr_seq_lengths s \<and>
       length (free_pool s) = length (free_pool (inc_req_page_count r s')) + 2 * nlayers (cfg s))
    (\<lambda>e _. is_exit e)"
proof -
  let ?c = "cfg s" and ?off = "block_offset (cfg s) r (mapped s r)"
  have g: "geom ?c" and len: "length (mapped_pages s) = batch ?c"
    and d: "dom (active_pagemap s) = (\<Union>r < batch ?c. req_keys ?c r (mapped s r))"
    using inv by (auto simp: vinv_def)
  have own: "block_keys r ?off (nlayers ?c) \<subseteq> req_keys ?c r (Suc (mapped s r))"
    by (simp add: req_keys_Suc)
  have "block_keys r ?off (nlayers ?c) \<inter> req_keys ?c r' (mapped s r') = {}" if "r' < batch ?c" for r'
    using that own req_keys_fresh [OF g r room]
      req_keys_disjoint [OF r that, of "Suc (mapped s r)" ?c "mapped s r'"]
    by (cases "r' = r") auto
  then have fresh: "block_keys r ?off (nlayers ?c) \<inter> dom (active_pagemap s) = {}"
    unfolding d by auto
  have suc: "unat (mapped_pages s ! r + 1) = Suc (mapped s r)"
    using room by (rule unat_plus_one)
  have dom': "(\<Union>r' < batch ?c. req_keys ?c r' (unat ((mapped_pages s)[r := mapped_pages s ! r + 1] ! r'))) =
      dom (active_pagemap s) \<union> block_keys r ?off (nlayers ?c)"
    unfolding d using r len suc
    by (subst dom_UN_update [OF r, where A = "\<lambda>r'. req_keys ?c r' (mapped s r')"])
      (auto simp: req_keys_Suc)
  have n64: "nlayers ?c < 2 ^ 64" using nlayers_bound [of ?c] by simp
  note blk = mux.map_block [OF vinv_finite_dom [OF inv] fresh pool n64]
  have le: "unat (mapped_pages s ! r + 1) \<le> unat (max_pages_per_req ?c)"
    using suc room by simp
  note upd = vinv_recount [OF inv _ _ r le, unfolded dom']
  show ?thesis
    unfolding map_kvblock_layers inc_req_page_count_def
    by (rule holds_conseq [OF blk [of api "\<lambda>l s. kcache_ptr s l" "\<lambda>l s. vcache_ptr s l"]])
      (elim conjE, drule upd, simp, assumption, use suc in force)
qed

text \<open>Unmapping the last block of a request undoes it.\<close>

lemma unmap_block_inv:
  assumes inv: "vinv s" and r: "r < batch (cfg s)" and some: "0 < mapped s r"
  shows "holds (unmap_req_page_one api r s)
    (\<lambda>_ s'. vinv s' \<and> keeps s s' \<and>
       mapped_pages s' = (mapped_pages s)[r := mapped_pages s ! r - 1] \<and>
       curr_seq_lengths s' = curr_seq_lengths s \<and>
       length (free_pool s') = length (free_pool s) + 2 * nlayers (cfg s))
    (\<lambda>e _. is_exit e)"
proof -
  let ?c = "cfg s" and ?off = "block_offset (cfg s) r (mapped s r - 1)"
  have g: "geom ?c" and len: "length (mapped_pages s) = batch ?c"
    and d: "dom (active_pagemap s) = (\<Union>r < batch ?c. req_keys ?c r (mapped s r))"
    and le: "mapped s r \<le> unat (max_pages_per_req ?c)"
    using inv r by (auto simp: vinv_def)
  have keys: "req_keys ?c r (mapped s r) =
      req_keys ?c r (mapped s r - 1) \<union> block_keys r ?off (nlayers ?c)"
    using some req_keys_Suc [of ?c r "mapped s r - 1"] by simp
  have pred: "unat (mapped_pages s ! r - 1) = mapped s r - 1"
    using some by (simp add: unat_minus_one unat_gt_0)
  have le': "unat (mapped_pages s ! r - 1) \<le> unat (max_pages_per_req ?c)"
    using pred le by simp
  have fresh: "block_keys r ?off (nlayers ?c) \<inter> req_keys ?c r (mapped s r - 1) = {}"
    using some le by (intro req_keys_fresh [OF g r]) simp
  have others: "block_keys r ?off (nlayers ?c) \<inter> req_keys ?c r' (mapped s r') = {}"
    if "r' < batch ?c" "r' \<noteq> r" for r'
    using req_keys_disjoint [OF r that(1), of "mapped s r" ?c "mapped s r'"] that(2) keys by auto
  have dom': "(\<Union>r' < batch ?c. req_keys ?c r' (unat ((mapped_pages s)[r := mapped_pages s ! r - 1] ! r'))) =
      dom (active_pagemap s) - block_keys r ?off (nlayers ?c)"
    unfolding d using r len pred keys fresh others
    by (subst dom_UN_update [OF r, where A = "\<lambda>r'. req_keys ?c r' (mapped s r')"]) auto
  have sub: "block_keys r ?off (nlayers ?c) \<subseteq> dom (active_pagemap s)"
    unfolding d using r keys by auto
  have n64: "nlayers ?c < 2 ^ 64" using nlayers_bound [of ?c] by simp
  note blk = mux.unmap_block [OF vinv_finite_dom [OF inv] sub n64]
  note upd = vinv_recount [OF inv _ _ r le', unfolded dom']
  have "holds (unmap_kvblock api r ?off s)
    (\<lambda>_ s'. vinv (dec_req_page_count r s') \<and> keeps s (dec_req_page_count r s') \<and>
       mapped_pages (dec_req_page_count r s') = (mapped_pages s)[r := mapped_pages s ! r - 1] \<and>
       curr_seq_lengths (dec_req_page_count r s') = curr_seq_lengths s \<and>
       length (free_pool (dec_req_page_count r s')) = length (free_pool s) + 2 * nlayers (cfg s))
    (\<lambda>e _. is_exit e)"
    unfolding unmap_kvblock_layers dec_req_page_count_def
    by (rule holds_conseq [OF blk [of api "\<lambda>l s. kcache_ptr s l" "\<lambda>l s. vcache_ptr s l"]])
      (elim conjE, drule upd, simp, assumption, use pred in force)
  then show ?thesis
    using r len some
    by (simp add: unmap_req_page_one_def get_req_current_unmap_offset_block)
qed

end
