(* ===== verification/Vattn_Spec.thy ===== *)
theory Vattn_Spec
  imports Vattn_Prelude
begin

text \<open>
  The abstract specification of the allocator: how many KV blocks each request of the batch holds and
  needs, and how many blocks there are in all. Pages, layers, offsets, the two backends and machine
  arithmetic are gone; what is left is the policy. \<^verbatim>\<open>None\<close> is the out-of-memory error.

  The theory \<^verbatim>\<open>Vattn_Refine\<close> shows that the operations of the code implement these.
\<close>

section \<open>State and operations\<close>

record bstate =
  cap :: nat          \<comment> \<open>blocks the reserved physical memory amounts to\<close>
  maxb :: nat         \<comment> \<open>blocks a request can hold\<close>
  held :: "nat list"  \<comment> \<open>blocks mapped, per request\<close>
  need :: "nat list"  \<comment> \<open>blocks its current sequence length takes, per request\<close>

abbreviation nreq :: "bstate \<Rightarrow> nat" where
  "nreq a \<equiv> length (held a)"

definition in_use :: "bstate \<Rightarrow> nat" where
  "in_use a = (\<Sum>r < nreq a. held a ! r)"

definition free_blocks :: "bstate \<Rightarrow> nat" where
  "free_blocks a = cap a - in_use a"

definition s_release :: "nat \<Rightarrow> nat \<Rightarrow> bstate \<Rightarrow> bstate" where
  "s_release r k a = a\<lparr>held := (held a)[r := min (held a ! r) k]\<rparr>"

definition s_grow :: "nat \<Rightarrow> nat \<Rightarrow> bstate \<Rightarrow> bstate option" where
  "s_grow r n a =
     (if n = 0 then Some a
      else if free_blocks a < n then None
      else Some (a\<lparr>held := (held a)[r := min (held a ! r + n) (maxb a)]\<rparr>))"

text \<open>Take back what requests hold beyond their need, from the last one, until \<open>n\<close> are free.\<close>

primrec s_reclaim :: "nat \<Rightarrow> nat list \<Rightarrow> bstate \<Rightarrow> bstate" where
  "s_reclaim n [] a = a"
| "s_reclaim n (r # rs) a =
     (if n \<le> free_blocks a then a else s_reclaim n rs (s_release r (need a ! r) a))"

definition s_serve :: "nat \<Rightarrow> bstate \<Rightarrow> bstate option" where
  "s_serve r a =
     (let n = need a ! r - held a ! r
      in s_grow r n (if n \<le> free_blocks a then a else s_reclaim n (rev [0..<nreq a]) a))"

primrec s_for_each :: "(nat \<Rightarrow> bstate \<Rightarrow> bstate option) \<Rightarrow> nat list \<Rightarrow> bstate \<Rightarrow> bstate option" where
  "s_for_each f [] a = Some a"
| "s_for_each f (r # rs) a = Option.bind (f r a) (s_for_each f rs)"

definition s_step_one :: "bool \<Rightarrow> nat list \<Rightarrow> nat \<Rightarrow> bstate \<Rightarrow> bstate option" where
  "s_step_one eager ns r a =
     (let a = a\<lparr>need := (need a)[r := ns ! r]\<rparr>
      in if eager \<and> ns ! r = 0 then Some (s_release r 0 a) else s_serve r a)"

definition s_step :: "bool \<Rightarrow> nat list \<Rightarrow> bstate \<Rightarrow> bstate option" where
  "s_step eager ns a = s_for_each (s_step_one eager ns) [0..<nreq a] a"

definition s_prefill :: "bstate \<Rightarrow> bstate option" where
  "s_prefill a = s_for_each s_serve [0..<nreq a] a"

section \<open>Well-formedness\<close>

definition bwf :: "bstate \<Rightarrow> bool" where
  "bwf a \<longleftrightarrow> length (need a) = nreq a \<and> in_use a \<le> cap a \<and> (\<forall>r < nreq a. held a ! r \<le> maxb a)"

lemma bwf_bound: "bwf a \<Longrightarrow> r < nreq a \<Longrightarrow> held a ! r \<le> maxb a"
  by (simp add: bwf_def)

lemma sum_list_update_nth:
  fixes xs :: "nat list"
  assumes "r < n" "n \<le> length xs"
  shows "(\<Sum>i < n. xs[r := v] ! i) + xs ! r = (\<Sum>i < n. xs ! i) + v"
proof -
  have "(\<Sum>i < n. f i) = f r + (\<Sum>i \<in> {..<n} - {r}. f i)" for f :: "nat \<Rightarrow> nat"
    using assms(1) by (simp add: sum.remove)
  note split = this
  have "(\<Sum>i \<in> {..<n} - {r}. xs[r := v] ! i) = (\<Sum>i \<in> {..<n} - {r}. xs ! i)"
    by (rule sum.cong) auto
  then show ?thesis
    using split [of "\<lambda>i. xs[r := v] ! i"] split [of "\<lambda>i. xs ! i"] assms by simp
qed

lemma in_use_update:
  "r < nreq a \<Longrightarrow> in_use (a\<lparr>held := (held a)[r := v]\<rparr>) + held a ! r = in_use a + v"
  using sum_list_update_nth [of r "nreq a" "held a" v] by (simp add: in_use_def)

lemma in_use_need [simp]: "in_use (a\<lparr>need := q\<rparr>) = in_use a"
  by (simp add: in_use_def)

lemma free_blocks_need [simp]: "free_blocks (a\<lparr>need := q\<rparr>) = free_blocks a"
  by (simp add: free_blocks_def)

lemma s_release_fields [simp]:
  "cap (s_release r k a) = cap a" "maxb (s_release r k a) = maxb a"
  "need (s_release r k a) = need a" "nreq (s_release r k a) = nreq a"
  by (simp_all add: s_release_def)

lemma s_release_held:
  "r' < nreq a \<Longrightarrow> held (s_release r k a) ! r' =
     (if r' = r then min (held a ! r') k else held a ! r')"
  by (simp add: s_release_def nth_list_update)

lemma s_release_bwf: "bwf a \<Longrightarrow> r < nreq a \<Longrightarrow> bwf (s_release r k a)"
  using in_use_update [of r a "min (held a ! r) k"]
  by (auto simp: bwf_def s_release_def nth_list_update min_def)

section \<open>Reclamation\<close>

text \<open>What is left of every request is between what it had and the smaller of that and its need.\<close>

definition trimmed :: "bstate \<Rightarrow> bstate \<Rightarrow> bool" where
  "trimmed a b \<longleftrightarrow> bwf b \<and> cap b = cap a \<and> maxb b = maxb a \<and> need b = need a \<and> nreq b = nreq a \<and>
     (\<forall>r < nreq a. held b ! r \<le> held a ! r \<and> min (held a ! r) (need a ! r) \<le> held b ! r)"

lemma trimmed_refl: "bwf a \<Longrightarrow> trimmed a a"
  by (simp add: trimmed_def)

lemma trimmed_trans:
  assumes "trimmed a b" "trimmed b c"
  shows "trimmed a c"
proof -
  have "held c ! r \<le> held a ! r \<and> min (held a ! r) (need a ! r) \<le> held c ! r" if r: "r < nreq a" for r
  proof -
    have "held b ! r \<le> held a ! r" "min (held a ! r) (need a ! r) \<le> held b ! r"
      "held c ! r \<le> held b ! r" "min (held b ! r) (need a ! r) \<le> held c ! r"
      using assms r by (simp_all add: trimmed_def)
    then show ?thesis by linarith
  qed
  then show ?thesis using assms by (simp add: trimmed_def)
qed

lemma s_release_trimmed:
  "bwf a \<Longrightarrow> r < nreq a \<Longrightarrow> trimmed a (s_release r (need a ! r) a)"
  by (simp add: trimmed_def s_release_bwf s_release_held)

lemma s_reclaim_trimmed:
  "bwf a \<Longrightarrow> set rs \<subseteq> {..<nreq a} \<Longrightarrow> trimmed a (s_reclaim n rs a)"
proof (induction rs arbitrary: a)
  case (Cons r rs)
  then have "trimmed a (s_release r (need a ! r) a)"
    by (simp add: s_release_trimmed)
  then show ?case
    using Cons trimmed_trans by (auto simp: trimmed_refl s_release_bwf)
qed (simp add: trimmed_refl)

text \<open>If reclamation stops short of the demand, nobody it visited holds more than it needs.\<close>

lemma s_reclaim_complete:
  assumes "bwf a" "set rs \<subseteq> {..<nreq a}" "free_blocks (s_reclaim n rs a) < n" "r \<in> set rs"
  shows "held (s_reclaim n rs a) ! r \<le> need a ! r"
  using assms
proof (induction rs arbitrary: a)
  case (Cons q rs)
  let ?b = "s_release q (need a ! q) a"
  have wf: "bwf ?b" and sub: "set rs \<subseteq> {..<nreq ?b}"
    using Cons.prems by (simp_all add: s_release_bwf)
  have le: "held (s_reclaim n rs ?b) ! q \<le> held ?b ! q"
    using s_reclaim_trimmed [OF wf sub, of n] Cons.prems(2) by (auto simp: trimmed_def)
  have "n > free_blocks a" using Cons.prems(3) by (auto split: if_splits)
  then show ?case
    using Cons.IH [OF wf sub] Cons.prems le s_release_held [of q a q] by auto
qed simp

lemma s_reclaim_le_free:
  assumes "bwf a" "set rs \<subseteq> {..<nreq a}"
  shows "in_use (s_reclaim n rs a) \<le> in_use a"
  using s_reclaim_trimmed [OF assms, of n] by (auto simp: trimmed_def in_use_def intro!: sum_mono)

section \<open>Serving one request\<close>

text \<open>The blocks that cannot be taken from anybody: what requests hold up to their need.\<close>

definition pinned :: "bstate \<Rightarrow> nat" where
  "pinned a = (\<Sum>r < nreq a. min (held a ! r) (need a ! r))"

lemma pinned_le_trimmed: "trimmed a b \<Longrightarrow> pinned a \<le> in_use b"
  by (auto simp: trimmed_def pinned_def in_use_def intro!: sum_mono)

text \<open>Reclamation over the whole batch frees the demand whenever that is possible at all.\<close>

lemma s_reclaim_exact:
  assumes "bwf a" "n \<noteq> 0"
  shows "n \<le> free_blocks (s_reclaim n (rev [0..<nreq a]) a) \<longleftrightarrow> pinned a + n \<le> cap a"
proof -
  let ?b = "s_reclaim n (rev [0..<nreq a]) a"
  have tr: "trimmed a ?b" using assms by (intro s_reclaim_trimmed) auto
  then have wf: "in_use ?b \<le> cap a" "cap ?b = cap a" "nreq ?b = nreq a" by (auto simp: trimmed_def bwf_def)
  show ?thesis
  proof (cases "n \<le> free_blocks ?b")
    case True
    then show ?thesis
      using pinned_le_trimmed [OF tr] wf assms(2) by (auto simp: free_blocks_def)
  next
    case False
    have "held ?b ! r \<le> need a ! r" if "r < nreq a" for r
      using that assms False by (intro s_reclaim_complete) auto
    then have "in_use ?b \<le> pinned a"
      using tr wf(3) by (auto simp: trimmed_def pinned_def in_use_def intro!: sum_mono)
    then show ?thesis using False wf by (auto simp: free_blocks_def)
  qed
qed

text \<open>
  Serving a request: it then holds its need (as far as a request can), nobody else drops below its
  own need, and it fails exactly when the memory that cannot be reclaimed leaves too little.
\<close>

definition served :: "nat \<Rightarrow> bstate \<Rightarrow> bstate \<Rightarrow> bool" where
  "served r a b \<longleftrightarrow> bwf b \<and> cap b = cap a \<and> maxb b = maxb a \<and> need b = need a \<and> nreq b = nreq a \<and>
     min (need a ! r) (maxb a) \<le> held b ! r \<and> held b ! r \<le> max (held a ! r) (need a ! r) \<and>
     (\<forall>q < nreq a. q \<noteq> r \<longrightarrow> held b ! q \<le> held a ! q \<and> min (held a ! q) (need a ! q) \<le> held b ! q)"

lemma s_serve_cases:
  assumes "bwf a" "r < nreq a" "held a ! r < need a ! r"
  shows "s_serve r a = None \<and> cap a < pinned a + (need a ! r - held a ! r) \<or>
    (\<exists>b. s_serve r a = Some b \<and> served r a b \<and> pinned a + (need a ! r - held a ! r) \<le> cap a)"
proof -
  define n where "n = need a ! r - held a ! r"
  define b where "b = (if n \<le> free_blocks a then a else s_reclaim n (rev [0..<nreq a]) a)"
  have n: "n \<noteq> 0" using assms(3) by (simp add: n_def)
  have sub: "set (rev [0..<nreq a]) \<subseteq> {..<nreq a}" by auto
  have tr: "trimmed a b"
    using assms(1) s_reclaim_trimmed [OF assms(1) sub] by (simp add: b_def trimmed_refl)
  have free: "n \<le> free_blocks b \<longleftrightarrow> pinned a + n \<le> cap a"
  proof (cases "n \<le> free_blocks a")
    case True
    then show ?thesis
      using pinned_le_trimmed [OF trimmed_refl [OF assms(1)]] assms(1) n
      by (auto simp: b_def free_blocks_def bwf_def)
  qed (use s_reclaim_exact [OF assms(1) n] in \<open>simp add: b_def\<close>)
  have hr: "held b ! r = held a ! r" and rb: "r < nreq b"
    using tr assms by (auto simp: trimmed_def)
  have serve: "s_serve r a = s_grow r n b"
    by (simp add: s_serve_def n_def b_def Let_def)
  show ?thesis
  proof (cases "n \<le> free_blocks b")
    case True
    let ?v = "min (held b ! r + n) (maxb b)"
    have use: "in_use (b\<lparr>held := (held b)[r := ?v]\<rparr>) \<le> cap b"
      using in_use_update [OF rb, of ?v] True tr by (auto simp: free_blocks_def trimmed_def bwf_def min_def)
    have sum: "held b ! r + n = need a ! r" using hr assms(3) by (simp add: n_def)
    have "served r a (b\<lparr>held := (held b)[r := ?v]\<rparr>)"
      using tr use rb unfolding sum
      by (simp add: served_def trimmed_def bwf_def nth_list_update min.coboundedI1) metis
    moreover have "s_grow r n b = Some (b\<lparr>held := (held b)[r := ?v]\<rparr>)"
      using True n by (simp add: s_grow_def)
    ultimately show ?thesis
      using True free serve by (simp add: n_def)
  next
    case False
    then have "s_grow r n b = None" using n by (simp add: s_grow_def)
    then show ?thesis using False free serve by (simp add: n_def)
  qed
qed

lemma s_serve_idle: "need a ! r \<le> held a ! r \<Longrightarrow> s_serve r a = Some a"
  by (simp add: s_serve_def s_grow_def)

lemma s_serve_served:
  assumes "bwf a" "r < nreq a" "s_serve r a = Some b"
  shows "served r a b"
proof (cases "held a ! r < need a ! r")
  case True
  then show ?thesis using s_serve_cases [OF assms(1,2) True] assms(3) by auto
next
  case False
  then have "b = a" using assms(3) by (simp add: s_serve_idle)
  then show ?thesis
    using assms False by (simp add: served_def min.coboundedI1)
qed

lemma s_serve_succeeds:
  assumes "bwf a" "r < nreq a" "pinned a + (need a ! r - held a ! r) \<le> cap a"
  shows "\<exists>b. s_serve r a = Some b"
  using assms s_serve_cases [OF assms(1,2)] s_serve_idle [of a r] by (metis not_less)

section \<open>A whole step\<close>

lemma s_for_each_append:
  "s_for_each f (xs @ ys) a = Option.bind (s_for_each f xs a) (s_for_each f ys)"
proof (induction xs arbitrary: a)
  case (Cons x xs)
  then show ?case by (cases "f x a") auto
qed simp

lemma s_for_each_upto:
  assumes "\<And>i a b. i < n \<Longrightarrow> I i a \<Longrightarrow> f i a = Some b \<Longrightarrow> I (Suc i) b" "I 0 a"
    and "s_for_each f [0..<n] a = Some b"
  shows "I n b"
  using assms
proof (induction n arbitrary: b)
  case (Suc n)
  then obtain c where "s_for_each f [0..<n] a = Some c" "f n c = Some b"
    by (auto simp: s_for_each_append bind_eq_Some_conv)
  then show ?case using Suc.IH [of c] Suc.prems(1) [of n c b] Suc.prems by simp
qed simp

lemma s_for_each_succeeds:
  assumes "\<And>i a. i < n \<Longrightarrow> I i a \<Longrightarrow> \<exists>b. f i a = Some b \<and> I (Suc i) b" "I 0 a"
  shows "\<exists>b. s_for_each f [0..<n] a = Some b \<and> I n b"
  using assms
proof (induction n)
  case (Suc n)
  then obtain c where c: "s_for_each f [0..<n] a = Some c" "I n c"
    by auto
  from Suc.prems(1) [OF _ c(2)] obtain b where "f n c = Some b" "I (Suc n) b" by auto
  with c show ?case by (auto simp: s_for_each_append)
qed simp

text \<open>After \<open>i\<close> requests: those are covered and carry their new need, the others are only trimmed.\<close>

definition step_inv :: "nat list \<Rightarrow> bstate \<Rightarrow> nat \<Rightarrow> bstate \<Rightarrow> bool" where
  "step_inv ns a i b \<longleftrightarrow> bwf b \<and> cap b = cap a \<and> maxb b = maxb a \<and> nreq b = nreq a \<and>
     (\<forall>r < nreq a. need b ! r = (if r < i then ns ! r else need a ! r)) \<and>
     (\<forall>r < nreq a. r < i \<longrightarrow> min (ns ! r) (maxb a) \<le> held b ! r \<and> held b ! r \<le> max (held a ! r) (ns ! r)) \<and>
     (\<forall>r < nreq a. i \<le> r \<longrightarrow> min (held a ! r) (need a ! r) \<le> held b ! r \<and> held b ! r \<le> held a ! r)"

lemma step_inv_0: "bwf a \<Longrightarrow> step_inv ns a 0 a"
  by (simp add: step_inv_def)

lemma step_inv_served:
  assumes "step_inv ns a i b" "i < nreq a" "served i (b\<lparr>need := (need b)[i := ns ! i]\<rparr>) b'"
  shows "step_inv ns a (Suc i) b'"
proof -
  let ?b = "b\<lparr>need := (need b)[i := ns ! i]\<rparr>"
  have len: "length (need b) = nreq a" and eqs: "cap b = cap a" "maxb b = maxb a" "nreq b = nreq a"
    using assms(1) by (simp_all add: step_inv_def bwf_def)
  have i: "min (ns ! i) (maxb a) \<le> held b' ! i" "held b' ! i \<le> max (held b ! i) (ns ! i)"
    and same: "bwf b'" "cap b' = cap a" "maxb b' = maxb a" "nreq b' = nreq a" "need b' = need ?b"
    using assms(2,3) len eqs by (simp_all add: served_def)
  have q: "held b' ! r \<le> held b ! r" "min (held b ! r) (need ?b ! r) \<le> held b' ! r"
    if "r < nreq a" "r \<noteq> i" for r
    using that assms(3) eqs by (simp_all add: served_def)
  have hi: "held b ! i \<le> held a ! i" using assms(1,2) by (simp add: step_inv_def)
  have "need b' ! r = (if r < Suc i then ns ! r else need a ! r)" if "r < nreq a" for r
    using that assms(1,2) same len by (auto simp: step_inv_def nth_list_update)
  moreover have "min (ns ! r) (maxb a) \<le> held b' ! r \<and> held b' ! r \<le> max (held a ! r) (ns ! r)"
    if r: "r < nreq a" "r < Suc i" for r
  proof (cases "r = i")
    case True
    then show ?thesis using i hi by auto
  next
    case False
    then have "min (ns ! r) (maxb a) \<le> held b ! r" "held b ! r \<le> max (held a ! r) (ns ! r)"
      "need ?b ! r = ns ! r"
      using r assms(1) by (simp_all add: step_inv_def)
    then show ?thesis using q [OF r(1) False] by linarith
  qed
  moreover have "min (held a ! r) (need a ! r) \<le> held b' ! r \<and> held b' ! r \<le> held a ! r"
    if r: "r < nreq a" "Suc i \<le> r" for r
  proof -
    have "min (held a ! r) (need a ! r) \<le> held b ! r" "held b ! r \<le> held a ! r" "need ?b ! r = need a ! r"
      using r assms(1) by (simp_all add: step_inv_def)
    then show ?thesis using q [OF r(1)] r(2) by linarith
  qed
  ultimately show ?thesis using same by (simp add: step_inv_def)
qed

lemma s_step_one_served:
  assumes "bwf b" "i < nreq b" "s_step_one eager ns i b = Some b'"
  shows "served i (b\<lparr>need := (need b)[i := ns ! i]\<rparr>) b'"
proof -
  let ?b = "b\<lparr>need := (need b)[i := ns ! i]\<rparr>"
  have wf: "bwf ?b" using assms(1) by (simp add: bwf_def)
  show ?thesis
  proof (cases "eager \<and> ns ! i = 0")
    case True
    then have "b' = s_release i 0 ?b" using assms(3) by (simp add: s_step_one_def Let_def)
    moreover have "bwf (s_release i 0 ?b)" using wf assms(2) by (simp add: s_release_bwf)
    moreover have "length (need b) = nreq b" using assms(1) by (simp add: bwf_def)
    ultimately show ?thesis
      using True assms(2) by (simp add: served_def s_release_held)
  next
    case False
    then have "s_serve i ?b = Some b'" using assms(3) unfolding s_step_one_def Let_def by (simp only: if_False)
    then show ?thesis using s_serve_served [OF wf] assms(2) by simp
  qed
qed

lemma s_step_inv:
  assumes "bwf a" "s_step eager ns a = Some b"
  shows "step_inv ns a (nreq a) b"
proof (rule s_for_each_upto [where I = "step_inv ns a", OF _ step_inv_0 [OF assms(1)]])
  show "s_for_each (s_step_one eager ns) [0..<nreq a] a = Some b"
    using assms(2) by (simp add: s_step_def)
next
  fix i c d
  assume "i < nreq a" "step_inv ns a i c" "s_step_one eager ns i c = Some d"
  moreover then have "bwf c" "i < nreq c" by (simp_all add: step_inv_def)
  ultimately show "step_inv ns a (Suc i) d"
    using s_step_one_served step_inv_served by blast
qed

text \<open>A step that returns leaves every request covered, and gives nobody more than it asked for.\<close>

lemma s_step_covers:
  assumes "bwf a" "s_step eager ns a = Some b" "r < nreq a"
  shows "min (ns ! r) (maxb a) \<le> held b ! r \<and> held b ! r \<le> max (held a ! r) (ns ! r)"
  using s_step_inv [OF assms(1,2)] assms(3) by (simp add: step_inv_def)

text \<open>
  The blocks asked for while a request is served: as long as nobody keeps more for an old length than
  it asks for now, they are at most the sum of the new needs.
\<close>

lemma step_demand:
  assumes inv: "step_inv ns a i b" and i: "i < nreq a"
    and old: "\<And>r. r < nreq a \<Longrightarrow> min (held a ! r) (need a ! r) \<le> ns ! r"
  shows "pinned (b\<lparr>need := (need b)[i := ns ! i]\<rparr>) + (ns ! i - held b ! i) \<le> (\<Sum>r < nreq a. ns ! r)"
proof -
  let ?q = "(need b)[i := ns ! i]"
  have len: "nreq b = nreq a" "length (need b) = nreq a" using inv by (simp_all add: step_inv_def bwf_def)
  have "min (held b ! r) (?q ! r) + (if r = i then ns ! i - held b ! i else 0) \<le> ns ! r"
    if r: "r < nreq a" for r
  proof (cases "r \<le> i")
    case True
    then show ?thesis using inv r len by (auto simp: step_inv_def nth_list_update)
  next
    case False
    then have "need b ! r = need a ! r" "held b ! r \<le> held a ! r" "?q ! r = need b ! r" "r \<noteq> i"
      using inv r by (simp_all add: step_inv_def)
    then show ?thesis using old [OF r] by simp
  qed
  then have "(\<Sum>r < nreq a. min (held b ! r) (?q ! r) + (if r = i then ns ! i - held b ! i else 0))
      \<le> (\<Sum>r < nreq a. ns ! r)"
    by (intro sum_mono) simp
  then show ?thesis
    using i len by (simp add: sum.distrib pinned_def)
qed

lemma s_step_one_succeeds:
  assumes "step_inv ns a i b" "i < nreq a" "\<And>r. r < nreq a \<Longrightarrow> min (held a ! r) (need a ! r) \<le> ns ! r"
    and "(\<Sum>r < nreq a. ns ! r) \<le> cap a"
  shows "\<exists>c. s_step_one eager ns i b = Some c"
proof -
  let ?b = "b\<lparr>need := (need b)[i := ns ! i]\<rparr>"
  have "bwf b" "nreq b = nreq a" "cap b = cap a" using assms(1) by (simp_all add: step_inv_def)
  then have wf: "bwf ?b" "i < nreq ?b" "cap ?b = cap a" "need ?b ! i = ns ! i"
    using assms(2) by (simp_all add: bwf_def)
  have "pinned ?b + (need ?b ! i - held ?b ! i) \<le> cap ?b"
    using step_demand [OF assms(1-3)] assms(4) wf by simp
  from s_serve_succeeds [OF wf(1,2) this] show ?thesis
    by (auto simp: s_step_one_def Let_def)
qed

text \<open>
  The out-of-memory error is exact: with needs that a request can hold, and nobody keeping more for
  an old length than it asks for now, a step fails precisely when the needs exceed the capacity.
\<close>

lemma s_step_oom:
  assumes "bwf a" "\<And>r. r < nreq a \<Longrightarrow> ns ! r \<le> maxb a"
    and "\<And>r. r < nreq a \<Longrightarrow> min (held a ! r) (need a ! r) \<le> ns ! r"
  shows "s_step eager ns a = None \<longleftrightarrow> cap a < (\<Sum>r < nreq a. ns ! r)"
proof (cases "(\<Sum>r < nreq a. ns ! r) \<le> cap a")
  case True
  have "\<exists>b. s_for_each (s_step_one eager ns) [0..<nreq a] a = Some b \<and> step_inv ns a (nreq a) b"
  proof (rule s_for_each_succeeds [where I = "step_inv ns a", OF _ step_inv_0 [OF assms(1)]])
    fix i b
    assume i: "i < nreq a" "step_inv ns a i b"
    then obtain c where c: "s_step_one eager ns i b = Some c"
      using s_step_one_succeeds assms(3) True by blast
    moreover have "bwf b" "i < nreq b" using i by (simp_all add: step_inv_def)
    ultimately show "\<exists>c. s_step_one eager ns i b = Some c \<and> step_inv ns a (Suc i) c"
      using i s_step_one_served step_inv_served by blast
  qed
  then show ?thesis using True by (auto simp: s_step_def)
next
  case False
  have "s_step eager ns a \<noteq> Some b" for b
  proof
    assume b: "s_step eager ns a = Some b"
    have "(\<Sum>r < nreq a. ns ! r) \<le> (\<Sum>r < nreq a. held b ! r)"
      using s_step_covers [OF assms(1) b] assms(2) by (intro sum_mono) (auto simp: min_def split: if_splits)
    moreover have "in_use b \<le> cap a" "nreq b = nreq a"
      using s_step_inv [OF assms(1) b] by (auto simp: step_inv_def bwf_def)
    ultimately show False using False by (simp add: in_use_def)
  qed
  then show ?thesis using False by (cases "s_step eager ns a") auto
qed

text \<open>Preparing a prefill is a step at the lengths already recorded.\<close>

lemma s_prefill_step:
  assumes "bwf a"
  shows "s_prefill a = s_step False (need a) a"
proof -
  have "s_for_each s_serve rs b = s_for_each (s_step_one False (need a)) rs b"
    if "bwf b" "need b = need a" "set rs \<subseteq> {..<nreq b}" for rs b
    using that
  proof (induction rs arbitrary: b)
    case (Cons r rs)
    have one: "s_step_one False (need a) r b = s_serve r b"
      using Cons.prems(2) by (simp add: s_step_one_def flip: Cons.prems(2))
    show ?case
    proof (cases "s_serve r b")
      case (Some c)
      then have "served r b c" using Cons.prems s_serve_served by simp
      then show ?thesis
        using Some Cons.prems Cons.IH [of c] one by (simp add: served_def)
    qed (simp add: one)
  qed simp
  then show ?thesis
    using assms unfolding s_prefill_def s_step_def by (simp add: atLeast0LessThan)
qed

end
