(* ===== verification/Vattn_Refine.thy ===== *)
theory Vattn_Refine
  imports Vattn_Inv Vattn_Spec
begin

text \<open>
  The operations of \<^verbatim>\<open>Vattn_Alloc\<close> implement those of \<^verbatim>\<open>Vattn_Spec\<close>.

  \<open>abs_blocks\<close> forgets pages, layers and offsets. \<open>refines m s q a\<close> says that the routine
  \<open>m\<close>, run from \<open>s\<close>, keeps the invariant and the pages, ends with the sequence
  lengths \<open>q\<close> in an abstract state given by \<open>a\<close>, and that it leaves early only when a
  driver call ends the process, or by the out-of-memory exception when \<open>a\<close> is \<^verbatim>\<open>None\<close>.
\<close>

section \<open>Abstraction\<close>

definition abs_blocks :: "'g vst \<Rightarrow> bstate" where
  "abs_blocks s =
     \<lparr>cap = size (all_pages s) div (2 * nlayers (cfg s)),
      maxb = unat (max_pages_per_req (cfg s)),
      held = map unat (mapped_pages s),
      need = map (\<lambda>q. unat (tokens_to_pages (cfg s) q)) (curr_seq_lengths s)\<rparr>"

lemma abs_fields [simp]:
  "held (abs_blocks s) = map unat (mapped_pages s)"
  "maxb (abs_blocks s) = unat (max_pages_per_req (cfg s))"
  "need (abs_blocks s) = map (\<lambda>q. unat (tokens_to_pages (cfg s) q)) (curr_seq_lengths s)"
  by (simp_all add: abs_blocks_def)

lemma vinv_lengths:
  "vinv s \<Longrightarrow> length (mapped_pages s) = batch (cfg s)"
  "vinv s \<Longrightarrow> length (curr_seq_lengths s) = batch (cfg s)"
  "vinv s \<Longrightarrow> geom (cfg s)"
  by (simp_all add: vinv_def)

lemma abs_in_use: "vinv s \<Longrightarrow> in_use (abs_blocks s) = (\<Sum>r < batch (cfg s). mapped s r)"
  by (simp add: in_use_def vinv_lengths)

lemma abs_cap:
  assumes "vinv s"
  shows "cap (abs_blocks s) = length (free_pool s) div (2 * nlayers (cfg s)) + in_use (abs_blocks s)"
proof -
  have "0 < nlayers (cfg s)" using assms by (simp add: vinv_lengths nlayers_pos)
  then show ?thesis
    unfolding abs_in_use [OF assms] using total_pages [OF assms] by (simp add: abs_blocks_def)
qed

lemma abs_free: "vinv s \<Longrightarrow> free_blocks (abs_blocks s) = length (free_pool s) div (2 * nlayers (cfg s))"
  by (simp add: free_blocks_def abs_cap)

lemma abs_bwf: "vinv s \<Longrightarrow> bwf (abs_blocks s)"
  by (simp add: bwf_def abs_cap vinv_lengths) (simp add: vinv_def)

lemma kvblocks_available_abs:
  assumes "vinv s"
  shows "kvblocks_available s n \<longleftrightarrow> unat n \<le> free_blocks (abs_blocks s)"
proof -
  have "0 < 2 * nlayers (cfg s)" using assms by (simp add: vinv_lengths nlayers_pos)
  then show ?thesis
    using assms by (simp add: kvblocks_available_iff abs_free less_eq_div_iff_mult_less_eq)
qed

lemma abs_keeps:
  assumes "keeps s s'" "curr_seq_lengths s' = curr_seq_lengths s"
    "mapped_pages s' = (mapped_pages s)[r := n]"
  shows "abs_blocks s' = (abs_blocks s)\<lparr>held := (held (abs_blocks s))[r := unat n]\<rparr>"
  using assms by (simp add: abs_blocks_def keeps_def map_update)

section \<open>The refinement judgement\<close>

definition refines :: "('g, unit) vout \<Rightarrow> 'g vst \<Rightarrow> u64 list \<Rightarrow> bstate option \<Rightarrow> bool" where
  "refines m s q a \<longleftrightarrow>
     holds m (\<lambda>_ s'. vinv s' \<and> keeps s s' \<and> curr_seq_lengths s' = q \<and> a = Some (abs_blocks s'))
       (\<lambda>e s'. is_exit e \<or> e = oom_error \<and> a = None \<and> vinv s' \<and> keeps s s')"

lemma refines_Ret:
  "vinv s \<Longrightarrow> q = curr_seq_lengths s \<Longrightarrow> a = Some (abs_blocks s) \<Longrightarrow> refines (Ret () s) s q a"
  by (simp add: refines_def)

lemma refines_bind:
  assumes "refines m s q a"
    and "\<And>s'. vinv s' \<Longrightarrow> keeps s s' \<Longrightarrow> curr_seq_lengths s' = q \<Longrightarrow> a = Some (abs_blocks s') \<Longrightarrow>
      refines (f () s') s' q' (g (abs_blocks s'))"
  shows "refines (obind m f) s q' (Option.bind a g)"
proof (cases m)
  case (Ret u s')
  then have s': "vinv s'" "keeps s s'" "curr_seq_lengths s' = q" "a = Some (abs_blocks s')"
    using assms(1) by (simp_all add: refines_def)
  show ?thesis
    using assms(2) [OF s'] Ret s'(2,4)
    by (auto simp: refines_def elim!: holds_conseq intro: keeps_trans)
next
  case (Fail e s')
  then show ?thesis using assms(1) by (auto simp: refines_def)
qed

lemma refines_keeps_trans:
  "keeps s t \<Longrightarrow> refines m t q a \<Longrightarrow> refines m s q a"
  by (auto simp: refines_def elim!: holds_conseq intro: keeps_trans)

section \<open>Release\<close>

lemma release_refines:
  assumes "vinv s" "r < batch (cfg s)"
  shows "refines (release_kvcache_pages_some api r k s) s (curr_seq_lengths s)
    (Some (s_release r (unat k) (abs_blocks s)))"
  using assms
proof (induction api r k s rule: release_kvcache_pages_some.induct)
  case (1 api r k s)
  show ?case
  proof (cases "get_req_pages s r > k")
    case False
    then have "s_release r (unat k) (abs_blocks s) = abs_blocks s"
      using 1(2,3) by (simp add: s_release_def get_req_pages_def not_less word_le_nat_alt
          vinv_lengths min_absorb1 list_update_same_conv)
    then show ?thesis
      using False 1(2) by (simp add: release_kvcache_pages_some.simps refines_Ret)
  next
    case True
    then have lt: "unat k < mapped s r" by (simp add: get_req_pages_def word_less_nat_alt)
    note un = unmap_block_inv [OF 1(2,3), of api]
    show ?thesis
    proof (cases "unmap_req_page_one api r s")
      case (Fail e t)
      then show ?thesis
        using True un lt by (simp add: release_kvcache_pages_some.simps refines_def)
    next
      case (Ret u t)
      then have t: "vinv t" "keeps s t" "mapped_pages t = (mapped_pages s)[r := mapped_pages s ! r - 1]"
        "curr_seq_lengths t = curr_seq_lengths s"
        using un lt by simp_all
      have pred: "unat (mapped_pages s ! r - 1) = mapped s r - 1"
        using lt by (simp add: unat_minus_one unat_gt_0 flip: unat_eq_0)
      have "s_release r (unat k) (abs_blocks t) = s_release r (unat k) (abs_blocks s)"
        using abs_keeps [OF t(2,4,3)] pred lt 1(2,3)
        by (simp add: s_release_def vinv_lengths min_absorb2)
      moreover have "refines (release_kvcache_pages_some api r k t) t (curr_seq_lengths t)
          (Some (s_release r (unat k) (abs_blocks t)))"
        using 1(1) [OF True Ret t(1)] 1(3) t(2) by (simp add: keeps_cfg)
      ultimately show ?thesis
        using True Ret t(4) refines_keeps_trans [OF t(2)]
        by (subst release_kvcache_pages_some.simps) simp
    qed
  qed
qed

section \<open>Growth\<close>

lemma is_valid_offset_iff:
  assumes "vinv s" "r < batch (cfg s)"
  shows "is_valid_offset (cfg s) r (get_req_current_map_offset s r) sync \<longleftrightarrow>
    mapped s r < unat (max_pages_per_req (cfg s))"
proof -
  let ?c = "cfg s"
  let ?m = "unat (max_pages_per_req ?c)" and ?p = "unat (page_size ?c)"
  have g: "geom ?c" and le: "mapped s r \<le> ?m" using assms by (simp_all add: vinv_def)
  have "(r + 1) * (?m * ?p) \<le> batch ?c * (?m * ?p)" using assms(2) by (intro mult_le_mono1) simp
  then have lim: "(r + 1) * (?m * ?p) < 2 ^ 64" using geom_fits [OF g] by linarith
  have end_eq: "of_nat (r + 1) * virt_buff_size_per_req ?c = of_nat ((r + 1) * (?m * ?p))"
    by (simp only: geom_vbs [OF g] of_nat_mult)
  then have end_unat: "unat (of_nat (r + 1) * virt_buff_size_per_req ?c) = (r + 1) * (?m * ?p)"
    using unat_of_nat_u64 [OF lim] by simp
  show ?thesis
  proof (cases "mapped s r < ?m")
    case True
    have "(r * ?m + mapped s r) * ?p < (r * ?m + ?m) * ?p"
      using True geom_page_size [OF g] by simp
    also have "\<dots> = (r + 1) * (?m * ?p)" by (simp add: algebra_simps)
    finally have "block_offset ?c r (mapped s r) < of_nat (r + 1) * virt_buff_size_per_req ?c"
      unfolding word_less_nat_alt end_unat unat_block_offset(1) [OF g assms(2) True] .
    then show ?thesis
      using True by (simp add: is_valid_offset_def get_req_current_map_offset_block)
  next
    case False
    then have "mapped s r = ?m" using le by simp
    then have "block_offset ?c r (mapped s r) = of_nat (r + 1) * virt_buff_size_per_req ?c"
      by (simp add: block_offset_def geom_vbs [OF g] algebra_simps)
    then show ?thesis
      using False by (simp add: is_valid_offset_def get_req_current_map_offset_block)
  qed
qed

lemma grow_loop_Suc:
  "vinv s \<Longrightarrow> r < batch (cfg s) \<Longrightarrow> grow_loop api r (Suc n) sync s =
     (if mapped s r < unat (max_pages_per_req (cfg s))
      then obind (map_kvblock api r (block_offset (cfg s) r (mapped s r)) s)
             (\<lambda>_ s. grow_loop api r n sync (inc_req_page_count r s))
      else Ret () s)"
  by (simp add: is_valid_offset_iff Let_def) (simp add: get_req_current_map_offset_block)

lemma grow_loop_refines:
  assumes "vinv s" "r < batch (cfg s)" "n \<le> free_blocks (abs_blocks s)"
  shows "refines (grow_loop api r n sync s) s (curr_seq_lengths s)
    (Some ((abs_blocks s)\<lparr>held := (held (abs_blocks s))[r := min (mapped s r + n) (unat (max_pages_per_req (cfg s)))]\<rparr>))"
  using assms
proof (induction n arbitrary: s)
  case 0
  then have "mapped s r \<le> unat (max_pages_per_req (cfg s))" by (simp add: vinv_def)
  then have "(map unat (mapped_pages s))[r := min (mapped s r) (unat (max_pages_per_req (cfg s)))] =
      map unat (mapped_pages s)"
    using 0 by (simp add: vinv_lengths list_update_same_conv)
  then show ?case using 0 by (simp add: refines_Ret abs_blocks_def)
next
  case (Suc n)
  let ?M = "unat (max_pages_per_req (cfg s))"
  show ?case
  proof (cases "mapped s r < ?M")
    case False
    then have "mapped s r = ?M" using Suc.prems by (simp add: vinv_def le_antisym)
    then have "(map unat (mapped_pages s))[r := ?M] = map unat (mapped_pages s)"
      using Suc.prems by (simp add: vinv_lengths list_update_same_conv)
    then show ?thesis
      using False Suc.prems by (simp add: grow_loop_Suc refines_Ret abs_blocks_def del: grow_loop.simps)
  next
    case True
    have pool: "2 * nlayers (cfg s) \<le> length (free_pool s)"
      using Suc.prems by (simp add: abs_free) (metis One_nat_def Suc_leI div_less not_less not_less_zero order_trans zero_less_Suc mult_2)
    note blk = map_block_inv [OF Suc.prems(1,2) True pool, of api]
    show ?thesis
    proof (cases "map_kvblock api r (block_offset (cfg s) r (mapped s r)) s")
      case (Fail e t)
      then show ?thesis
        using True Suc.prems blk by (simp add: grow_loop_Suc refines_def del: grow_loop.simps)
    next
      case (Ret u t)
      let ?t = "inc_req_page_count r t"
      have t: "vinv ?t" "keeps s ?t" "mapped_pages ?t = (mapped_pages s)[r := mapped_pages s ! r + 1]"
        "curr_seq_lengths ?t = curr_seq_lengths s"
        "length (free_pool s) = length (free_pool ?t) + 2 * nlayers (cfg s)"
        using blk Ret by simp_all
      have suc: "unat (mapped_pages s ! r + 1) = Suc (mapped s r)"
        using True by (rule unat_plus_one)
      have c: "cfg ?t = cfg s" using t(2) by (rule keeps_cfg)
      have n: "n \<le> free_blocks (abs_blocks ?t)"
        using Suc.prems(1,3) t(1,5) c nlayers_pos [OF vinv_lengths(3) [OF Suc.prems(1)]]
        by (simp add: abs_free div_add_self2)
      have "refines (grow_loop api r n sync ?t) ?t (curr_seq_lengths ?t)
          (Some ((abs_blocks ?t)\<lparr>held := (held (abs_blocks ?t))[r := min (mapped ?t r + n) ?M]\<rparr>))"
        using Suc.IH [OF t(1) _ n] Suc.prems(2) c by simp
      moreover have "(abs_blocks ?t)\<lparr>held := (held (abs_blocks ?t))[r := min (mapped ?t r + n) ?M]\<rparr> =
          (abs_blocks s)\<lparr>held := (held (abs_blocks s))[r := min (mapped s r + Suc n) ?M]\<rparr>"
        using abs_keeps [OF t(2,4,3)] suc t(3) Suc.prems(1,2) by (simp add: vinv_lengths)
      ultimately show ?thesis
        using True Ret Suc.prems t refines_keeps_trans [OF t(2)]
        by (simp add: grow_loop_Suc del: grow_loop.simps)
    qed
  qed
qed

lemma grow_refines:
  assumes "vinv s" "r < batch (cfg s)"
  shows "refines (grow_kvcache_phys api r n True s) s (curr_seq_lengths s)
    (s_grow r (unat n) (abs_blocks s))"
proof -
  have "keeps s (s\<lparr>verbose := True\<rparr>)" "vinv (s\<lparr>verbose := True\<rparr>)"
    using assms(1) by (simp_all add: keeps_def vinv_def)
  then show ?thesis
    using assms grow_loop_refines [OF assms, of "unat n" api True]
    by (auto simp: grow_kvcache_phys_def s_grow_def kvblocks_available_abs refines_Ret unat_eq_0
        not_le vinv_lengths) (auto simp: refines_def)
qed

section \<open>Reclamation on demand\<close>

lemma reclaim_loop_refines:
  assumes "vinv s" "set rs \<subseteq> {..<batch (cfg s)}"
  shows "refines (reclaim_loop api n rs s) s (curr_seq_lengths s)
    (Some (s_reclaim (unat n) rs (abs_blocks s)))"
  using assms
proof (induction rs arbitrary: s)
  case Nil
  then show ?case by (simp add: refines_Ret)
next
  case (Cons r rs)
  let ?q = "tokens_to_pages (cfg s) (get_req_seq_length s r)"
  have r: "r < batch (cfg s)" using Cons.prems by simp
  have need: "need (abs_blocks s) ! r = unat ?q"
    using r Cons.prems(1) by (simp add: vinv_lengths get_req_seq_length_def)
  have rest: "refines (reclaim_loop api n rs t) t (curr_seq_lengths s)
      (Some (s_reclaim (unat n) rs (abs_blocks t)))"
    if "vinv t" "keeps s t" "curr_seq_lengths t = curr_seq_lengths s" for t
    using Cons.IH [OF that(1)] Cons.prems(2) that(2,3) by (simp add: keeps_cfg)
  show ?case
  proof (cases "kvblocks_available s n")
    case True
    then show ?thesis using Cons.prems by (simp add: refines_Ret kvblocks_available_abs)
  next
    case False
    then have sp: "s_reclaim (unat n) (r # rs) (abs_blocks s) =
        s_reclaim (unat n) rs (s_release r (unat ?q) (abs_blocks s))"
      using Cons.prems(1) need by (simp add: kvblocks_available_abs)
    show ?thesis
    proof (cases "get_req_pages s r \<le> ?q")
      case True
      then have "s_release r (unat ?q) (abs_blocks s) = abs_blocks s"
        using r Cons.prems(1) by (simp add: s_release_def get_req_pages_def word_le_nat_alt
            vinv_lengths min_absorb1 list_update_same_conv)
      then show ?thesis
        using True False rest [OF Cons.prems(1)] sp by simp
    next
      case over: False
      have "refines (obind (release_kvcache_pages_some api r ?q s) (\<lambda>_ t. reclaim_loop api n rs t)) s
          (curr_seq_lengths s)
          (Option.bind (Some (s_release r (unat ?q) (abs_blocks s))) (\<lambda>a. Some (s_reclaim (unat n) rs a)))"
        by (rule refines_bind [OF release_refines [OF Cons.prems(1) r]]) (rule rest)
      then show ?thesis using over False sp by simp
    qed
  qed
qed

lemma reclaim_refines:
  "vinv s \<Longrightarrow> refines (reclaim_kvblocks_on_demand api n s) s (curr_seq_lengths s)
     (Some (s_reclaim (unat n) (rev [0..<nreq (abs_blocks s)]) (abs_blocks s)))"
  using reclaim_loop_refines [of s "rev [0..<batch (cfg s)]" api n]
  by (simp add: reclaim_kvblocks_on_demand_def vinv_lengths atLeast0LessThan)

section \<open>Serving a request and the whole step\<close>

lemma set_seq_same:
  "r < length (curr_seq_lengths s) \<Longrightarrow> curr_seq_lengths s ! r = q \<Longrightarrow> set_req_seq_length r q s = s"
  by (auto simp: set_req_seq_length_def)

lemma serve_refines:
  assumes "vinv s" "r < batch (cfg s)" "curr_seq_lengths s ! r = q"
  shows "refines (map_pages_for_curr_step api r q s) s (curr_seq_lengths s) (s_serve r (abs_blocks s))"
proof -
  let ?q = "tokens_to_pages (cfg s) q"
  let ?a = "abs_blocks s" and ?n = "?q - mapped_pages s ! r"
  have need: "need ?a ! r = unat ?q" and held: "held ?a ! r = mapped s r"
    using assms by (simp_all add: vinv_lengths)
  show ?thesis
  proof (cases "q = 0 \<or> ?q \<le> mapped_pages s ! r")
    case True
    then have "unat ?q \<le> mapped s r"
      using vinv_lengths(3) [OF assms(1)] by (auto simp: geom_def word_le_nat_alt)
    then have "s_serve r ?a = Some ?a" using need held by (simp add: s_serve_idle)
    then show ?thesis
      using True assms(1) by (auto simp: map_pages_for_curr_step_def get_req_pages_def refines_Ret)
  next
    case False
    then have n: "unat ?n = need ?a ! r - held ?a ! r"
      using need held by (simp add: unat_sub word_le_nat_alt)
    define rec where "rec = (if \<not> kvblocks_available s ?n
        then reclaim_kvblocks_on_demand api ?n s else Ret () s)"
    have "refines rec s (curr_seq_lengths s) (Some (if unat ?n \<le> free_blocks ?a then ?a
        else s_reclaim (unat ?n) (rev [0..<nreq ?a]) ?a))"
      using assms(1) reclaim_refines [OF assms(1), of api ?n]
      by (simp add: rec_def kvblocks_available_abs refines_Ret)
    then have "refines (obind rec (\<lambda>_ t. obind (grow_kvcache_phys api r ?n True t)
          (\<lambda>_ t. Ret () (set_req_seq_length r q t)))) s (curr_seq_lengths s)
        (Option.bind (Some (if unat ?n \<le> free_blocks ?a then ?a
          else s_reclaim (unat ?n) (rev [0..<nreq ?a]) ?a)) (\<lambda>a. Option.bind (s_grow r (unat ?n) a) Some))"
    proof (rule refines_bind)
      fix t
      assume t: "vinv t" "keeps s t" "curr_seq_lengths t = curr_seq_lengths s"
      have "refines (obind (grow_kvcache_phys api r ?n True t)
          (\<lambda>_ t. Ret () (set_req_seq_length r q t))) t (curr_seq_lengths t)
          (Option.bind (s_grow r (unat ?n) (abs_blocks t)) Some)"
        by (rule refines_bind [OF grow_refines [OF t(1)]])
          (use t assms keeps_cfg [OF t(2)] in \<open>simp_all add: set_seq_same vinv_lengths refines_Ret\<close>)
      then show "refines (obind (grow_kvcache_phys api r ?n True t)
          (\<lambda>_ t. Ret () (set_req_seq_length r q t))) t (curr_seq_lengths s)
          (Option.bind (s_grow r (unat ?n) (abs_blocks t)) Some)"
        by (simp only: t(3))
    qed
    moreover have "map_pages_for_curr_step api r q s =
        obind rec (\<lambda>_ t. obind (grow_kvcache_phys api r ?n True t)
          (\<lambda>_ t. Ret () (set_req_seq_length r q t)))"
      using False by (simp add: map_pages_for_curr_step_def rec_def get_req_pages_def Let_def)
    ultimately show ?thesis
      by (simp only: s_serve_def Let_def n [symmetric] bind.bind_lunit bind_runit)
  qed
qed

lemma for_each_refines:
  assumes "\<And>r t. r \<in> set rs \<Longrightarrow> vinv t \<Longrightarrow> keeps s t \<Longrightarrow> P (curr_seq_lengths t) \<Longrightarrow>
      P (upd r (curr_seq_lengths t)) \<and> refines (f r t) t (upd r (curr_seq_lengths t)) (g r (abs_blocks t))"
    and "vinv s" "P (curr_seq_lengths s)"
  shows "refines (for_each f rs s) s (fold upd rs (curr_seq_lengths s)) (s_for_each g rs (abs_blocks s))"
  using assms
proof (induction rs arbitrary: s)
  case Nil
  then show ?case by (simp add: refines_Ret)
next
  case (Cons r rs)
  have r: "P (upd r (curr_seq_lengths s))"
    "refines (f r s) s (upd r (curr_seq_lengths s)) (g r (abs_blocks s))"
    using Cons.prems(1) [of r s] Cons.prems(2,3) by simp_all
  show ?case
    unfolding for_each.simps s_for_each.simps fold_Cons comp_apply
  proof (rule refines_bind [OF r(2)])
    fix t
    assume t: "vinv t" "keeps s t" "curr_seq_lengths t = upd r (curr_seq_lengths s)"
    have "refines (for_each f rs t) t (fold upd rs (curr_seq_lengths t)) (s_for_each g rs (abs_blocks t))"
    proof (rule Cons.IH [OF _ t(1)])
      show "P (curr_seq_lengths t)" using r(1) t(3) by simp
      show "P (upd x (curr_seq_lengths u)) \<and>
          refines (f x u) u (upd x (curr_seq_lengths u)) (g x (abs_blocks u))"
        if "x \<in> set rs" "vinv u" "keeps t u" "P (curr_seq_lengths u)" for x u
        using Cons.prems(1) [of x u] that keeps_trans [OF t(2)] by simp
    qed
    then show "refines (for_each f rs t) t (fold upd rs (upd r (curr_seq_lengths s)))
        (s_for_each g rs (abs_blocks t))"
      by (simp only: t(3))
  qed
qed

lemma fold_const: "fold (\<lambda>_ x. x) rs q = q"
  by (induction rs) simp_all

lemma prefill_refines:
  assumes "vinv s"
  shows "refines (prepare_prefill_kvcache api s) s (curr_seq_lengths s) (s_prefill (abs_blocks s))"
proof -
  have "refines (prepare_prefill_kvcache api s) s (fold (\<lambda>_ q. q) [0..<batch (cfg s)] (curr_seq_lengths s))
      (s_for_each s_serve [0..<batch (cfg s)] (abs_blocks s))"
    unfolding prepare_prefill_kvcache_def
    by (rule for_each_refines [where P = "\<lambda>_. True"])
      (use assms in \<open>auto simp: get_req_seq_length_def keeps_cfg intro!: serve_refines\<close>)
  then show ?thesis
    using assms by (simp add: fold_const s_prefill_def vinv_lengths)
qed

text \<open>The needs the lengths passed to a step amount to, in blocks.\<close>

definition blocks_needed :: "vcfg \<Rightarrow> u64 list \<Rightarrow> nat list" where
  "blocks_needed c qs = map (\<lambda>q. ceil_div (unat q) (unat (tokens_per_page c))) qs"

text \<open>Lengths whose rounding up to whole pages does not wrap around.\<close>

definition lengths_fit :: "vcfg \<Rightarrow> u64 list \<Rightarrow> bool" where
  "lengths_fit c qs \<longleftrightarrow> (\<forall>q \<in> set qs. unat q + unat (tokens_per_page c) \<le> 2 ^ 64)"

lemma fold_update_upto:
  "n \<le> length xs \<Longrightarrow> length ys = length xs \<Longrightarrow>
   fold (\<lambda>i zs. zs[i := xs ! i]) [0..<n] ys = take n xs @ drop n ys"
proof (induction n)
  case (Suc n)
  then have "drop n ys = ys ! n # drop (Suc n) ys" by (simp add: Cons_nth_drop_Suc)
  with Suc show ?case by (simp add: list_update_append take_Suc_conv_app_nth)
qed simp

lemma step_refines:
  assumes inv: "vinv s" and len: "length qs = batch (cfg s)" and fit: "lengths_fit (cfg s) qs"
  shows "refines (step_sync api qs eager s) s qs (s_step eager (blocks_needed (cfg s) qs) (abs_blocks s))"
proof -
  let ?c = "cfg s" and ?ns = "blocks_needed (cfg s) qs"
  have tpp: "tokens_per_page ?c \<noteq> 0" using vinv_lengths(3) [OF inv] by (simp add: geom_def)
  have ns: "?ns ! r = unat (tokens_to_pages ?c (qs ! r))" if "r < batch ?c" for r
    using that len fit tpp by (simp add: blocks_needed_def lengths_fit_def unat_tokens_to_pages)
  have zero: "?ns ! r = 0 \<longleftrightarrow> qs ! r = 0" if "r < batch ?c" for r
  proof -
    have "0 < unat (tokens_per_page ?c)" using tpp by (simp add: unat_gt_0)
    then show ?thesis
      using that len ceil_div_pos [of "unat (tokens_per_page ?c)" "unat (qs ! r)"]
      by (cases "qs ! r = 0") (simp_all add: blocks_needed_def unat_gt_0)
  qed
  have "refines (step_sync api qs eager s) s
      (fold (\<lambda>i zs. zs[i := qs ! i]) [0..<batch ?c] (curr_seq_lengths s))
      (s_for_each (s_step_one eager ?ns) [0..<batch ?c] (abs_blocks s))"
    unfolding step_sync_def
  proof (rule for_each_refines [where P = "\<lambda>zs. True", OF _ inv TrueI], rule conjI [OF TrueI])
    fix r t
    assume r: "r \<in> set [0..<batch ?c]" and t: "vinv t" "keeps s t"
    let ?t = "set_req_seq_length r (qs ! r) t"
    have c: "cfg t = ?c" using t(2) by (rule keeps_cfg)
    have t': "vinv ?t" "keeps t ?t" using t(1) by (simp_all add: set_req_seq_length_def vinv_def keeps_def)
    have abs: "abs_blocks ?t = (abs_blocks t)\<lparr>need := (need (abs_blocks t))[r := ?ns ! r]\<rparr>"
      using r t(1) c ns by (simp add: set_req_seq_length_def abs_blocks_def map_update)
    have fin: "eager \<and> qs ! r = 0 \<and> mapped_pages ?t ! r \<noteq> 0 \<Longrightarrow>
        refines (release_kvcache_pages_all api r ?t) ?t (curr_seq_lengths ?t)
          (s_step_one eager ?ns r (abs_blocks t))"
      using release_refines [OF t'(1), of r api 0] r c zero [of r] keeps_cfg [OF t'(2)] abs
      by (simp add: release_kvcache_pages_all_def s_step_one_def)
    have go: "refines (map_pages_for_curr_step api r (qs ! r) ?t) ?t (curr_seq_lengths ?t)
          (s_step_one eager ?ns r (abs_blocks t))"
      if no: "\<not> (eager \<and> qs ! r = 0 \<and> mapped_pages ?t ! r \<noteq> 0)"
    proof -
      have held: "held (abs_blocks ?t) ! r = mapped ?t r"
        using r t'(1) c keeps_cfg [OF t'(2)] by (simp add: vinv_lengths)
      have "s_step_one eager ?ns r (abs_blocks t) = s_serve r (abs_blocks ?t)"
      proof (cases "eager \<and> ?ns ! r = 0")
        case True
        then have "held (abs_blocks ?t) ! r = 0" using no zero r held by auto
        moreover from this have "s_release r 0 (abs_blocks ?t) = abs_blocks ?t"
          by (simp add: s_release_def list_update_same_conv flip: \<open>_ = 0\<close>)
        ultimately show ?thesis
          using True abs r t(1) c by (simp add: s_step_one_def s_serve_idle vinv_lengths)
      next
        case False
        then show ?thesis unfolding s_step_one_def Let_def abs by (simp only: if_False)
      qed
      then show ?thesis
        using serve_refines [OF t'(1), of r "qs ! r" api] r c keeps_cfg [OF t'(2)] t(1)
        by (simp add: vinv_lengths) (simp add: set_req_seq_length_def vinv_lengths)
    qed
    show "refines (if \<not> r < length qs then Fail OutOfRange t
         else let t = set_req_seq_length r (qs ! r) t in
              if eager \<and> qs ! r = 0 \<and> mapped_pages t ! r \<noteq> 0
              then release_kvcache_pages_all api r t
              else map_pages_for_curr_step api r (qs ! r) t) t ((curr_seq_lengths t)[r := qs ! r])
         (s_step_one eager ?ns r (abs_blocks t))"
      using fin go r len refines_keeps_trans [OF t'(2)]
      by (simp add: Let_def) (simp add: set_req_seq_length_def)
  qed
  then show ?thesis
    using inv len by (simp add: s_step_def vinv_lengths fold_update_upto)
qed

end
