(* ===== verification/Vattn_Manager.thy ===== *)
theory Vattn_Manager
  imports Vattn_Refine
begin

text \<open>
  The background memory manager (\<^verbatim>\<open>do_kvcache_memory_management\<close>): it keeps the invariant, never
  takes from a request what its current length needs, raises no exception, and on its fast path
  leaves every active request with the memory of its next token.
\<close>

section \<open>What the manager may do\<close>

abbreviation req_blocks :: "'g vst \<Rightarrow> nat \<Rightarrow> nat" where
  "req_blocks s r \<equiv> unat (tokens_to_pages (cfg s) (curr_seq_lengths s ! r))"

definition spared :: "'g vst \<Rightarrow> 'g vst \<Rightarrow> bool" where
  "spared s s' \<longleftrightarrow> vinv s' \<and> keeps s s' \<and> curr_seq_lengths s' = curr_seq_lengths s \<and>
     (\<forall>r < batch (cfg s). min (mapped s r) (req_blocks s r) \<le> mapped s' r)"

definition grown :: "'g vst \<Rightarrow> 'g vst \<Rightarrow> bool" where
  "grown s s' \<longleftrightarrow> vinv s' \<and> keeps s s' \<and> curr_seq_lengths s' = curr_seq_lengths s \<and>
     (\<forall>r < batch (cfg s). mapped s r \<le> mapped s' r)"

lemma grown_refl: "vinv s \<Longrightarrow> grown s s"
  by (simp add: grown_def)

lemma grownD: "grown s t \<Longrightarrow> vinv t" "grown s t \<Longrightarrow> keeps s t" "grown s t \<Longrightarrow> cfg t = cfg s"
  by (simp_all add: grown_def keeps_cfg)

lemma grown_trans:
  assumes "grown s t" "grown t u"
  shows "grown s u"
proof -
  have "mapped s r \<le> mapped u r" if "r < batch (cfg s)" for r
  proof -
    have "mapped s r \<le> mapped t r" "mapped t r \<le> mapped u r"
      using assms that grownD(3) [OF assms(1)] by (simp_all add: grown_def)
    then show ?thesis by simp
  qed
  moreover have "keeps s u" using assms grownD(2) keeps_trans by blast
  ultimately show ?thesis using assms by (simp add: grown_def)
qed

lemma grown_spared: "grown s t \<Longrightarrow> spared s t"
  by (simp add: grown_def spared_def min.coboundedI1)

lemma spared_trans:
  assumes "spared s t" "spared t u"
  shows "spared s u"
proof -
  have "min (mapped s r) (req_blocks s r) \<le> mapped u r" if "r < batch (cfg s)" for r
  proof -
    have c: "cfg t = cfg s" using assms(1) by (simp add: spared_def keeps_cfg)
    have "min (mapped s r) (req_blocks s r) \<le> mapped t r" "min (mapped t r) (req_blocks s r) \<le> mapped u r"
      using assms that c by (simp_all add: spared_def)
    then show ?thesis by linarith
  qed
  then show ?thesis using assms by (auto simp: spared_def intro: keeps_trans)
qed

section \<open>Asynchronous growth\<close>

lemma grow_async_holds:
  assumes "vinv s" "r < batch (cfg s)"
  shows "holds (grow_kvcache_phys api r n False s)
    (\<lambda>_ s'. vinv s' \<and> keeps s s' \<and> curr_seq_lengths s' = curr_seq_lengths s \<and>
       (unat n \<le> free_blocks (abs_blocks s) \<longrightarrow> mapped_pages s' =
          (mapped_pages s)[r := of_nat (min (mapped s r + unat n) (unat (max_pages_per_req (cfg s))))]) \<and>
       (\<not> unat n \<le> free_blocks (abs_blocks s) \<longrightarrow> s' = s))
    (\<lambda>e _. is_exit e)"
proof -
  have le: "mapped s r \<le> unat (max_pages_per_req (cfg s))" using assms by (simp add: vinv_def)
  have conc: "mapped_pages s' = (mapped_pages s)[r := of_nat k]"
    if "map unat (mapped_pages s') = (map unat (mapped_pages s))[r := k]" for s' :: "'g vst" and k
  proof -
    have "map of_nat (map unat (mapped_pages s')) = mapped_pages s'" by (simp add: comp_def)
    moreover have "map of_nat ((map unat (mapped_pages s))[r := k]) = (mapped_pages s)[r := of_nat k :: u64]"
      by (simp add: map_update comp_def)
    ultimately show ?thesis using that by metis
  qed
  have loop: "holds (grow_loop api r (unat n) False s)
      (\<lambda>_ s'. vinv s' \<and> keeps s s' \<and> curr_seq_lengths s' = curr_seq_lengths s \<and> mapped_pages s' =
          (mapped_pages s)[r := of_nat (min (mapped s r + unat n) (unat (max_pages_per_req (cfg s))))])
      (\<lambda>e _. is_exit e)" if "unat n \<le> free_blocks (abs_blocks s)"
    using grow_loop_refines [OF assms that, of api False] unfolding refines_def
    by (rule holds_conseq) (auto dest!: arg_cong [where f = held] intro!: conc)
  show ?thesis
  proof (cases "n = 0")
    case True
    then show ?thesis using assms le by (simp add: grow_kvcache_phys_def vinv_lengths)
  next
    case False
    then show ?thesis
      using assms loop by (auto simp: grow_kvcache_phys_def kvblocks_available_abs elim!: holds_conseq)
  qed
qed

lemma unat_of_nat_min: "unat (of_nat (min k (unat (m :: u64))) :: u64) = min k (unat m)"
proof -
  have "min k (unat m) < 2 ^ 64" using unat_lt_2pow [of m] by linarith
  then show ?thesis by (rule unat_of_nat_u64)
qed

lemma grow_async_grown:
  assumes "vinv s" "r < batch (cfg s)"
  shows "holds (grow_kvcache_phys api r n False s) (\<lambda>_. grown s) (\<lambda>e _. is_exit e)"
proof (rule holds_conseq [OF grow_async_holds [OF assms]])
  fix u :: unit and s'
  assume *: "vinv s' \<and> keeps s s' \<and> curr_seq_lengths s' = curr_seq_lengths s \<and>
       (unat n \<le> free_blocks (abs_blocks s) \<longrightarrow> mapped_pages s' =
          (mapped_pages s)[r := of_nat (min (mapped s r + unat n) (unat (max_pages_per_req (cfg s))))]) \<and>
       (\<not> unat n \<le> free_blocks (abs_blocks s) \<longrightarrow> s' = s)"
  have "mapped s q \<le> mapped s' q" if "q < batch (cfg s)" for q
  proof (cases "unat n \<le> free_blocks (abs_blocks s)")
    case True
    have "mapped s r \<le> unat (max_pages_per_req (cfg s))" using assms by (simp add: vinv_def)
    then show ?thesis
      using * True that assms(1) by (cases "q = r") (simp_all add: vinv_lengths unat_of_nat_min)
  qed (use * in simp)
  then show "grown s s'" using * by (simp add: grown_def)
qed

section \<open>The eager passes\<close>

lemma eager_pass_grown:
  assumes "vinv s" "set rs \<subseteq> {..<batch (cfg s)}"
  shows "holds (eager_pass api k rs n s) (\<lambda>_. grown s) (\<lambda>e _. is_exit e)"
  using assms
proof (induction rs arbitrary: n s)
  case (Cons r rs)
  have "holds (eager_pass api k rs m t) (\<lambda>_. grown s) (\<lambda>e _. is_exit e)" if "grown s t" for m t
  proof -
    have "holds (eager_pass api k rs m t) (\<lambda>_. grown t) (\<lambda>e _. is_exit e)"
      using Cons.IH [of t m] Cons.prems grownD [OF that] by simp
    then show ?thesis by (rule holds_conseq) (auto intro: grown_trans [OF that])
  qed
  then show ?case
    using Cons.prems
    by (auto simp: Let_def intro!: holds_conseq [OF grow_async_grown])
qed (simp add: grown_refl)

lemma eager_loop_grown:
  assumes "vinv s"
  shows "holds (eager_loop api ks n s) (\<lambda>_. grown s) (\<lambda>e _. is_exit e)"
  using assms
proof (induction ks arbitrary: n s)
  case (Cons k ks)
  have "holds (eager_loop api ks m t) (\<lambda>_. grown s) (\<lambda>e _. is_exit e)" if "grown s t" for m t
  proof -
    have "holds (eager_loop api ks m t) (\<lambda>_. grown t) (\<lambda>e _. is_exit e)"
      using Cons.IH [of t m] grownD [OF that] by simp
    then show ?thesis by (rule holds_conseq) (auto intro: grown_trans [OF that])
  qed
  then show ?case
    using Cons.prems
    by (auto simp: atLeast0LessThan split: prod.split
        intro!: holds_conseq [OF eager_pass_grown [OF Cons.prems]])
qed (simp add: grown_refl)

section \<open>Reclamation by the manager\<close>

lemma refines_spared:
  assumes "refines m s (curr_seq_lengths s) (Some b)" "vinv s"
    and "\<And>r. r < batch (cfg s) \<Longrightarrow> min (mapped s r) (req_blocks s r) \<le> held b ! r"
  shows "holds m (\<lambda>_. spared s) (\<lambda>e _. is_exit e)"
proof (rule holds_conseq [OF assms(1) [unfolded refines_def]])
  fix u :: unit and s'
  assume s': "vinv s' \<and> keeps s s' \<and> curr_seq_lengths s' = curr_seq_lengths s \<and> Some b = Some (abs_blocks s')"
  then have "held b ! r = mapped s' r" if "r < batch (cfg s)" for r
    using that by (auto simp: vinv_lengths keeps_cfg)
  then show "spared s s'" using s' assms(3) by (auto simp: spared_def)
qed simp

lemma reclaim_spared:
  assumes "vinv s"
  shows "holds (reclaim_kvblocks_on_demand api n s) (\<lambda>_. spared s) (\<lambda>e _. is_exit e)"
proof (rule refines_spared [OF reclaim_refines [OF assms] assms])
  fix r
  assume "r < batch (cfg s)"
  moreover have "trimmed (abs_blocks s) (s_reclaim (unat n) (rev [0..<nreq (abs_blocks s)]) (abs_blocks s))"
    by (rule s_reclaim_trimmed [OF abs_bwf [OF assms]]) auto
  ultimately show "min (mapped s r) (req_blocks s r) \<le>
      held (s_reclaim (unat n) (rev [0..<nreq (abs_blocks s)]) (abs_blocks s)) ! r"
    using assms by (simp add: trimmed_def vinv_lengths)
qed

lemma unmap_inactive_spared:
  assumes "vinv s" "r < batch (cfg s)" "\<not> is_active_req s r" "get_req_pages s r \<noteq> 0"
  shows "holds (unmap_req_page_one api r s) (\<lambda>_. spared s) (\<lambda>e _. is_exit e)"
proof -
  have pos: "0 < mapped s r" using assms(4) by (simp add: get_req_pages_def unat_gt_0)
  have "req_blocks s r = 0"
    using assms(3) vinv_lengths(3) [OF assms(1)] by (simp add: is_active_req_def geom_def)
  then have "min (mapped s q) (req_blocks s q) \<le> unat ((mapped_pages s)[r := v] ! q)" for q v
    by (cases "q = r") simp_all
  then show ?thesis
    by (intro holds_conseq [OF unmap_block_inv [OF assms(1,2) pos]]) (simp_all add: spared_def)
qed

lemma do_reclaim_spared:
  assumes "vinv s"
  shows "holds (do_reclaim_pages api s) (\<lambda>_. spared s) (\<lambda>e _. is_exit e)"
proof -
  have "holds (reclaim_one api p rs s) (\<lambda>_. spared s) (\<lambda>e _. is_exit e)"
    if "set rs \<subseteq> {..<batch (cfg s)}" for p rs
    using that by (induction rs) (auto simp: unmap_inactive_spared assms grown_refl grown_spared)
  then show ?thesis
    using assms by (simp add: do_reclaim_pages_def grown_refl grown_spared atLeast0LessThan)
qed

lemma holds_spared_trans:
  "spared s t \<Longrightarrow> holds m (\<lambda>_. spared t) E \<Longrightarrow> holds m (\<lambda>_. spared s) E"
  by (auto elim!: holds_conseq intro: spared_trans)

lemma manager_spared:
  assumes "vinv s"
  shows "holds (do_kvcache_memory_management api s) (\<lambda>_. spared s) (\<lambda>e _. is_exit e)"
proof -
  have self: "spared t t" if "vinv t" for t :: "'g vst"
    using that by (simp add: grown_refl grown_spared)
  have tail: "holds (if \<not> kvblocks_available t n then Ret () t
      else obind (eager_loop api [1..<EAGER_NUM_STEPS] 0 t) (\<lambda>_ s.
           if n \<noteq> 0 then Ret () s else do_reclaim_pages api s)) (\<lambda>_. spared s) (\<lambda>e _. is_exit e)"
    if t: "spared s t" for t n
  proof -
    have inv: "vinv t" using t by (simp add: spared_def)
    have "holds (obind (eager_loop api [1..<EAGER_NUM_STEPS] 0 t) (\<lambda>_ s.
           if n \<noteq> 0 then Ret () s else do_reclaim_pages api s)) (\<lambda>_. spared t) (\<lambda>e _. is_exit e)"
      unfolding holds_obind
      by (rule holds_conseq [OF eager_loop_grown [OF inv]])
        (use grown_spared grownD(1) in \<open>auto intro!: holds_spared_trans [OF grown_spared do_reclaim_spared]\<close>)
    then have "holds (if \<not> kvblocks_available t n then Ret () t
      else obind (eager_loop api [1..<EAGER_NUM_STEPS] 0 t) (\<lambda>_ s.
           if n \<noteq> 0 then Ret () s else do_reclaim_pages api s)) (\<lambda>_. spared t) (\<lambda>e _. is_exit e)"
      using self [OF inv] by simp
    then show ?thesis by (rule holds_spared_trans [OF t])
  qed
  have "holds (if \<not> kvblocks_available s n then reclaim_kvblocks_on_demand api n s else Ret () s)
      (\<lambda>_. spared s) (\<lambda>e _. is_exit e)" for n
    using reclaim_spared [OF assms] self [OF assms] by simp
  then show ?thesis
    unfolding do_kvcache_memory_management_def Let_def holds_obind
    by (rule holds_conseq) (rule tail)
qed

section \<open>The fast path covers the next token\<close>

abbreviation next_blocks :: "'g vst \<Rightarrow> nat \<Rightarrow> nat" where
  "next_blocks s r \<equiv> unat (tokens_to_pages (cfg s) (curr_seq_lengths s ! r + 1))"

abbreviation wanted :: "'g vst \<Rightarrow> nat \<Rightarrow> nat" where
  "wanted s r \<equiv> unat (need_new_page_async s r 1)"

lemma i2u_1 [simp]: "i2u 1 = 1"
  by (simp add: scast_eq)

lemma wanted_eq:
  "wanted s r = (if \<not> is_active_req s r \<or> mapped_pages s ! r = max_pages_per_req (cfg s) then 0
     else next_blocks s r - mapped s r)"
  by (auto simp: need_new_page_async_def Let_def get_req_pages_def get_req_seq_length_def
      word_le_nat_alt unat_sub)

lemma grow_wanted:
  assumes inv: "vinv s" and r: "r < batch (cfg s)" and fits: "wanted s r \<le> free_blocks (abs_blocks s)"
    and cap: "is_active_req s r \<Longrightarrow> next_blocks s r \<le> unat (max_pages_per_req (cfg s))"
  shows "holds (grow_kvcache_phys api r (need_new_page_async s r 1) False s)
    (\<lambda>_ t. grown s t \<and> (is_active_req s r \<longrightarrow> next_blocks s r \<le> mapped t r) \<and>
       (\<forall>q. q \<noteq> r \<longrightarrow> mapped_pages t ! q = mapped_pages s ! q) \<and>
       free_blocks (abs_blocks s) \<le> free_blocks (abs_blocks t) + wanted s r)
    (\<lambda>e _. is_exit e)"
proof -
  let ?n = "need_new_page_async s r 1" and ?M = "unat (max_pages_per_req (cfg s))"
  let ?v = "min (mapped s r + wanted s r) ?M"
  have post: "(is_active_req s r \<longrightarrow> next_blocks s r \<le> mapped t r) \<and>
       (\<forall>q. q \<noteq> r \<longrightarrow> mapped_pages t ! q = mapped_pages s ! q) \<and>
       free_blocks (abs_blocks s) \<le> free_blocks (abs_blocks t) + wanted s r"
    if t: "vinv t" "keeps s t" "curr_seq_lengths t = curr_seq_lengths s"
      "mapped_pages t = (mapped_pages s)[r := of_nat ?v]" for t
  proof -
    have len: "r < length (mapped_pages s)" using inv r by (simp add: vinv_lengths)
    have rt: "mapped t r = ?v" using t(4) len by (simp only: nth_list_update_eq unat_of_nat_min)
    have "next_blocks s r \<le> ?v" if "is_active_req s r"
      using cap [OF that] that wanted_eq [of s r] by auto
    moreover have "in_use (abs_blocks t) + mapped s r = in_use (abs_blocks s) + ?v"
      using in_use_update [of r "abs_blocks s" ?v] len abs_keeps [OF t(2,3,4)]
      by (simp add: unat_of_nat_min)
    moreover have "cap (abs_blocks t) = cap (abs_blocks s)"
      using t(2) by (simp add: abs_blocks_def keeps_def)
    ultimately show ?thesis
      using rt t(4) by (auto simp: free_blocks_def)
  qed
  have "holds (grow_kvcache_phys api r ?n False s) (\<lambda>_ t. vinv t \<and> keeps s t \<and>
      curr_seq_lengths t = curr_seq_lengths s \<and> mapped_pages t = (mapped_pages s)[r := of_nat ?v])
      (\<lambda>e _. is_exit e)"
    by (rule holds_conseq [OF grow_async_holds [OF inv r]]) (use fits in simp_all)
  then have "holds (grow_kvcache_phys api r ?n False s) (\<lambda>_ t. (vinv t \<and> keeps s t \<and>
      curr_seq_lengths t = curr_seq_lengths s \<and> mapped_pages t = (mapped_pages s)[r := of_nat ?v]) \<and> grown s t)
      (\<lambda>e _. is_exit e \<and> is_exit e)"
    unfolding holds_conj using grow_async_grown [OF inv r] by blast
  then show ?thesis
    by (rule holds_conseq) (use post in blast)+
qed

lemma eager_pass_covers:
  assumes "vinv s" "distinct rs" "set rs \<subseteq> {..<batch (cfg s)}"
    and "sum_list (map (wanted s) rs) \<le> free_blocks (abs_blocks s)"
    and "\<And>r. r \<in> set rs \<Longrightarrow> is_active_req s r \<Longrightarrow> next_blocks s r \<le> unat (max_pages_per_req (cfg s))"
  shows "holds (eager_pass api 1 rs n s)
    (\<lambda>p t. \<not> snd p \<and> grown s t \<and> (\<forall>r \<in> set rs. is_active_req s r \<longrightarrow> next_blocks s r \<le> mapped t r))
    (\<lambda>e _. is_exit e)"
  using assms
proof (induction rs arbitrary: n s)
  case Nil
  then show ?case by (simp add: grown_refl)
next
  case (Cons r rs)
  let ?Q = "\<lambda>p t. \<not> snd p \<and> grown s t \<and> (\<forall>r \<in> set (r # rs). is_active_req s r \<longrightarrow> next_blocks s r \<le> mapped t r)"
  have rest: "holds (eager_pass api 1 rs m t) ?Q (\<lambda>e _. is_exit e)"
    if t: "grown s t" "is_active_req s r \<longrightarrow> next_blocks s r \<le> mapped t r"
      "\<forall>q. q \<noteq> r \<longrightarrow> mapped_pages t ! q = mapped_pages s ! q"
      "free_blocks (abs_blocks s) \<le> free_blocks (abs_blocks t) + wanted s r" for m t
  proof -
    note gD = grownD [OF t(1)]
    have seq: "curr_seq_lengths t = curr_seq_lengths s" using t(1) by (simp add: grown_def)
    have same: "wanted t q = wanted s q" if "q \<in> set rs" for q
    proof -
      have "q \<noteq> r" using that Cons.prems(2) by auto
      then show ?thesis using t(3) seq gD(3) by (simp add: wanted_eq is_active_req_def)
    qed
    have "sum_list (map (wanted t) rs) \<le> free_blocks (abs_blocks t)"
      using Cons.prems(4) t(4) same by (simp cong: map_cong)
    then have "holds (eager_pass api 1 rs m t)
        (\<lambda>p u. \<not> snd p \<and> grown t u \<and> (\<forall>r \<in> set rs. is_active_req t r \<longrightarrow> next_blocks t r \<le> mapped u r))
        (\<lambda>e _. is_exit e)"
      using Cons.prems gD seq by (intro Cons.IH) (auto simp: is_active_req_def)
    then show ?thesis
    proof (rule holds_conseq)
      fix p u
      assume u: "\<not> snd p \<and> grown t u \<and> (\<forall>r \<in> set rs. is_active_req t r \<longrightarrow> next_blocks t r \<le> mapped u r)"
      then have "mapped t r \<le> mapped u r" using Cons.prems(3) gD(3) by (simp add: grown_def)
      then show "?Q p u"
        using u t(2) grown_trans [OF t(1)] seq gD(3) by (auto simp: is_active_req_def)
    qed
  qed
  have "holds (grow_kvcache_phys api r (need_new_page_async s r 1) False s)
      (\<lambda>_ t. \<forall>m. holds (eager_pass api 1 rs m t) ?Q (\<lambda>e _. is_exit e)) (\<lambda>e _. is_exit e)"
    by (rule holds_conseq [OF grow_wanted]) (use Cons.prems rest in auto)
  then show ?case
    by (simp add: Let_def) (auto elim!: holds_conseq)
qed

lemma unat_sum_list_u64:
  fixes f :: "'a \<Rightarrow> u64"
  assumes "(\<Sum>x\<leftarrow>xs. unat (f x)) < 2 ^ 64"
  shows "unat (\<Sum>x\<leftarrow>xs. f x) = (\<Sum>x\<leftarrow>xs. unat (f x))"
  using assms
proof (induction xs)
  case (Cons x xs)
  then have "unat (\<Sum>x\<leftarrow>xs. f x) = (\<Sum>x\<leftarrow>xs. unat (f x))" by simp
  then show ?case using Cons.prems by (simp add: unat_add_no_wrap)
qed simp

lemma do_reclaim_active:
  assumes "vinv s"
  shows "holds (do_reclaim_pages api s)
    (\<lambda>_ t. \<forall>q < batch (cfg s). is_active_req s q \<longrightarrow> mapped t q = mapped s q) (\<lambda>e _. is_exit e)"
proof -
  have "holds (unmap_req_page_one api r s)
      (\<lambda>_ t. \<forall>q < batch (cfg s). is_active_req s q \<longrightarrow> mapped t q = mapped s q) (\<lambda>e _. is_exit e)"
    if "r < batch (cfg s)" "\<not> is_active_req s r" "get_req_pages s r \<noteq> 0" for r
  proof -
    have pos: "0 < mapped s r" using that(3) by (simp add: get_req_pages_def unat_gt_0)
    have "(mapped_pages s)[r := v] ! q = mapped_pages s ! q" if "is_active_req s q" for q v
      using that \<open>\<not> is_active_req s r\<close> by (cases "q = r") simp_all
    then show ?thesis
      by (intro holds_conseq [OF unmap_block_inv [OF assms that(1) pos]]) auto
  qed
  then have "holds (reclaim_one api p rs s)
      (\<lambda>_ t. \<forall>q < batch (cfg s). is_active_req s q \<longrightarrow> mapped t q = mapped s q) (\<lambda>e _. is_exit e)"
    if "set rs \<subseteq> {..<batch (cfg s)}" for p rs
    using that by (induction rs) auto
  then show ?thesis by (simp add: do_reclaim_pages_def atLeast0LessThan)
qed

text \<open>With enough free blocks, the passes of the manager leave every active request its next token.\<close>

lemma eager_loop_covers:
  assumes "vinv s" "(\<Sum>r\<leftarrow>[0..<batch (cfg s)]. wanted s r) \<le> free_blocks (abs_blocks s)"
    and "\<And>r. r < batch (cfg s) \<Longrightarrow> is_active_req s r \<Longrightarrow> next_blocks s r \<le> unat (max_pages_per_req (cfg s))"
  shows "holds (eager_loop api [1..<EAGER_NUM_STEPS] n s)
    (\<lambda>_ t. grown s t \<and> (\<forall>r < batch (cfg s). is_active_req s r \<longrightarrow> next_blocks s r \<le> mapped t r))
    (\<lambda>e _. is_exit e)"
proof -
  let ?cov = "\<lambda>t. grown s t \<and> (\<forall>r < batch (cfg s). is_active_req s r \<longrightarrow> next_blocks s r \<le> mapped t r)"
  have first: "holds (eager_pass api 1 [0..<batch (cfg s)] n s) (\<lambda>p t. \<not> snd p \<and> ?cov t) (\<lambda>e _. is_exit e)"
    by (rule holds_conseq [OF eager_pass_covers]) (use assms in \<open>auto simp: atLeast0LessThan\<close>)
  have rest: "holds (eager_loop api ks m t) (\<lambda>_. ?cov) (\<lambda>e _. is_exit e)" if t: "?cov t" for ks m t
  proof (rule holds_conseq [OF eager_loop_grown])
    show "vinv t" using t grownD(1) by blast
  next
    fix u v
    assume g: "grown t v"
    then have "mapped t r \<le> mapped v r" if "r < batch (cfg s)" for r
      using that t grownD(3) [of s t] by (simp add: grown_def)
    then show "?cov v" using t g grown_trans order_trans by blast
  qed simp
  have steps: "[1..<EAGER_NUM_STEPS] = 1 # [2..<EAGER_NUM_STEPS]"
    by (simp add: EAGER_NUM_STEPS_def upt_conv_Cons)
  show ?thesis
    unfolding steps eager_loop.simps holds_obind
    by (rule holds_conseq [OF first]) (use rest in \<open>auto split: prod.split\<close>)
qed

lemma manager_covers:
  assumes inv: "vinv s" and free: "(\<Sum>r < batch (cfg s). wanted s r) \<le> free_blocks (abs_blocks s)"
    and cap: "\<And>r. r < batch (cfg s) \<Longrightarrow> is_active_req s r \<Longrightarrow> next_blocks s r \<le> unat (max_pages_per_req (cfg s))"
  shows "holds (do_kvcache_memory_management api s)
    (\<lambda>_ t. \<forall>r < batch (cfg s). is_active_req s r \<longrightarrow> next_blocks s r \<le> mapped t r) (\<lambda>e _. is_exit e)"
proof -
  let ?cov = "\<lambda>t. \<forall>r < batch (cfg s). is_active_req s r \<longrightarrow> next_blocks s r \<le> mapped t r"
  have sum: "(\<Sum>r\<leftarrow>[0..<batch (cfg s)]. wanted s r) \<le> free_blocks (abs_blocks s)"
    using free by (simp add: interv_sum_list_conv_sum_set_nat atLeast0LessThan)
  have "free_blocks (abs_blocks s) < 2 ^ 64"
    using abs_free [OF inv] pool_bound [OF inv] div_le_dividend le_less_trans by metis
  then have avail: "kvblocks_available s (nr_required_next s)"
    using sum inv by (simp add: nr_required_next_def kvblocks_available_abs unat_sum_list_u64)
  have fin: "holds (do_reclaim_pages api t) (\<lambda>_. ?cov) (\<lambda>e _. is_exit e)" if t: "grown s t" "?cov t" for t
    by (rule holds_conseq [OF do_reclaim_active [OF grownD(1) [OF t(1)]]])
      (use t grownD(3) [OF t(1)] in \<open>auto simp: is_active_req_def grown_def\<close>)
  have "holds (eager_loop api [1..<EAGER_NUM_STEPS] 0 s)
      (\<lambda>_ t. holds (if nr_required_next s \<noteq> 0 then Ret () t else do_reclaim_pages api t) (\<lambda>_. ?cov) (\<lambda>e _. is_exit e))
      (\<lambda>e _. is_exit e)"
    by (rule holds_conseq [OF eager_loop_covers [OF inv sum cap]]) (use fin in auto)
  then show ?thesis
    using avail by (simp add: do_kvcache_memory_management_def Let_def)
qed

end
