(* ===== verification/Vattn_Api.thy ===== *)
theory Vattn_Api
  imports Vattn_Alloc
begin

text \<open>
  The functions of the Python module (\<^verbatim>\<open>src/vattention/apis.h\<close>): thin wrappers around the
  allocator object, with the conversions their C++ signatures imply. \<^verbatim>\<open>unsigned long\<close> arguments that
  reach an \<^verbatim>\<open>int\<close> parameter keep their low 32 bits, and \<^verbatim>\<open>reserve_physical_pages\<close> returns its
  64-bit count as an \<^verbatim>\<open>int\<close>. \<^verbatim>\<open>step_async\<close> is in \<^verbatim>\<open>Vattn_Async\<close>.
\<close>

definition api_init_kvcache ::
  "'g gpu_api \<Rightarrow> u64 \<Rightarrow> u64 \<Rightarrow> u64 \<Rightarrow> u64 \<Rightarrow> u64 \<Rightarrow> i32 \<Rightarrow> scalar_type \<Rightarrow> i32 \<Rightarrow> u64 \<Rightarrow> bool
   \<Rightarrow> 'g vst \<Rightarrow> ('g, tensor list) vout" where
  "api_init_kvcache api num_layers' num_kv_heads' head_size' max_batch_size' max_context_length'
     device' dtype' itemsize page_size' megacache s =
     obind (init_kvcache api (ucast num_layers') (ucast num_kv_heads') (ucast head_size')
              (ucast max_batch_size') max_context_length' device' dtype' itemsize page_size' megacache s)
       (\<lambda>_ s. init_kvcache_virtual api s)"

definition api_init_kvcache_component_spec ::
  "'g gpu_api \<Rightarrow> component_payload \<Rightarrow> 'g vst \<Rightarrow> ('g, tensor list) vout" where
  "api_init_kvcache_component_spec api payload s =
     obind (init_kvcache_component_spec api payload s)
       (\<lambda>_ s. init_kvcache_component_spec_virtual api s)"

definition api_reserve_physical_pages :: "'g gpu_api \<Rightarrow> u64 \<Rightarrow> 'g vst \<Rightarrow> ('g, i32) vout" where
  "api_reserve_physical_pages api free_memory s =
     obind (reserve_physical_pages api free_memory s) (\<lambda>n s. Ret (ucast n) s)"

definition api_step :: "'g gpu_api \<Rightarrow> u64 list \<Rightarrow> bool \<Rightarrow> 'g vst \<Rightarrow> ('g, unit) vout" where
  "api_step api seq_lens eager_reclaim s = step_sync api seq_lens eager_reclaim s"

definition api_set_verbose :: "bool \<Rightarrow> 'g vst \<Rightarrow> 'g vst" where
  "api_set_verbose val s = s\<lparr>verbose := val\<rparr>"

definition api_cleanup :: "'g gpu_api \<Rightarrow> 'g vst \<Rightarrow> ('g, unit) vout" where
  "api_cleanup api s = cleanup api s"

definition api_set_deferred_reclamation :: "bool \<Rightarrow> 'g vst \<Rightarrow> 'g vst" where
  "api_set_deferred_reclamation val s = set_deferred_reclamation val s"

definition api_get_allocator_debug_info :: "'g vst \<Rightarrow> allocator_debug_info" where
  "api_get_allocator_debug_info s = get_allocator_debug_info s"

text \<open>The query helpers divide by \<^verbatim>\<open>tokens_per_page\<close>, which clean-up sets to zero.\<close>

definition debug_tokens_to_pages :: "u64 \<Rightarrow> 'g vst \<Rightarrow> ('g, u64) vout" where
  "debug_tokens_to_pages num_tokens s =
     (if tokens_per_page (cfg s) = 0 then Fail DivideByZero s
      else Ret (tokens_to_pages (cfg s) num_tokens) s)"

definition debug_fragmentation_metrics ::
  "'d dbl_ops \<Rightarrow> u64 \<Rightarrow> u64 \<Rightarrow> 'g vst \<Rightarrow> 'd fragmentation_metrics" where
  "debug_fragmentation_metrics d seq_len mapped_blocks s =
     compute_fragmentation_metrics d (cfg s) seq_len mapped_blocks"

definition debug_request_mapped_blocks :: "int \<Rightarrow> 'g vst \<Rightarrow> ('g, u64) vout" where
  "debug_request_mapped_blocks reqId s =
     (if reqId < 0 \<or> int (length (mapped_pages s)) \<le> reqId then Fail OutOfRange s
      else Ret (get_req_pages s (nat reqId)) s)"

definition map_common_pages :: "'g gpu_api \<Rightarrow> u64 \<Rightarrow> 'g vst \<Rightarrow> ('g, unit) vout" where
  "map_common_pages api num_tokens s = map_common_pages_in_batch api num_tokens s"

definition api_alloc_new_batch_idx :: "u64 \<Rightarrow> 'g vst \<Rightarrow> ('g, int) vout" where
  "api_alloc_new_batch_idx seqlen s = alloc_new_batch_idx seqlen s"

definition api_free_batch_idx :: "int \<Rightarrow> 'g vst \<Rightarrow> ('g, unit) vout" where
  "api_free_batch_idx reqId s = free_batch_idx reqId s"

definition num_free_kvblocks :: "'g vst \<Rightarrow> u64" where
  "num_free_kvblocks s = get_num_free_kvblocks s"

end
