(* ===== verification/Vattn_Boot.thy ===== *)
theory Vattn_Boot
  imports Vattn_Manager Vattn_Api
begin

text \<open>
  Initialisation establishes the invariant. The assertions of \<^verbatim>\<open>init_kvcache\<close> bound the
  geometry so far below the range of \<^verbatim>\<open>u64\<close> that no size or offset of the allocator wraps around;
  the component-spec path has no assertions, so there the bounds are a premise on the payload.
\<close>

section \<open>What the initialisation routines leave\<close>

text \<open>The part of the state that choosing and opening a backend does not touch.\<close>

definition boot_frame :: "'g vst \<Rightarrow> 'g vst \<Rightarrow> bool" where
  "boot_frame s t \<longleftrightarrow> cfg t = cfg s \<and> cuda_pages t = cuda_pages s \<and> uvm_pages t = uvm_pages s \<and>
     cuda_pagemap t = cuda_pagemap s \<and> uvm_pagemap t = uvm_pagemap s"

lemma boot_frame_refl [simp]: "boot_frame s s"
  by (simp add: boot_frame_def)

definition valid_page_size :: "u64 \<Rightarrow> bool" where
  "valid_page_size ps \<longleftrightarrow> ps = 64 * KB \<or> ps = 128 * KB \<or> ps = 256 * KB \<or> ps = 2 * MB"

lemma valid_page_size_bounds:
  "valid_page_size ps \<Longrightarrow> ps \<noteq> 0" "valid_page_size ps \<Longrightarrow> unat ps \<le> 2097152"
  by (auto simp: valid_page_size_def)

lemma do_cuda_init_post:
  "holds (do_cuda_init api dev ps s) (\<lambda>p t. p = ps \<and> valid_page_size ps \<and> boot_frame s t) (\<lambda>_ _. True)"
proof (cases "is_uvm_backend ps")
  case True
  have "\<exists>r t. vattn_init api dev ps s = (r, t) \<and> boot_frame s t"
    by (auto simp: vattn_init_def Let_def boot_frame_def split: prod.splits)
  then show ?thesis
    using True by (auto simp: do_cuda_init_def do_cuda_uvm_init_def CHECK_VATTN_def valid_page_size_def)
next
  case False
  then show ?thesis
    by (auto simp: do_cuda_init_def do_cuda_default_init_def CHECK_CUDA_def CHECK_CUDA_out_def
        is_uvm_backend_def valid_page_size_def boot_frame_def split: prod.splits)
qed

text \<open>The configuration after both tails, relative to the one before.\<close>

definition configured :: "vcfg \<Rightarrow> vcfg \<Rightarrow> bool" where
  "configured c d \<longleftrightarrow> valid_page_size (page_size c) \<and> page_size d = page_size c \<and> tokens_per_page d \<noteq> 0 \<and>
     (\<not> component_spec_enabled c \<longrightarrow> tokens_per_page d = page_size c div i2u (dense_token_bytes c)) \<and>
     (component_spec_enabled c \<longrightarrow> tokens_per_page d =
        (if tokens_per_page c = 0 then page_size c div page_buffer_token_bytes c else tokens_per_page c)) \<and>
     max_pages_per_req d = tokens_to_pages d (max_context_length c) \<and>
     virt_buff_size_per_req d = max_pages_per_req d * page_size c \<and>
     num_layers d = num_layers c \<and> max_batch_size d = max_batch_size c \<and>
     max_context_length d = max_context_length c \<and> megacache_enabled d = megacache_enabled c \<and>
     megacache_enabled_global d = megacache_enabled_global c \<and>
     cache_component_token_dims d = cache_component_token_dims c"

lemma configured_fields:
  assumes "configured c d"
  shows "page_size d = page_size c" "num_layers d = num_layers c" "max_batch_size d = max_batch_size c"
    "max_context_length d = max_context_length c"
  using assms by (simp_all add: configured_def)

definition empty_batch :: "'g vst \<Rightarrow> bool" where
  "empty_batch t \<longleftrightarrow> mapped_pages t = replicate (batch (cfg t)) 0 \<and>
     curr_seq_lengths t = replicate (batch (cfg t)) 0"

definition same_pages :: "'g vst \<Rightarrow> 'g vst \<Rightarrow> bool" where
  "same_pages s t \<longleftrightarrow> cuda_pages t = cuda_pages s \<and> uvm_pages t = uvm_pages s \<and>
     cuda_pagemap t = cuda_pagemap s \<and> uvm_pagemap t = uvm_pagemap s"

lemma init_kv_block_size_post:
  "holds (init_kv_block_size api s)
     (\<lambda>_ t. valid_page_size (page_size (cfg s)) \<and> same_pages s t \<and>
        (\<exists>tp. cfg t = (cfg s)\<lparr>tokens_per_page := tp\<rparr> \<and>
          (\<not> component_spec_enabled (cfg s) \<longrightarrow> tp = page_size (cfg s) div i2u (dense_token_bytes (cfg s))) \<and>
          (component_spec_enabled (cfg s) \<longrightarrow> tp =
             (if tokens_per_page (cfg s) = 0 then page_size (cfg s) div page_buffer_token_bytes (cfg s)
              else tokens_per_page (cfg s)))))
     (\<lambda>_ _. True)"
proof -
  have c: "(cfg s)\<lparr>page_size := page_size (cfg s)\<rparr> = cfg s" by simp
  have d: "(cfg s)\<lparr>tokens_per_page := tokens_per_page (cfg s)\<rparr> = cfg s" by simp
  show ?thesis
    unfolding init_kv_block_size_def holds_obind
  proof (rule holds_conseq [OF do_cuda_init_post], goal_cases)
    case (1 p t)
    then have "p = page_size (cfg s)" "cfg t = cfg s" by (simp_all add: boot_frame_def)
    then show ?case
      using 1 d by (auto simp: Let_def c same_pages_def boot_frame_def)
  qed simp
qed

lemma tokens_to_pages_cong:
  "tokens_per_page d = tokens_per_page c \<Longrightarrow> tokens_to_pages d n = tokens_to_pages c n"
  by (simp add: tokens_to_pages_def)

lemma init_buffer_sizes_post:
  "holds (init_buffer_sizes s)
     (\<lambda>_ t. same_pages s t \<and> tokens_per_page (cfg s) \<noteq> 0 \<and>
        (\<exists>vt vs vn. cfg t = (cfg s)\<lparr>virt_buff_size_per_token := vt,
           max_pages_per_req := tokens_to_pages (cfg s) (max_context_length (cfg s)),
           virt_buff_size_per_req := tokens_to_pages (cfg s) (max_context_length (cfg s)) * page_size (cfg s),
           virt_buff_size := vs, virt_buff_num_kv_tokens := vn\<rparr>))
     (\<lambda>_ _. True)"
  by (simp add: init_buffer_sizes_def Let_def same_pages_def tokens_to_pages_def)
    blast

lemma init_tail_post:
  "holds (init_tail api s)
     (\<lambda>_ t. configured (cfg s) (cfg t) \<and> empty_batch t \<and> same_pages s t) (\<lambda>_ _. True)"
  unfolding init_tail_def holds_obind
  by (rule holds_conseq [OF init_kv_block_size_post], rule holds_conseq [OF init_buffer_sizes_post])
    (simp add: Let_def init_kvcache_batch_metadata_def empty_batch_def same_pages_def,
      auto simp: configured_def tokens_to_pages_def batch_def)

section \<open>Geometry\<close>

lemma ceil_div_le_self: "0 < d \<Longrightarrow> ceil_div n d \<le> n"
  by (simp add: ceil_div_le_iff)

lemma configured_geom:
  assumes "configured c d" "0 < sint (num_layers c)" "0 < max_context_length c"
    and "megacache_enabled_global c = megacache_enabled c"
    and "length (cache_component_token_dims c) = 2"
    and "unat (max_context_length c) * unat (page_size c) * batch c < 2 ^ 64"
    and "unat (max_context_length c) + unat (tokens_per_page d) \<le> 2 ^ 64"
  shows "geom d"
proof -
  have t: "tokens_per_page d \<noteq> 0" using assms(1) by (simp add: configured_def)
  have m: "unat (max_pages_per_req d) = ceil_div (unat (max_context_length c)) (unat (tokens_per_page d))"
    using assms(1,7) t by (simp add: configured_def unat_tokens_to_pages)
  have "unat (max_pages_per_req d) \<le> unat (max_context_length c)"
    using t m by (simp add: ceil_div_le_self unat_gt_0)
  then have "unat (max_pages_per_req d) * unat (page_size c) * batch c
      \<le> unat (max_context_length c) * unat (page_size c) * batch c"
    by (intro mult_le_mono1)
  then have "unat (max_pages_per_req d) * unat (page_size c) * batch c < 2 ^ 64"
    using assms(6) by linarith
  then show ?thesis
    using assms valid_page_size_bounds [of "page_size c"]
    by (simp add: geom_def configured_def batch_def)
qed

definition fresh :: "'g vst \<Rightarrow> bool" where
  "fresh s \<longleftrightarrow> cuda_pages s = [] \<and> uvm_pages s = [] \<and> cuda_pagemap s = Map.empty \<and> uvm_pagemap s = Map.empty"

lemma empty_vinv:
  assumes "geom (cfg t)" "empty_batch t" "same_pages s t" "fresh s"
  shows "vinv t"
  using assms
  by (auto simp: vinv_def empty_batch_def same_pages_def fresh_def all_pages_def free_pool_def
      active_pagemap_def pm_pages_def)

lemma unat_sint_pos: "0 \<le> sint (x :: u64) \<Longrightarrow> unat x = nat (sint x)"
proof -
  assume "0 \<le> sint x"
  moreover have "sint x < 2 ^ 63" using sint_lt [of x] by simp
  ultimately show ?thesis
    by (simp add: unat_eq_nat_uint uint_sint take_bit_int_eq_self)
qed

text \<open>The dense path: its assertions are all the invariant needs.\<close>

lemma init_kvcache_post:
  "holds (init_kvcache api nl nkv hs mb mc dev ty isz ps mega s)
     (\<lambda>_ t. geom (cfg t) \<and> empty_batch t \<and> same_pages s t \<and> page_size (cfg t) = ps \<and>
        max_batch_size (cfg t) = mb \<and> max_context_length (cfg t) = mc \<and> num_layers (cfg t) = nl)
     (\<lambda>_ _. True)"
proof (cases "0 < sint mb \<and> sint mb < 1000 \<and> 0 < sint mc \<and> sint mc < 1000000 \<and>
    0 < sint nl \<and> sint nl < 100 \<and> 0 < sint nkv \<and> sint nkv < 256")
  case False
  then show ?thesis by (auto simp: init_kvcache_def)
next
  case True
  define tb where "tb = i2u nkv * i2u hs * i2u isz"
  define c where "c = (cfg s)\<lparr>num_layers := nl, num_kv_heads := nkv,
                     head_size := hs, max_batch_size := mb, max_context_length := mc, device := dev,
                     scalar_type := ty, page_size := ps,
                     megacache_enabled := mega, megacache_enabled_global := mega,
                     bytes_per_elem := isz,
                     page_buffer_token_bytes := (if mega then tb * i2u nl else tb),
                     cached_token_bytes_local := i2u nl * 2 * i2u nkv * i2u hs * i2u isz,
                     component_spec_enabled := False,
                     cache_component_token_dims := [nkv * hs, nkv * hs]\<rparr>"
  have run: "init_kvcache api nl nkv hs mb mc dev ty isz ps mega s = init_tail api (s\<lparr>cfg := c\<rparr>)"
    using True by (simp add: init_kvcache_def Let_def tb_def c_def)
  have fields: "num_layers c = nl" "max_batch_size c = mb" "max_context_length c = mc" "page_size c = ps"
    "megacache_enabled_global c = megacache_enabled c" "length (cache_component_token_dims c) = 2"
    "\<not> component_spec_enabled c"
    by (simp_all add: c_def)
  have mc: "unat mc < 1000000" "0 < mc"
    using True unat_sint_pos [of mc] by (auto simp: word_greater_zero_iff)
  have mb: "batch c < 1000" using True fields by (auto simp: batch_def)
  have geo: "geom d" if "configured c d" for d
  proof (rule configured_geom [OF that])
    have ps: "unat ps \<le> 2097152"
      using that fields valid_page_size_bounds(2) by (simp add: configured_def)
    have "unat mc * unat ps * batch c \<le> 1000000 * 2097152 * 1000"
      using mc mb ps by (intro mult_le_mono) simp_all
    then show "unat (max_context_length c) * unat (page_size c) * batch c < 2 ^ 64"
      using fields by simp
    have "unat (tokens_per_page d) \<le> unat ps"
      using that fields by (simp add: configured_def unat_div)
    then show "unat (max_context_length c) + unat (tokens_per_page d) \<le> 2 ^ 64"
      using ps mc fields by simp
  qed (use True fields mc in simp_all)
  show ?thesis
    unfolding run
    by (rule holds_conseq [OF init_tail_post])
      (use geo fields configured_fields [of c] in \<open>simp_all add: same_pages_def\<close>)
qed

text \<open>The component-spec path: the same bounds have to come with the payload.\<close>

definition payload_ok :: "component_payload \<Rightarrow> bool" where
  "payload_ok p \<longleftrightarrow> 0 < sint (p_num_layers p) \<and> 0 < p_max_context_length p \<and>
     unat (p_max_context_length p) * unat (p_page_size p) * i2n (p_max_batch_size p) < 2 ^ 64 \<and>
     unat (p_max_context_length p) + unat (p_tokens_per_page p) \<le> 2 ^ 64 \<and>
     unat (p_max_context_length p) + unat (p_page_size p) \<le> 2 ^ 64"

lemma init_component_post:
  assumes "payload_ok p"
  shows "holds (init_kvcache_component_spec api p s)
     (\<lambda>_ t. geom (cfg t) \<and> empty_batch t \<and> same_pages s t \<and> page_size (cfg t) = p_page_size p \<and>
        max_batch_size (cfg t) = p_max_batch_size p \<and>
        max_context_length (cfg t) = p_max_context_length p \<and> num_layers (cfg t) = p_num_layers p)
     (\<lambda>_ _. True)"
proof (cases "parse_scalar_type (p_dtype p)")
  case (Inl e)
  then show ?thesis by (simp add: init_kvcache_component_spec_def Let_def)
next
  case (Inr ty)
  define c where "c = (cfg s)\<lparr>max_batch_size := p_max_batch_size p,
                max_context_length := p_max_context_length p,
                device := p_device_idx p, page_size := p_page_size p,
                megacache_enabled := p_megacache p,
                megacache_enabled_global := p_megacache p,
                num_layers := p_num_layers p, num_kv_heads := p_num_kv_heads p,
                head_size := p_head_size p, tokens_per_page := p_tokens_per_page p,
                page_buffer_token_bytes := p_page_buffer_token_bytes p,
                cached_token_bytes_local := p_cached_token_bytes_local p,
                bytes_per_elem := p_dtype_size p,
                scalar_type := ty, component_spec_enabled := True,
                cache_component_token_dims := p_cache_components p\<rparr>"
  have run: "init_kvcache_component_spec api p s = init_tail api (s\<lparr>cfg := c\<rparr>)"
    if "length (p_cache_components p) = 2"
    using Inr that by (simp add: init_kvcache_component_spec_def Let_def c_def)
  have fields: "num_layers c = p_num_layers p" "max_batch_size c = p_max_batch_size p"
    "max_context_length c = p_max_context_length p" "page_size c = p_page_size p"
    "megacache_enabled_global c = megacache_enabled c" "tokens_per_page c = p_tokens_per_page p"
    "cache_component_token_dims c = p_cache_components p" "component_spec_enabled c"
    by (simp_all add: c_def)
  have geo: "geom d" if "configured c d" "length (p_cache_components p) = 2" for d
  proof (rule configured_geom [OF that(1)])
    have "unat (tokens_per_page d) \<le> unat (p_page_size p) \<or> tokens_per_page d = p_tokens_per_page p"
      using that fields by (auto simp: configured_def unat_div)
    then show "unat (max_context_length c) + unat (tokens_per_page d) \<le> 2 ^ 64"
      using assms fields by (auto simp: payload_ok_def)
  qed (use assms that fields in \<open>simp_all add: payload_ok_def batch_def\<close>)
  show ?thesis
  proof (cases "length (p_cache_components p) = 2")
    case True
    show ?thesis
      unfolding run [OF True]
      by (rule holds_conseq [OF init_tail_post])
        (use geo True fields configured_fields [of c] in \<open>simp_all add: same_pages_def\<close>)
  next
    case False
    then show ?thesis using Inr by (simp add: init_kvcache_component_spec_def Let_def)
  qed
qed

section \<open>Virtual tensors and physical pages\<close>

text \<open>Reserving address space does not touch the bookkeeping of pages.\<close>

definition tensor_frame :: "'g vst \<Rightarrow> 'g vst \<Rightarrow> bool" where
  "tensor_frame s t \<longleftrightarrow> cfg t = cfg s \<and> same_pages s t \<and> mapped_pages t = mapped_pages s \<and>
     curr_seq_lengths t = curr_seq_lengths s \<and> allocator t = allocator s"

lemma tensor_frame_trans: "tensor_frame s t \<Longrightarrow> tensor_frame t u \<Longrightarrow> tensor_frame s u"
  by (simp add: tensor_frame_def same_pages_def)

lemma tensor_frame_pools:
  "tensor_frame s t \<Longrightarrow> free_pool t = free_pool s" "tensor_frame s t \<Longrightarrow> active_pagemap t = active_pagemap s"
  by (simp_all add: tensor_frame_def same_pages_def free_pool_def active_pagemap_def)

lemma tensor_frame_vinv: "tensor_frame s t \<Longrightarrow> vinv s \<Longrightarrow> vinv t"
  using tensor_frame_pools [of s t] by (simp add: tensor_frame_def vinv_def all_pages_def)

lemma vt_allocate_frame:
  "holds (vt_allocate api al n s) (\<lambda>_. tensor_frame s) (\<lambda>_. tensor_frame s)"
  by (auto simp: vt_allocate_def CHECK_CUDA_out_def tensor_frame_def same_pages_def split: prod.splits)

lemma alloc_vtensor_frame:
  "holds (alloc_vtensor api sh ps m isz al s) (\<lambda>_. tensor_frame s) (\<lambda>_. tensor_frame s)"
  unfolding alloc_vtensor_def
  by (auto simp: tensor_frame_def same_pages_def split: sum.split intro!: holds_conseq [OF vt_allocate_frame])

lemma alloc_virtual_frame:
  "holds (alloc_virtual_tensor api s) (\<lambda>_. tensor_frame s) (\<lambda>_. tensor_frame s)"
  "holds (alloc_component_virtual_tensor api dim s) (\<lambda>_. tensor_frame s) (\<lambda>_. tensor_frame s)"
  unfolding alloc_virtual_tensor_def alloc_component_virtual_tensor_def Let_def
  by (rule alloc_vtensor_frame)+

text \<open>One tensor of each kind per layer, or one in all with the megacache.\<close>

definition tensors_ready :: "'g vst \<Rightarrow> 'g vst \<Rightarrow> bool" where
  "tensors_ready s t \<longleftrightarrow> tensor_frame s t \<and>
     length (k_tensors t) = length (k_tensors s) + nlayers (cfg s) \<and>
     length (v_tensors t) = length (v_tensors s) + nlayers (cfg s)"

text \<open>Allocating a tensor changes only the device.\<close>

lemma vt_allocate_tensors:
  "holds (vt_allocate api al n s) (\<lambda>_ t. k_tensors t = k_tensors s \<and> v_tensors t = v_tensors s) (\<lambda>_ _. True)"
  by (auto simp: vt_allocate_def CHECK_CUDA_out_def split: prod.splits)

lemma alloc_vtensor_tensors:
  "holds (alloc_vtensor api sh ps m isz al s)
     (\<lambda>_ t. k_tensors t = k_tensors s \<and> v_tensors t = v_tensors s) (\<lambda>_ _. True)"
  unfolding alloc_vtensor_def
  by (auto split: sum.split intro!: holds_conseq [OF vt_allocate_tensors])

definition one_more :: "nat \<Rightarrow> nat \<Rightarrow> 'g vst \<Rightarrow> 'g vst \<Rightarrow> bool" where
  "one_more a b s t \<longleftrightarrow> tensor_frame s t \<and> length (k_tensors t) = length (k_tensors s) + a \<and>
     length (v_tensors t) = length (v_tensors s) + b"

lemma one_more_refl: "one_more 0 0 s s"
  by (simp add: one_more_def tensor_frame_def same_pages_def)

lemma one_more_trans: "one_more a b s t \<Longrightarrow> one_more c d t u \<Longrightarrow> one_more (a + c) (b + d) s u"
  by (auto simp: one_more_def intro: tensor_frame_trans)

lemma one_more_cfg: "one_more a b s t \<Longrightarrow> cfg t = cfg s"
  by (simp add: one_more_def tensor_frame_def)

lemma alloc_one:
  "holds (alloc_virtual_tensor api s) (\<lambda>_. one_more 0 0 s) (\<lambda>_ _. True)"
  "holds (alloc_component_virtual_tensor api dim s) (\<lambda>_. one_more 0 0 s) (\<lambda>_ _. True)"
proof -
  have "holds (alloc_vtensor api sh ps m isz al s) (\<lambda>_. one_more 0 0 s) (\<lambda>_ _. True)" for sh ps m isz al
    using alloc_vtensor_frame [of api sh ps m isz al s] alloc_vtensor_tensors [of api sh ps m isz al s]
    by (cases "alloc_vtensor api sh ps m isz al s") (simp_all add: one_more_def)
  then show "holds (alloc_virtual_tensor api s) (\<lambda>_. one_more 0 0 s) (\<lambda>_ _. True)"
    "holds (alloc_component_virtual_tensor api dim s) (\<lambda>_. one_more 0 0 s) (\<lambda>_ _. True)"
    by (simp_all add: alloc_virtual_tensor_def alloc_component_virtual_tensor_def Let_def)
qed

lemma push_one:
  "one_more a b s t \<Longrightarrow> one_more (Suc a) b s (push_k x t)"
  "one_more a b s t \<Longrightarrow> one_more a (Suc b) s (push_v x t)"
  by (simp_all add: one_more_def push_k_def push_v_def tensor_frame_def same_pages_def)

lemma one_more_step: "one_more a b s t \<Longrightarrow> one_more 0 0 t u \<Longrightarrow> one_more a b s u"
  using one_more_trans [of a b s t 0 0 u] by simp

lemma dense_tensors:
  "holds (init_kvcache_virtual api s)
     (\<lambda>ts t. tensor_frame s t \<and> (check_kvcache_config (cfg s) \<longrightarrow>
        one_more (nlayers (cfg s)) (nlayers (cfg s)) s t \<and> ts = k_tensors t @ v_tensors t)) (\<lambda>_ _. True)"
proof (cases "check_kvcache_config (cfg s)")
  case False
  then show ?thesis by (simp add: init_kvcache_virtual_def tensor_frame_def same_pages_def)
next
  case True
  let ?n = "i2n (num_layers (cfg s))"
  have mega: "holds (obind (alloc_virtual_tensor api s) (\<lambda>t0 s. obind (alloc_virtual_tensor api s)
      (\<lambda>t1 s. Ret () (push_v t1 (push_k t0 s))))) (\<lambda>_. one_more 1 1 s) (\<lambda>_ _. True)"
    by (auto intro!: holds_conseq [OF alloc_one(1)] push_one intro: one_more_step)
  have layers: "holds (for_each (\<lambda>i s. obind (alloc_virtual_tensor api s) (\<lambda>t s.
        if i < i2n (num_layers (cfg s)) then Ret () (push_k t s) else Ret () (push_v t s)))
      [0..<2 * ?n] s) (\<lambda>_. one_more (min (2 * ?n) ?n) (2 * ?n - ?n) s) (\<lambda>_ _. True)"
  proof (rule holds_for_each_upto [where I = "\<lambda>i. one_more (min i ?n) (i - ?n) s"])
    fix i t
    assume i: "i < 2 * ?n" and I: "one_more (min i ?n) (i - ?n) s t"
    have body: "holds (if i < i2n (num_layers (cfg u)) then Ret () (push_k x u) else Ret () (push_v x u))
        (\<lambda>_. one_more (min (Suc i) ?n) (Suc i - ?n) s) (\<lambda>_ _. True)" if "one_more 0 0 t u" for x u
      using one_more_step [OF I that] push_one [of "min i ?n" "i - ?n" s u x]
        one_more_cfg [OF that] one_more_cfg [OF I]
      by (cases "i < ?n") (simp_all add: min_absorb1 min_absorb2 Suc_diff_le not_less)
    show "holds (obind (alloc_virtual_tensor api t) (\<lambda>t s.
        if i < i2n (num_layers (cfg s)) then Ret () (push_k t s) else Ret () (push_v t s)))
        (\<lambda>_. one_more (min (Suc i) ?n) (Suc i - ?n) s) (\<lambda>_ _. True)"
      unfolding holds_obind by (rule holds_conseq [OF alloc_one(1)]) (rule body)
  qed (simp add: one_more_refl)
  have post: "tensor_frame s t" if "one_more a b s t" for a b t using that by (simp add: one_more_def)
  show ?thesis
    using True mega layers
    by (auto simp: init_kvcache_virtual_def nlayers_def post elim!: holds_conseq simp del: upt_Suc)
qed

lemma component_tensors:
  "holds (init_kvcache_component_spec_virtual api s)
     (\<lambda>ts t. tensor_frame s t \<and> (check_kvcache_config (cfg s) \<longrightarrow>
        one_more (nlayers (cfg s)) (nlayers (cfg s)) s t \<and> ts = k_tensors t @ v_tensors t)) (\<lambda>_ _. True)"
proof (cases "check_kvcache_config (cfg s)")
  case False
  then show ?thesis
    by (simp add: init_kvcache_component_spec_virtual_def tensor_frame_def same_pages_def)
next
  case True
  let ?n = "i2n (num_layers (cfg s))"
  have mega: "holds (obind (alloc_component_virtual_tensor api d0 s) (\<lambda>t0 s.
      obind (alloc_component_virtual_tensor api d1 s)
      (\<lambda>t1 s. Ret () (push_v t1 (push_k t0 s))))) (\<lambda>_. one_more 1 1 s) (\<lambda>_ _. True)" for d0 d1
    by (auto intro!: holds_conseq [OF alloc_one(2)] push_one intro: one_more_step)
  have pair: "one_more (Suc i) (Suc i) s (push_v x w)"
    if "one_more i i s t" "one_more 0 0 t u" "one_more 0 0 (push_k y u) w" for i x y t u w
    by (rule push_one(2) [OF one_more_step [OF push_one(1) [OF one_more_step [OF that(1,2)]] that(3)]])
  have layers: "holds (for_each (\<lambda>layer_idx s.
        obind (alloc_component_virtual_tensor api d0 s) (\<lambda>t0 s.
        let s = push_k t0 s in
        obind (alloc_component_virtual_tensor api d1 s) (\<lambda>t1 s. Ret () (push_v t1 s))))
      [0..<?n] s) (\<lambda>_. one_more ?n ?n s) (\<lambda>_ _. True)" for d0 d1
    by (rule holds_for_each_upto [where I = "\<lambda>i. one_more i i s"])
      (auto simp: Let_def one_more_refl intro!: holds_conseq [OF alloc_one(2)]
        intro: pair)
  have post: "tensor_frame s t" if "one_more a b s t" for a b t using that by (simp add: one_more_def)
  show ?thesis
    using True mega [of "cache_component_token_dims (cfg s) ! 0" "cache_component_token_dims (cfg s) ! 1"]
      layers [of "cache_component_token_dims (cfg s) ! 0" "cache_component_token_dims (cfg s) ! 1"]
    by (auto simp: init_kvcache_component_spec_virtual_def nlayers_def post Let_def
        elim!: holds_conseq simp del: upt_Suc)
qed

text \<open>Reservation fills the pool up to the computed number of pages; only the driver can stop it.\<close>

definition reserve_frame :: "'g vst \<Rightarrow> 'g vst \<Rightarrow> bool" where
  "reserve_frame s t \<longleftrightarrow> cfg t = cfg s \<and> active_pagemap t = active_pagemap s \<and>
     mapped_pages t = mapped_pages s \<and> curr_seq_lengths t = curr_seq_lengths s \<and>
     k_tensors t = k_tensors s \<and> v_tensors t = v_tensors s"

lemma vattn_get_mem_page_gpu: "\<exists>res page g. vattn_get_mem_page api s = (res, page, s\<lparr>gpu := g\<rparr>)"
  by (auto simp: vattn_get_mem_page_def Let_def split: prod.splits)

lemma reserve_uvm_loop_post:
  "is_uvm_backend (page_size (cfg s)) \<Longrightarrow> holds (reserve_uvm_loop api n s)
     (\<lambda>_ t. reserve_frame s t \<and> length (free_pool t) = length (free_pool s) + n) (\<lambda>e _. is_exit e)"
proof (induction n arbitrary: s)
  case (Suc n)
  obtain res page g where get: "vattn_get_mem_page api s = (res, page, s\<lparr>gpu := g\<rparr>)"
    using vattn_get_mem_page_gpu [of api s] by auto
  then show ?case
    using Suc.prems Suc.IH [of "s\<lparr>gpu := g, uvm_pages := uvm_pages s @ [page]\<rparr>"]
    by (auto simp: reserve_frame_def free_pool_def active_pagemap_def elim!: holds_conseq)
qed (simp add: reserve_frame_def)

lemma reserve_cuda_loop_post:
  "\<not> is_uvm_backend (page_size (cfg s)) \<Longrightarrow> holds (reserve_cuda_loop api ps n s)
     (\<lambda>_ t. reserve_frame s t \<and> length (free_pool t) = length (free_pool s) + n) (\<lambda>e _. is_exit e)"
proof (induction n arbitrary: s)
  case (Suc n)
  obtain res page g where get: "cuMemCreate api ps (device (cfg s)) (gpu s) = (res, page, g)"
    by (cases "cuMemCreate api ps (device (cfg s)) (gpu s)") auto
  then show ?case
    using Suc.prems Suc.IH [of "s\<lparr>gpu := g, cuda_pages := cuda_pages s @ [page]\<rparr>"]
    by (auto simp: CHECK_CUDA_out_def reserve_frame_def free_pool_def active_pagemap_def
        elim!: holds_conseq)
qed (simp add: reserve_frame_def)

lemma reserve_post:
  "holds (reserve_physical_pages api m s)
     (\<lambda>n t. reserve_frame s t \<and> n = of_nat (length (free_pool t)) \<and>
        length (free_pool t) = max (length (free_pool s))
          (unat (get_num_phys_blocks (cfg s) m (page_size (cfg s)))))
     (\<lambda>e _. is_exit e)"
proof (cases "is_uvm_backend (page_size (cfg s))")
  case True
  then have "free_pool s = uvm_pages s" by (simp add: free_pool_def)
  then show ?thesis
    using True
    by (auto simp: reserve_physical_pages_def reserve_gpu_pages_def reserve_uvm_pages_def Let_def
        intro!: holds_conseq [OF reserve_uvm_loop_post [OF True]]) (auto simp: free_pool_def reserve_frame_def)
next
  case False
  then have "free_pool s = cuda_pages s" by (simp add: free_pool_def)
  then show ?thesis
    using False
    by (auto simp: reserve_physical_pages_def reserve_gpu_pages_def reserve_cuda_pages_def Let_def
        intro!: holds_conseq [OF reserve_cuda_loop_post [OF False]]) (auto simp: free_pool_def reserve_frame_def)
qed

text \<open>Reserving pages keeps the invariant as long as nothing is mapped yet.\<close>

lemma reserve_vinv:
  assumes "vinv s" "empty_batch s"
  shows "holds (reserve_physical_pages api m s) (\<lambda>_ t. vinv t \<and> empty_batch t) (\<lambda>e _. is_exit e)"
proof (rule holds_conseq [OF reserve_post])
  fix n t
  assume t: "reserve_frame s t \<and> n = of_nat (length (free_pool t)) \<and>
        length (free_pool t) = max (length (free_pool s))
          (unat (get_num_phys_blocks (cfg s) m (page_size (cfg s))))"
  then have len: "length (free_pool t) < 2 ^ 64"
    using pool_bound [OF assms(1)] unat_lt_2pow by simp
  have "dom (active_pagemap s) = {}"
    using assms by (auto simp: vinv_def empty_batch_def)
  then have "size (pm_pages (active_pagemap t)) = 0"
    using t by (simp add: reserve_frame_def pm_pages_def)
  then show "vinv t \<and> empty_batch t"
    using t len assms by (simp add: reserve_frame_def vinv_def empty_batch_def all_pages_def)
qed simp

text \<open>The whole start-up: initialise, reserve address space, reserve physical memory.\<close>

lemma tensor_frame_boot:
  "tensor_frame s t \<Longrightarrow> empty_batch s \<Longrightarrow> empty_batch t"
  by (simp add: tensor_frame_def empty_batch_def)

lemma boot_dense:
  assumes "fresh s"
  shows "holds (obind (api_init_kvcache api nl nkv hs mb mc dev ty isz ps mega s)
      (\<lambda>_ s. reserve_physical_pages api mem s))
    (\<lambda>n t. vinv t \<and> empty_batch t) (\<lambda>_ _. True)"
  unfolding api_init_kvcache_def obind_assoc holds_obind
  by (rule holds_conseq [OF init_kvcache_post], rule holds_conseq [OF dense_tensors],
      rule holds_conseq [OF reserve_vinv])
    (use assms empty_vinv tensor_frame_vinv tensor_frame_boot in blast)+

lemma boot_component:
  assumes "fresh s" "payload_ok p"
  shows "holds (obind (api_init_kvcache_component_spec api p s) (\<lambda>_ s. reserve_physical_pages api mem s))
    (\<lambda>n t. vinv t \<and> empty_batch t) (\<lambda>_ _. True)"
  unfolding api_init_kvcache_component_spec_def obind_assoc holds_obind
  by (rule holds_conseq [OF init_component_post [OF assms(2)]], rule holds_conseq [OF component_tensors],
      rule holds_conseq [OF reserve_vinv])
    (use assms(1) empty_vinv tensor_frame_vinv tensor_frame_boot in blast)+

end
