(* ===== verification/Vattn_Example.thy ===== *)
theory Vattn_Example
  imports Vattn_Boot
begin

text \<open>
  A concrete machine to run the model on: a driver whose calls succeed and hand out the handles and
  addresses 1, 2, 3, \<dots>, and an allocator for one layer, two requests, four tokens per page and eight
  tokens of context, with three KV blocks of physical memory.
\<close>

definition ok_api :: "nat gpu_api" where
  "ok_api =
     \<lparr>cuInit = (\<lambda>g. (0, g)),
      cuCtxGetCurrent = (\<lambda>g. (0, 1, g)),
      cuMemGetAllocationGranularity = (\<lambda>_ g. (0, 2097152, g)),
      cuMemCreate = (\<lambda>_ _ g. (0, of_nat g, Suc g)),
      cuMemRelease = (\<lambda>_ g. (0, g)),
      cuMemMap = (\<lambda>_ _ _ g. (0, g)),
      cuMemSetAccess = (\<lambda>_ _ _ g. (0, g)),
      cuMemUnmap = (\<lambda>_ _ g. (0, g)),
      cuMemAddressReserve = (\<lambda>_ _ g. (0, of_nat g * 4294967296, Suc g)),
      cuMemAddressFree = (\<lambda>_ _ g. (0, g)),
      cudaSetDevice = (\<lambda>_ g. g),
      cudaMallocManaged = (\<lambda>_ g. (0, of_nat g * 4294967296, Suc g)),
      cudaFree = (\<lambda>_ g. g),
      device_uuid = (\<lambda>_ _. replicate 16 7),
      readdir_psf = (\<lambda>_. Some [(True, ''3'')]),
      realpath_psf = (\<lambda>_ _. Some ''/dev/nvidia-uvm''),
      ioctl = (\<lambda>_ rq g. case rq of
          GET_MEM_PAGE r \<Rightarrow> (0, GET_MEM_PAGE (r\<lparr>gp_page := of_nat g\<rparr>), Suc g)
        | _ \<Rightarrow> (0, rq, g)),
      stack_u64 = 0,
      check_size_nonnegative = (\<lambda>_. True),
      computeStorageNbytesContiguous = (\<lambda>shape isz. prod_list shape * isz),
      tensor_nbytes = (\<lambda>t. prod_list (tensor_shape t) * tensor_itemsize t)\<rparr>"

definition blank_cfg :: vcfg where
  "blank_cfg =
     \<lparr>num_kv_heads = 0, head_size = 0, num_layers = 0, bytes_per_elem = 0, device = 0,
      scalar_type = Half, component_spec_enabled = False, page_buffer_token_bytes = 0,
      cached_token_bytes_local = 0, cache_component_token_dims = [], megacache_enabled = False,
      megacache_enabled_global = False, max_batch_size = 0, max_context_length = 0, virt_buff_size = 0,
      virt_buff_size_per_req = 0, virt_buff_size_per_token = 0, virt_buff_num_kv_tokens = 0,
      tokens_per_page = 0, max_pages_per_req = 0, page_size = 2097152\<rparr>"

definition blank :: "nat vst" where
  "blank =
     \<lparr>cfg = blank_cfg, gpu = 1, verbose = False, deferred_reclaim = True, is_configured = False,
      allocator = \<lparr>alloc_device_idx = 0, alloc_page_size = 0\<rparr>, cuda_pages = [], uvm_pages = [],
      cuda_pagemap = Map.empty, uvm_pagemap = Map.empty, k_ptr = [], v_ptr = [], k_tensors = [],
      v_tensors = [], mapped_pages = [], curr_seq_lengths = [], mem_manager_running = False,
      cached_uuid = [], nvidia_uvm_fd = - 1, uvm_page_size = 0\<rparr>"

definition small_cfg :: vcfg where
  "small_cfg =
     \<lparr>num_kv_heads = 1, head_size = 262144, num_layers = 1, bytes_per_elem = 2, device = 0,
      scalar_type = Half, component_spec_enabled = False, page_buffer_token_bytes = 524288,
      cached_token_bytes_local = 1048576, cache_component_token_dims = [262144, 262144],
      megacache_enabled = False, megacache_enabled_global = False, max_batch_size = 2,
      max_context_length = 8, virt_buff_size = 8388608, virt_buff_size_per_req = 4194304,
      virt_buff_size_per_token = 524288, virt_buff_num_kv_tokens = 16, tokens_per_page = 4,
      max_pages_per_req = 2, page_size = 2097152\<rparr>"

definition small_tensor :: "u64 \<Rightarrow> tensor" where
  "small_tensor p = \<lparr>data_ptr = p, storage_nbytes = 8388608, tensor_shape = [2, 8, 1, 262144],
     tensor_itemsize = 2\<rparr>"

definition small :: "nat vst" where
  "small =
     \<lparr>cfg = small_cfg, gpu = 9, verbose = False, deferred_reclaim = True, is_configured = True,
      allocator = \<lparr>alloc_device_idx = 0, alloc_page_size = 2097152\<rparr>,
      cuda_pages = [3, 4, 5, 6, 7, 8], uvm_pages = [],
      cuda_pagemap = Map.empty, uvm_pagemap = Map.empty, k_ptr = [0], v_ptr = [0],
      k_tensors = [small_tensor 4294967296], v_tensors = [small_tensor 8589934592],
      mapped_pages = [0, 0], curr_seq_lengths = [0, 0], mem_manager_running = False,
      cached_uuid = [], nvidia_uvm_fd = - 1, uvm_page_size = 0\<rparr>"

primrec is_ret :: "('e, 's, 'a) outcome \<Rightarrow> bool" where
  "is_ret (Ret a s) = True"
| "is_ret (Fail e s) = False"

lemma ret_state: "is_ret m \<Longrightarrow> holds m (\<lambda>_. Q) E \<Longrightarrow> Q (out_state m)"
  by (cases m) auto

primrec out_err :: "('e, 's, 'a) outcome \<Rightarrow> 'e option" where
  "out_err (Ret a s) = None"
| "out_err (Fail e s) = Some e"

lemma fail_err: "out_err m = Some e \<Longrightarrow> holds m Q (\<lambda>e _. E e) \<Longrightarrow> E e"
  by (cases m) auto

lemma fresh_blank: "fresh blank"
  by (simp add: fresh_def blank_def)

lemma small_fields [simp]:
  "batch (cfg small) = 2" "max_context_length (cfg small) = 8" "tokens_per_page (cfg small) = 4"
  "page_size (cfg small) = 2097152" "max_pages_per_req (cfg small) = 2" "nlayers (cfg small) = 1"
  "mapped_pages small = [0, 0]" "curr_seq_lengths small = [0, 0]" "free_pool small = [3, 4, 5, 6, 7, 8]"
  "active_pagemap small = Map.empty" "mem_manager_running small = False"
  by (simp_all add: small_def small_cfg_def batch_def nlayers_def free_pool_def active_pagemap_def
      is_uvm_backend_def)

lemma geom_small: "geom (cfg small)"
  by (simp add: geom_def small_def small_cfg_def batch_def tokens_to_pages_def)

lemma all_pages_small [simp]: "all_pages small = {#3, 4, 5, 6, 7, 8#}"
  by (simp add: all_pages_def pm_pages_def)

lemma vinv_small: "vinv small"
  using geom_small by (auto simp: vinv_def dest!: less_2_cases)

lemma cap_small [simp]: "cap (abs_blocks small) = 3"
  by (simp add: abs_blocks_def)

end
