(* ===== verification/Vattn_Async.thy ===== *)
theory Vattn_Async
  imports Vattn_Manager
begin

text \<open>
  The asynchronous step: \<^verbatim>\<open>step_async\<close>, \<^verbatim>\<open>wait_kvcache_manager_sync\<close> and
  \<^verbatim>\<open>spawn_kvcache_manager\<close> (\<^verbatim>\<open>src/vattention/vattention.cu\<close>) as a transition system. The calling
  thread runs \<^verbatim>\<open>step_async\<close> again and again; every call detaches a thread that raises the flag
  \<^verbatim>\<open>mem_manager_running\<close>, manages memory and lowers the flag. A transition is one statement of
  \<^verbatim>\<open>step_async\<close> or of the detached thread; the thread's memory management takes effect when it
  ends. An exception of the prefill leaves \<^verbatim>\<open>step_async\<close> before anything is spawned.
\<close>

datatype main_pc = MIdle | MWait | MPrefill | MSpawn

datatype bg_pc = BCreated | BWorking

record 'g conc =
  mst :: "'g vst"
  mpc :: main_pc
  bgs :: "bg_pc list"

definition remove_nth :: "nat \<Rightarrow> 'a list \<Rightarrow> 'a list" where
  "remove_nth i xs = take i xs @ drop (Suc i) xs"

inductive async_step :: "'g gpu_api \<Rightarrow> 'g conc \<Rightarrow> 'g conc \<Rightarrow> bool" for api where
  call: "mpc c = MIdle \<Longrightarrow> length seq_lens = batch (cfg (mst c)) \<Longrightarrow>
    async_step api c (c\<lparr>mst := set_curr_seq_lengths seq_lens (mst c), mpc := MWait\<rparr>)"
| wait: "mpc c = MWait \<Longrightarrow> \<not> mem_manager_running (mst c) \<Longrightarrow>
    async_step api c (c\<lparr>mpc := MPrefill\<rparr>)"
| prefill: "mpc c = MPrefill \<Longrightarrow> prepare_prefill_kvcache api (mst c) = Ret () s' \<Longrightarrow>
    async_step api c (c\<lparr>mst := s', mpc := MSpawn\<rparr>)"
| prefill_throws: "mpc c = MPrefill \<Longrightarrow> prepare_prefill_kvcache api (mst c) = Fail e s' \<Longrightarrow> \<not> is_exit e \<Longrightarrow>
    async_step api c (c\<lparr>mst := s', mpc := MIdle\<rparr>)"
| spawn: "mpc c = MSpawn \<Longrightarrow>
    async_step api c (c\<lparr>mpc := MIdle, bgs := bgs c @ [BCreated]\<rparr>)"
| bg_start: "i < length (bgs c) \<Longrightarrow> bgs c ! i = BCreated \<Longrightarrow>
    async_step api c (c\<lparr>mst := (mst c)\<lparr>mem_manager_running := True\<rparr>, bgs := (bgs c)[i := BWorking]\<rparr>)"
| bg_end: "i < length (bgs c) \<Longrightarrow> bgs c ! i = BWorking \<Longrightarrow>
    do_kvcache_memory_management api (mst c) = Ret () s' \<Longrightarrow>
    async_step api c (c\<lparr>mst := s'\<lparr>mem_manager_running := False\<rparr>, bgs := remove_nth i (bgs c)\<rparr>)"

inductive_cases async_stepE: "async_step api c c'"

text \<open>
  A schedule is timely if a detached thread gets to raise the flag before the caller next reads it.
\<close>

definition timely_step :: "'g gpu_api \<Rightarrow> 'g conc \<Rightarrow> 'g conc \<Rightarrow> bool" where
  "timely_step api c c' \<longleftrightarrow> async_step api c c' \<and>
     (mpc c = MWait \<and> mpc c' = MPrefill \<longrightarrow> BCreated \<notin> set (bgs c))"

definition async_init :: "'g vst \<Rightarrow> 'g conc" where
  "async_init s = \<lparr>mst = s, mpc = MIdle, bgs = []\<rparr>"

section \<open>The invariant of timely schedules\<close>

definition async_inv :: "'g conc \<Rightarrow> bool" where
  "async_inv c \<longleftrightarrow> vinv (mst c) \<and> length (bgs c) \<le> 1 \<and>
     mem_manager_running (mst c) = (BWorking \<in> set (bgs c)) \<and>
     (mpc c = MPrefill \<or> mpc c = MSpawn \<longrightarrow> bgs c = [])"

lemma vinv_flag [simp]: "vinv (s\<lparr>mem_manager_running := b\<rparr>) = vinv s"
proof -
  have "free_pool (s\<lparr>mem_manager_running := b\<rparr>) = free_pool s"
    "active_pagemap (s\<lparr>mem_manager_running := b\<rparr>) = active_pagemap s"
    by (simp_all add: free_pool_def active_pagemap_def)
  then show ?thesis by (simp add: vinv_def all_pages_def)
qed

lemma vinv_set_curr: "vinv s \<Longrightarrow> length qs = batch (cfg s) \<Longrightarrow> vinv (set_curr_seq_lengths qs s)"
  by (simp add: set_curr_seq_lengths_def vinv_def)

lemma prefill_Ret_inv:
  assumes "vinv s" "prepare_prefill_kvcache api s = Ret () s'"
  shows "vinv s' \<and> mem_manager_running s' = mem_manager_running s"
  using prefill_refines [OF assms(1), of api] assms(2) by (simp add: refines_def keeps_def)

lemma prefill_Fail_inv:
  assumes "vinv s" "prepare_prefill_kvcache api s = Fail e s'" "\<not> is_exit e"
  shows "vinv s' \<and> mem_manager_running s' = mem_manager_running s"
  using prefill_refines [OF assms(1), of api] assms(2,3) by (simp add: refines_def keeps_def)

lemma manager_Ret_inv:
  assumes "vinv s" "do_kvcache_memory_management api s = Ret () s'"
  shows "vinv s'"
  using manager_spared [OF assms(1), of api] assms(2) by (simp add: spared_def)

lemma short_list_cases: "length xs \<le> 1 \<Longrightarrow> xs = [] \<or> (\<exists>x. xs = [x])"
  by (cases xs) auto

lemma timely_step_inv:
  assumes "timely_step api c c'" "async_inv c"
  shows "async_inv c'"
proof -
  have short: "bgs c = [] \<or> (\<exists>x. bgs c = [x])"
    by (rule short_list_cases) (use assms(2) in \<open>simp add: async_inv_def\<close>)
  have inv: "vinv (mst c)" using assms(2) by (simp add: async_inv_def)
  have "async_step api c c'" using assms(1) by (simp add: timely_step_def)
  then show ?thesis
  proof cases
    case (call qs)
    then show ?thesis using assms(2) vinv_set_curr [OF inv]
      by (simp add: async_inv_def) (simp add: set_curr_seq_lengths_def)
  next
    case wait
    then have "bgs c = []"
      using assms short by (cases "hd (bgs c)") (auto simp: timely_step_def async_inv_def)
    then show ?thesis using wait assms(2) by (simp add: async_inv_def)
  next
    case (prefill s')
    then show ?thesis using assms(2) prefill_Ret_inv [OF inv] by (simp add: async_inv_def)
  next
    case (prefill_throws e s')
    then show ?thesis using assms(2) prefill_Fail_inv [OF inv] by (simp add: async_inv_def)
  next
    case spawn
    then show ?thesis using assms(2) by (auto simp: async_inv_def)
  next
    case (bg_start i)
    then show ?thesis using assms(2) short by (auto simp: async_inv_def)
  next
    case (bg_end i s')
    then show ?thesis using assms(2) short manager_Ret_inv [OF inv]
      by (auto simp: async_inv_def remove_nth_def)
  qed
qed

lemma timely_reachable_inv:
  assumes "(timely_step api)\<^sup>*\<^sup>* c c'" "async_inv c"
  shows "async_inv c'"
  using assms by (induction) (auto intro: timely_step_inv)

section \<open>A schedule that is not timely\<close>

text \<open>With nothing to serve, the prefill returns at once.\<close>

lemma prefill_zero:
  "prepare_prefill_kvcache api (set_curr_seq_lengths (replicate (batch (cfg s)) 0) s) =
     Ret () (set_curr_seq_lengths (replicate (batch (cfg s)) 0) s)"
proof -
  let ?t = "set_curr_seq_lengths (replicate (batch (cfg s)) 0) s"
  have "for_each (\<lambda>r s. map_pages_for_curr_step api r (get_req_seq_length s r) s) rs ?t = Ret () ?t"
    if "set rs \<subseteq> {..<batch (cfg s)}" for rs
    using that by (induction rs)
      (auto simp: map_pages_for_curr_step_def get_req_seq_length_def set_curr_seq_lengths_def)
  then show ?thesis
    by (simp add: prepare_prefill_kvcache_def set_curr_seq_lengths_def atLeast0LessThan)
qed

text \<open>One whole call of \<^verbatim>\<open>step_async\<close> with an idle batch, up to the detached thread.\<close>

definition idle_lens :: "'g vst \<Rightarrow> 'g vst" where
  "idle_lens s = set_curr_seq_lengths (replicate (batch (cfg s)) 0) s"

lemma idle_lens_idem: "idle_lens (idle_lens s) = idle_lens s"
  by (simp add: idle_lens_def set_curr_seq_lengths_def)

lemma race_schedule:
  assumes "\<not> mem_manager_running s"
  shows "(async_step api)\<^sup>*\<^sup>* (async_init s)
    \<lparr>mst = (idle_lens s)\<lparr>mem_manager_running := True\<rparr>, mpc = MPrefill, bgs = [BWorking]\<rparr>"
proof -
  let ?t = "idle_lens s"
  have flag: "\<not> mem_manager_running ?t"
    using assms by (simp add: idle_lens_def set_curr_seq_lengths_def)
  have "(async_step api)\<^sup>*\<^sup>* (async_init s) \<lparr>mst = ?t, mpc = MWait, bgs = []\<rparr>"
    using call [of "async_init s" "replicate (batch (cfg s)) 0" api]
    by (intro r_into_rtranclp) (simp add: async_init_def idle_lens_def)
  also have "async_step api \<dots> \<lparr>mst = ?t, mpc = MPrefill, bgs = []\<rparr>"
    using wait [of "\<lparr>mst = ?t, mpc = MWait, bgs = []\<rparr>" api] flag by simp
  also (rtranclp.rtrancl_into_rtrancl) have "async_step api \<dots> \<lparr>mst = ?t, mpc = MSpawn, bgs = []\<rparr>"
    using prefill [of "\<lparr>mst = ?t, mpc = MPrefill, bgs = []\<rparr>" api ?t] prefill_zero [of api s]
    by (simp add: idle_lens_def)
  also (rtranclp.rtrancl_into_rtrancl) have "async_step api \<dots> \<lparr>mst = ?t, mpc = MIdle, bgs = [BCreated]\<rparr>"
    using spawn [of "\<lparr>mst = ?t, mpc = MSpawn, bgs = []\<rparr>" api] by simp
  also (rtranclp.rtrancl_into_rtrancl) have "async_step api \<dots> \<lparr>mst = ?t, mpc = MWait, bgs = [BCreated]\<rparr>"
    using call [of "\<lparr>mst = ?t, mpc = MIdle, bgs = [BCreated]\<rparr>" "replicate (batch (cfg ?t)) 0" api]
      idle_lens_idem [of s] by (simp add: idle_lens_def set_curr_seq_lengths_def)
  also (rtranclp.rtrancl_into_rtrancl) have "async_step api \<dots> \<lparr>mst = ?t, mpc = MPrefill, bgs = [BCreated]\<rparr>"
    using wait [of "\<lparr>mst = ?t, mpc = MWait, bgs = [BCreated]\<rparr>" api] flag by simp
  also (rtranclp.rtrancl_into_rtrancl) have "async_step api \<dots> \<lparr>mst = ?t\<lparr>mem_manager_running := True\<rparr>, mpc = MPrefill, bgs = [BWorking]\<rparr>"
    using bg_start [of 0 "\<lparr>mst = ?t, mpc = MPrefill, bgs = [BCreated]\<rparr>" api] by simp
  finally (rtranclp.rtrancl_into_rtrancl) show ?thesis .
qed

end
