(* ===== verification/Vattn_Correct.thy ===== *)
theory Vattn_Correct
  imports Vattn_Example Vattn_Async
begin

text \<open>
  The correctness properties of the allocator, over the definitions of \<^verbatim>\<open>Vattn_Init\<close>,
  \<^verbatim>\<open>Vattn_Alloc\<close>, \<^verbatim>\<open>Vattn_Api\<close> and \<^verbatim>\<open>Vattn_Async\<close>. Each follows from the refinement of the
  abstract specification and the invariant; the witnesses run the machine of \<^verbatim>\<open>Vattn_Example\<close>.
\<close>

section \<open>Shared lemmas\<close>

lemma blocks_needed_fit:
  assumes "vinv s" "\<forall>q \<in> set qs. q \<le> max_context_length (cfg s)"
  shows "lengths_fit (cfg s) qs"
    and "r < length qs \<Longrightarrow> blocks_needed (cfg s) qs ! r \<le> unat (max_pages_per_req (cfg s))"
proof -
  let ?c = "cfg s"
  have g: "tokens_per_page ?c \<noteq> 0" "unat (max_context_length ?c) + unat (tokens_per_page ?c) \<le> 2 ^ 64"
    "max_pages_per_req ?c = tokens_to_pages ?c (max_context_length ?c)"
    using vinv_lengths(3) [OF assms(1)] by (simp_all add: geom_def)
  have le: "unat q \<le> unat (max_context_length ?c)" if "q \<in> set qs" for q
    using assms(2) that by (simp add: word_le_nat_alt)
  then show "lengths_fit ?c qs"
    unfolding lengths_fit_def using g(2) by (meson add_le_mono1 order_trans)
  have "unat (max_pages_per_req ?c) = ceil_div (unat (max_context_length ?c)) (unat (tokens_per_page ?c))"
    using g by (simp add: unat_tokens_to_pages)
  then show "blocks_needed ?c qs ! r \<le> unat (max_pages_per_req ?c)" if "r < length qs"
    using le [of "qs ! r"] that g(1)
    by (simp add: blocks_needed_def ceil_div_mono unat_gt_0)
qed

lemma refines_holds:
  assumes "refines m s q a"
    and "\<And>t. vinv t \<Longrightarrow> keeps s t \<Longrightarrow> curr_seq_lengths t = q \<Longrightarrow> a = Some (abs_blocks t) \<Longrightarrow> Q t"
    and "\<And>e t. is_exit e \<or> e = oom_error \<and> a = None \<and> vinv t \<and> keeps s t \<Longrightarrow> E e t"
  shows "holds m (\<lambda>_. Q) E"
  using assms(1) unfolding refines_def by (rule holds_conseq) (use assms(2,3) in blast)+

section \<open>The synchronous step\<close>

lemma step_sync_keeps:
  assumes "vinv s" "length qs = batch (cfg s)" "\<forall>q \<in> set qs. q \<le> max_context_length (cfg s)"
  shows "holds (step_sync api qs eager s) (\<lambda>_ t. vinv t \<and> keeps s t)
    (\<lambda>e t. is_exit e \<or> vinv t \<and> keeps s t)"
  by (rule refines_holds [OF step_refines [OF assms(1,2) blocks_needed_fit(1) [OF assms(1,3)]]]) auto

lemma step_covers:
  assumes "vinv s" "length qs = batch (cfg s)" "\<forall>q \<in> set qs. q \<le> max_context_length (cfg s)"
  shows "holds (step_sync api qs eager s)
    (\<lambda>_ t. vinv t \<and> keeps s t \<and> curr_seq_lengths t = qs \<and>
       (\<forall>r < batch (cfg s). unat (qs ! r) \<le> mapped t r * unat (tokens_per_page (cfg s))))
    (\<lambda>e t. is_exit e \<or> e = oom_error \<and> vinv t \<and> keeps s t)"
proof (rule refines_holds [OF step_refines [OF assms(1,2) blocks_needed_fit(1) [OF assms(1,3)]]])
  fix t
  assume t: "vinv t" "keeps s t" "curr_seq_lengths t = qs"
    and st: "s_step eager (blocks_needed (cfg s) qs) (abs_blocks s) = Some (abs_blocks t)"
  have "unat (qs ! r) \<le> mapped t r * unat (tokens_per_page (cfg s))" if r: "r < batch (cfg s)" for r
  proof -
    have "blocks_needed (cfg s) qs ! r \<le> mapped t r"
      using s_step_covers [OF abs_bwf [OF assms(1)] st, of r] blocks_needed_fit(2) [OF assms(1,3), of r]
        r assms(1,2) t keeps_cfg [OF t(2)] by (simp add: vinv_lengths)
    then have "ceil_div (unat (qs ! r)) (unat (tokens_per_page (cfg s))) \<le> mapped t r"
      using r assms(2) by (simp add: blocks_needed_def)
    moreover have "0 < unat (tokens_per_page (cfg s))"
      using vinv_lengths(3) [OF assms(1)] by (simp add: geom_def unat_gt_0)
    ultimately show ?thesis by (simp add: ceil_div_le_iff)
  qed
  then show "vinv t \<and> keeps s t \<and> curr_seq_lengths t = qs \<and>
       (\<forall>r < batch (cfg s). unat (qs ! r) \<le> mapped t r * unat (tokens_per_page (cfg s)))"
    using t by simp
qed auto


lemma small_step_ret: "is_ret (step_sync ok_api [5, 1] False small)"
  by code_simp


lemma step_oom:
  assumes "vinv s" "length qs = batch (cfg s)" "\<forall>q \<in> set qs. q \<le> max_context_length (cfg s)"
    and "\<forall>r < batch (cfg s). min (mapped s r) (req_blocks s r) \<le> blocks_needed (cfg s) qs ! r"
  shows "holds (step_sync api qs eager s)
    (\<lambda>_ _. (\<Sum>r < batch (cfg s). blocks_needed (cfg s) qs ! r) \<le> size (all_pages s) div (2 * nlayers (cfg s)))
    (\<lambda>e _. is_exit e \<or> size (all_pages s) div (2 * nlayers (cfg s)) <
       (\<Sum>r < batch (cfg s). blocks_needed (cfg s) qs ! r))"
proof -
  let ?a = "abs_blocks s" and ?ns = "blocks_needed (cfg s) qs"
  have cap: "cap ?a = size (all_pages s) div (2 * nlayers (cfg s))" by (simp add: abs_blocks_def)
  have n: "nreq ?a = batch (cfg s)" using assms(1) by (simp add: vinv_lengths)
  have "s_step eager ?ns ?a = None \<longleftrightarrow> cap ?a < (\<Sum>r < nreq ?a. ?ns ! r)"
    by (rule s_step_oom [OF abs_bwf [OF assms(1)]])
      (use assms blocks_needed_fit(2) [OF assms(1,3)] n in \<open>simp_all add: vinv_lengths\<close>)
  then have oom: "s_step eager ?ns ?a = None \<longleftrightarrow>
      size (all_pages s) div (2 * nlayers (cfg s)) < (\<Sum>r < batch (cfg s). ?ns ! r)"
    by (simp only: cap n)
  show ?thesis
    by (rule refines_holds [OF step_refines [OF assms(1,2) blocks_needed_fit(1) [OF assms(1,3)]]])
      (use oom in auto)
qed


lemma small_oom: "out_err (step_sync ok_api [8, 8] False small) = Some oom_error"
  by code_simp

lemma oom_not_exit [simp]: "\<not> is_exit oom_error"
  by (simp add: oom_error_def)


section \<open>Pages are never shared\<close>

text \<open>The pages the page map holds under a key.\<close>

definition key_pages :: "'g vst \<Rightarrow> page_key \<Rightarrow> u64 set" where
  "key_pages s k = (case active_pagemap s k of None \<Rightarrow> {} | Some (p, q) \<Rightarrow> {p, q})"

lemma key_pages_iff:
  "p \<in> key_pages s k \<longleftrightarrow> (\<exists>a b. active_pagemap s k = Some (a, b) \<and> (p = a \<or> p = b))"
  by (auto simp: key_pages_def split: option.splits)

definition exclusive :: "'g vst \<Rightarrow> bool" where
  "exclusive s \<longleftrightarrow> distinct (free_pool s) \<and>
     (\<forall>k p q. active_pagemap s k = Some (p, q) \<longrightarrow> p \<noteq> q) \<and>
     (\<forall>k. key_pages s k \<inter> set (free_pool s) = {}) \<and>
     (\<forall>k k'. k \<noteq> k' \<longrightarrow> key_pages s k \<inter> key_pages s k' = {})"

lemma pm_pages_split:
  assumes "finite (dom m)" "k \<in> dom m"
  shows "pm_pages m = pair_mset (the (m k)) + (\<Sum>key \<in> dom m - {k}. pair_mset (the (m key)))"
  using assms by (simp add: pm_pages_def sum.remove)

lemma count_sum_le:
  "finite A \<Longrightarrow> k \<in> A \<Longrightarrow> count (f k) x \<le> count (\<Sum>a \<in> A. f a) x"
  by (simp add: sum.remove)

lemma count_pair: "count (pair_mset pq) x = of_bool (x = fst pq) + of_bool (x = snd pq)"
  by (cases pq) auto

text \<open>No page is in two places exactly when the pages in circulation are all different.\<close>

lemma exclusive_count:
  assumes fin: "finite (dom (active_pagemap s))" and one: "\<And>p. count (all_pages s) p \<le> 1"
  shows "exclusive s"
proof -
  let ?m = "active_pagemap s"
  have tot: "count (mset (free_pool s)) p + count (pm_pages ?m) p \<le> 1" for p
    using one [of p] by (simp add: all_pages_def)
  have in_pm: "1 \<le> count (pm_pages ?m) p" if pk: "p \<in> key_pages s k" for p k
  proof -
    obtain a b where ab: "?m k = Some (a, b)" "p = a \<or> p = b"
      using pk unfolding key_pages_iff by blast
    then have "1 \<le> count (pair_mset (the (?m k))) p" by auto
    moreover have "count (pair_mset (the (?m k))) p \<le> count (pm_pages ?m) p"
      unfolding pm_pages_def using fin ab by (intro count_sum_le) auto
    ultimately show ?thesis by linarith
  qed
  have two: "2 \<le> count (pm_pages ?m) p" if pk: "p \<in> key_pages s k" "p \<in> key_pages s k'" and ne: "k \<noteq> k'" for p k k'
  proof -
    obtain a b c d where ab: "?m k = Some (a, b)" "p = a \<or> p = b" "?m k' = Some (c, d)" "p = c \<or> p = d"
      using pk unfolding key_pages_iff by blast
    have "k \<in> dom ?m" "k' \<in> dom ?m - {k}" using ab ne by auto
    then have "count (pair_mset (the (?m k'))) p \<le> count (\<Sum>key \<in> dom ?m - {k}. pair_mset (the (?m key))) p"
      using fin by (intro count_sum_le) auto
    moreover have "1 \<le> count (pair_mset (the (?m k))) p" "1 \<le> count (pair_mset (the (?m k'))) p"
      using ab by auto
    ultimately show ?thesis
      unfolding pm_pages_split [OF fin \<open>k \<in> dom ?m\<close>] count_union by linarith
  qed
  have "distinct (free_pool s)"
  proof -
    have "count (mset (free_pool s)) p = 1" if "p \<in> set (free_pool s)" for p
      using tot [of p] that by (auto simp flip: count_greater_zero_iff set_mset_mset)
    then show ?thesis by (auto simp: distinct_count_atmost_1 not_in_iff)
  qed
  moreover have "p \<noteq> q" if "?m k = Some (p, q)" for k p q
  proof
    assume "p = q"
    then have "2 \<le> count (pm_pages ?m) p"
      using pm_pages_split [OF fin, of k] that by (simp add: domI)
    then show False using tot [of p] by linarith
  qed
  moreover have "key_pages s k \<inter> set (free_pool s) = {}" for k
  proof -
    have False if "p \<in> key_pages s k" "p \<in> set (free_pool s)" for p
      using in_pm [OF that(1)] tot [of p] that(2) by (auto simp: Suc_le_eq simp flip: count_greater_zero_iff set_mset_mset)
    then show ?thesis by auto
  qed
  moreover have "key_pages s k \<inter> key_pages s k' = {}" if "k \<noteq> k'" for k k'
  proof -
    have False if "p \<in> key_pages s k" "p \<in> key_pages s k'" for p
      using two [OF that \<open>k \<noteq> k'\<close>] tot [of p] by linarith
    then show ?thesis by blast
  qed
  ultimately show ?thesis by (auto simp: exclusive_def)
qed

lemma keeps_exclusive:
  assumes "vinv t" "keeps s t" "\<And>p. count (all_pages s) p \<le> 1"
  shows "exclusive t"
  using exclusive_count [OF vinv_finite_dom [OF assms(1)]] assms(2,3) by (simp add: keeps_def)

text \<open>
  C3. Physical pages are never shared. If the reserved page handles are different, then after any
  step every page is in the free pool or in exactly one slot of the page map: no two requests, layers
  or blocks, and no key and value cache, ever map the same page. This also holds after an
  out-of-memory exception.
\<close>

theorem step_sync_exclusive:
  assumes "vinv s" "length qs = batch (cfg s)" "\<forall>q \<in> set qs. q \<le> max_context_length (cfg s)"
    and "\<forall>p. count (all_pages s) p \<le> 1"
  shows "holds (step_sync api qs eager s) (\<lambda>_. exclusive) (\<lambda>e t. is_exit e \<or> exclusive t)"
  by (rule holds_conseq [OF step_sync_keeps [OF assms(1-3)]])
    (use keeps_exclusive assms(4) in blast)+

theorem step_sync_exclusive_witness:
  "exclusive (out_state (step_sync ok_api [5, 1] False small))"
  by (rule ret_state [OF small_step_ret, OF step_sync_exclusive [OF vinv_small]]) auto

section \<open>Start-up\<close>

text \<open>
  C4. Start-up establishes the invariant. From an empty allocator, whatever the arguments (the
  assertions of \<^verbatim>\<open>init_kvcache\<close> reject what would overflow) and whatever the driver answers, if
  initialisation and the reservation of physical memory return, the invariant holds and no request
  holds anything.
\<close>

theorem boot_establishes_invariant:
  assumes "fresh s"
  shows "holds (obind (api_init_kvcache api nl nkv hs mb mc dev ty isz ps mega s)
      (\<lambda>_ s. reserve_physical_pages api mem s))
    (\<lambda>n t. vinv t \<and> empty_batch t) (\<lambda>_ _. True)"
  by (rule boot_dense [OF assms])

definition boot_small :: "(nat, u64) vout" where
  "boot_small =
     obind (api_init_kvcache ok_api 1 1 262144 2 8 0 Half 2 2097152 False blank)
       (\<lambda>_ s. reserve_physical_pages ok_api 12582912 s)"

lemma boot_small_ret: "is_ret boot_small"
  by code_simp

theorem boot_establishes_invariant_witness: "vinv (out_state boot_small)"
proof -
  have "holds boot_small (\<lambda>n t. vinv t \<and> empty_batch t) (\<lambda>_ _. True)"
    unfolding boot_small_def by (rule boot_establishes_invariant [OF fresh_blank])
  from ret_state [OF boot_small_ret this] show ?thesis by simp
qed

section \<open>The background memory manager\<close>

text \<open>
  C5. The background manager keeps the invariant and all pages, leaves the sequence lengths alone,
  and never takes from a request a block its current length needs. It raises no exception: only a
  driver error, which ends the process, can stop it.
\<close>

theorem manager_is_safe:
  assumes "vinv s"
  shows "holds (do_kvcache_memory_management api s)
    (\<lambda>_ t. vinv t \<and> keeps s t \<and> curr_seq_lengths t = curr_seq_lengths s \<and>
       (\<forall>r < batch (cfg s). min (mapped s r) (req_blocks s r) \<le> mapped t r))
    (\<lambda>e _. is_exit e)"
  using manager_spared [OF assms] by (simp add: spared_def [abs_def])

definition small_busy :: "nat vst" where
  "small_busy = out_state (step_sync ok_api [5, 1] False small)"

lemma vinv_small_busy: "vinv small_busy \<and> keeps small small_busy"
  unfolding small_busy_def
  by (rule ret_state [OF small_step_ret, OF step_sync_keeps [OF vinv_small]]) auto

lemma small_busy_eval:
  "mapped_pages small_busy = [2, 1] \<and> curr_seq_lengths small_busy = [5, 1] \<and>
   is_ret (do_kvcache_memory_management ok_api small_busy)"
  by code_simp

theorem manager_is_safe_witness:
  "2 \<le> mapped (out_state (do_kvcache_memory_management ok_api small_busy)) 0"
proof -
  have "holds (do_kvcache_memory_management ok_api small_busy)
    (\<lambda>_ t. vinv t \<and> keeps small_busy t \<and> curr_seq_lengths t = curr_seq_lengths small_busy \<and>
       (\<forall>r < batch (cfg small_busy). min (mapped small_busy r) (req_blocks small_busy r) \<le> mapped t r))
    (\<lambda>e _. is_exit e)"
    using vinv_small_busy by (intro manager_is_safe) simp
  from ret_state [OF _ this] show ?thesis
    using small_busy_eval keeps_cfg [of small small_busy] vinv_small_busy
    by (auto dest!: spec [where x = 0] simp: tokens_to_pages_def)
qed


definition small_tight :: "nat vst" where
  "small_tight = small\<lparr>curr_seq_lengths := [4, 0]\<rparr>"

lemma vinv_small_tight: "vinv small_tight"
  using vinv_small unfolding small_tight_def by (simp add: vinv_def)

lemma small_tight_eval: "is_ret (do_kvcache_memory_management ok_api small_tight)"
  by code_simp


end
