(* ===== verification/Vattn_Requests.thy ===== *)
theory Vattn_Requests
  imports Vattn_Correct
begin

text \<open>
  Properties of the single operations: release and reclamation, the addresses blocks are mapped at,
  request ids, free-memory and fragmentation figures, and the asynchronous step; then the inputs on
  which the code does not do what its comments say.
\<close>

section \<open>Release and reclamation\<close>

lemma free_pool_from_sum:
  assumes "vinv s" "vinv t" "keeps s t"
    and "(\<Sum>r < batch (cfg s). mapped t r) + d = (\<Sum>r < batch (cfg s). mapped s r)"
  shows "length (free_pool t) = length (free_pool s) + d * (2 * nlayers (cfg s))"
proof -
  have "length (free_pool s) + 2 * nlayers (cfg s) * (\<Sum>r < batch (cfg s). mapped s r) =
      length (free_pool t) + 2 * nlayers (cfg s) * (\<Sum>r < batch (cfg s). mapped t r)"
    using total_pages [OF assms(1)] total_pages [OF assms(2)] assms(3) by (simp add: keeps_def)
  then show ?thesis
    unfolding assms(4) [symmetric] by (simp add: algebra_simps)
qed

text \<open>
  C17. Releasing is exact: a request is left with the smaller of what it had and what it was to
  retain, the pages of every released block are back in the free pool, and nothing else changes.
\<close>

theorem release_is_exact:
  assumes "vinv s" "r < batch (cfg s)"
  shows "holds (release_kvcache_pages_some api r k s)
    (\<lambda>_ t. vinv t \<and> keeps s t \<and> curr_seq_lengths t = curr_seq_lengths s \<and>
       mapped t r = min (mapped s r) (unat k) \<and> (\<forall>q < batch (cfg s). q \<noteq> r \<longrightarrow> mapped t q = mapped s q) \<and>
       length (free_pool t) = length (free_pool s) + (mapped s r - unat k) * (2 * nlayers (cfg s)))
    (\<lambda>e _. is_exit e)"
proof (rule refines_holds [OF release_refines [OF assms]])
  fix t
  assume t: "vinv t" "keeps s t" "curr_seq_lengths t = curr_seq_lengths s"
    and st: "Some (s_release r (unat k) (abs_blocks s)) = Some (abs_blocks t)"
  have eq: "map unat (mapped_pages t) = (map unat (mapped_pages s))[r := min (mapped s r) (unat k)]"
    using arg_cong [OF st, of "\<lambda>x. held (the x)"] assms by (simp add: s_release_def vinv_lengths)
  have at: "mapped t q = (if q = r then min (mapped s r) (unat k) else mapped s q)" if "q < batch (cfg s)" for q
    using arg_cong [OF eq, of "\<lambda>xs. xs ! q"] that assms(1) t(1) keeps_cfg [OF t(2)]
    by (simp add: vinv_lengths nth_list_update split: if_splits)
  have "(\<Sum>q < batch (cfg s). mapped t q) + mapped s r =
      (\<Sum>q < batch (cfg s). mapped s q) + min (mapped s r) (unat k)"
    using sum_list_update_nth [of r "batch (cfg s)" "map unat (mapped_pages s)" "min (mapped s r) (unat k)"]
      assms t(1) keeps_cfg [OF t(2)] by (simp add: vinv_lengths flip: eq)
  then have "length (free_pool t) = length (free_pool s) + (mapped s r - unat k) * (2 * nlayers (cfg s))"
    by (intro free_pool_from_sum [OF assms(1) t(1,2)]) auto
  then show "vinv t \<and> keeps s t \<and> curr_seq_lengths t = curr_seq_lengths s \<and>
       mapped t r = min (mapped s r) (unat k) \<and> (\<forall>q < batch (cfg s). q \<noteq> r \<longrightarrow> mapped t q = mapped s q) \<and>
       length (free_pool t) = length (free_pool s) + (mapped s r - unat k) * (2 * nlayers (cfg s))"
    using t at assms(2) by simp
qed auto

lemma small_release_ret: "is_ret (release_kvcache_pages_some ok_api 0 1 small_busy)"
  by code_simp

theorem release_is_exact_witness:
  "mapped (out_state (release_kvcache_pages_some ok_api 0 1 small_busy)) 0 = 1"
proof -
  have "mapped (out_state (release_kvcache_pages_some ok_api 0 1 small_busy)) 0 = min (mapped small_busy 0) (unat (1 :: u64))"
    using ret_state [OF small_release_ret, OF release_is_exact] vinv_small_busy keeps_cfg [of small small_busy]
    by simp
  then show ?thesis using small_busy_eval by simp
qed

text \<open>
  C18. Reclamation on demand is complete and safe: afterwards the demanded blocks are free exactly
  when they can be had at all without touching what requests need, and no request has lost a block
  its current length needs.
\<close>

theorem reclaim_is_exact:
  assumes "vinv s" "n \<noteq> 0"
  shows "holds (reclaim_kvblocks_on_demand api n s)
    (\<lambda>_ t. vinv t \<and> keeps s t \<and>
       (\<forall>r < batch (cfg s). min (mapped s r) (req_blocks s r) \<le> mapped t r \<and> mapped t r \<le> mapped s r) \<and>
       (kvblocks_available t n \<longleftrightarrow>
          (\<Sum>r < batch (cfg s). min (mapped s r) (req_blocks s r)) + unat n
            \<le> size (all_pages s) div (2 * nlayers (cfg s))))
    (\<lambda>e _. is_exit e)"
proof (rule refines_holds [OF reclaim_refines [OF assms(1)]])
  let ?a = "abs_blocks s" let ?b = "s_reclaim (unat n) (rev [0..<nreq ?a]) ?a"
  fix t
  assume t: "vinv t" "keeps s t" and st: "Some ?b = Some (abs_blocks t)"
  have tr: "trimmed ?a (abs_blocks t)"
    using s_reclaim_trimmed [OF abs_bwf [OF assms(1)], of "rev [0..<nreq ?a]" "unat n"] st
    by (simp add: atLeast0LessThan)
  have "unat n \<noteq> 0" using assms(2) by (simp add: unat_eq_0)
  then have "unat n \<le> free_blocks (abs_blocks t) \<longleftrightarrow> pinned ?a + unat n \<le> cap ?a"
    using s_reclaim_exact [OF abs_bwf [OF assms(1)], of "unat n"] st by simp
  moreover have "pinned ?a = (\<Sum>r < batch (cfg s). min (mapped s r) (req_blocks s r))"
    using assms(1) by (simp add: pinned_def vinv_lengths)
  moreover have "cap ?a = size (all_pages s) div (2 * nlayers (cfg s))" by (simp add: abs_blocks_def)
  ultimately have "kvblocks_available t n \<longleftrightarrow>
      (\<Sum>r < batch (cfg s). min (mapped s r) (req_blocks s r)) + unat n
        \<le> size (all_pages s) div (2 * nlayers (cfg s))"
    using kvblocks_available_abs [OF t(1)] by simp
  then show "vinv t \<and> keeps s t \<and>
       (\<forall>r < batch (cfg s). min (mapped s r) (req_blocks s r) \<le> mapped t r \<and> mapped t r \<le> mapped s r) \<and>
       (kvblocks_available t n \<longleftrightarrow>
          (\<Sum>r < batch (cfg s). min (mapped s r) (req_blocks s r)) + unat n
            \<le> size (all_pages s) div (2 * nlayers (cfg s)))"
    using t tr assms(1) keeps_cfg [OF t(2)] by (simp add: trimmed_def vinv_lengths)
qed auto

lemma small_reclaim_ret: "is_ret (reclaim_kvblocks_on_demand ok_api 1 small_busy)"
  by code_simp

theorem reclaim_is_exact_witness:
  "2 \<le> mapped (out_state (reclaim_kvblocks_on_demand ok_api 1 small_busy)) 0"
proof -
  have "holds (reclaim_kvblocks_on_demand ok_api 1 small_busy)
    (\<lambda>_ t. vinv t \<and> keeps small_busy t \<and>
       (\<forall>r < batch (cfg small_busy). min (mapped small_busy r) (req_blocks small_busy r) \<le> mapped t r
          \<and> mapped t r \<le> mapped small_busy r) \<and>
       (kvblocks_available t 1 \<longleftrightarrow>
          (\<Sum>r < batch (cfg small_busy). min (mapped small_busy r) (req_blocks small_busy r)) + unat (1 :: u64)
            \<le> size (all_pages small_busy) div (2 * nlayers (cfg small_busy))))
    (\<lambda>e _. is_exit e)"
    using vinv_small_busy by (intro reclaim_is_exact) simp_all
  from ret_state [OF small_reclaim_ret this] show ?thesis
    using small_busy_eval keeps_cfg [of small small_busy] vinv_small_busy
    by (auto dest!: spec [where x = 0] simp: tokens_to_pages_def)
qed

section \<open>Addresses\<close>

text \<open>
  C19. No address wraps and no two blocks overlap. The offset at which the next block of a request is
  mapped is the mathematical one, the block ends inside the reserved buffer, and the blocks of
  different requests, or at different positions of one request, are at least a page apart.
\<close>

theorem map_offsets_disjoint:
  assumes "vinv s" "vinv s'" "cfg s' = cfg s" "r < batch (cfg s)" "r' < batch (cfg s)"
    and "mapped s r < unat (max_pages_per_req (cfg s))" "mapped s' r' < unat (max_pages_per_req (cfg s))"
    and "(r, mapped s r) \<noteq> (r', mapped s' r')"
  shows "(unat (get_req_current_map_offset s r) + unat (page_size (cfg s)) \<le> unat (get_req_current_map_offset s' r') \<or>
     unat (get_req_current_map_offset s' r') + unat (page_size (cfg s)) \<le> unat (get_req_current_map_offset s r)) \<and>
     unat (get_req_current_map_offset s r) + unat (page_size (cfg s)) \<le>
      batch (cfg s) * unat (virt_buff_size_per_req (cfg s))"
proof -
  let ?c = "cfg s" let ?m = "unat (max_pages_per_req ?c)" and ?p = "unat (page_size ?c)"
  define i where "i = r * ?m + mapped s r"
  define j where "j = r' * ?m + mapped s' r'"
  have g: "geom ?c" using assms(1) by (rule vinv_lengths(3))
  have oi: "unat (get_req_current_map_offset s r) = i * ?p"
    using unat_block_offset(1) [OF g assms(4,6)] by (simp add: get_req_current_map_offset_block i_def)
  have oj: "unat (get_req_current_map_offset s' r') = j * ?p"
    using unat_block_offset(1) [OF g assms(5,7)] assms(3) by (simp add: get_req_current_map_offset_block j_def)
  have "i \<noteq> j"
  proof
    assume "i = j"
    then have "i div ?m = j div ?m" "i mod ?m = j mod ?m" by simp_all
    then show False using assms(6-8) by (simp add: i_def j_def)
  qed
  then have "i + 1 \<le> j \<or> j + 1 \<le> i" by linarith
  then have "(i + 1) * ?p \<le> j * ?p \<or> (j + 1) * ?p \<le> i * ?p" using mult_le_mono1 by blast
  then have apart: "unat (get_req_current_map_offset s r) + ?p \<le> unat (get_req_current_map_offset s' r') \<or>
     unat (get_req_current_map_offset s' r') + ?p \<le> unat (get_req_current_map_offset s r)"
    unfolding oi oj by (simp add: add.commute)
  have "?m * ?p \<le> batch ?c * (?m * ?p)" using assms(4) by simp
  then have lt: "?m * ?p < 2 ^ 64" using geom_fits [OF g] by linarith
  have "unat (virt_buff_size_per_req ?c) = ?m * ?p"
    unfolding geom_vbs [OF g] by (rule unat_of_nat_u64 [OF lt])
  then have "unat (get_req_current_map_offset s r) + ?p \<le> batch ?c * unat (virt_buff_size_per_req ?c)"
    using unat_block_offset(2) [OF g assms(4,6)] by (simp add: oi i_def algebra_simps)
  with apart show ?thesis by blast
qed

theorem map_offsets_disjoint_witness:
  "unat (get_req_current_map_offset small 0) + 2097152 \<le> unat (get_req_current_map_offset small 1) \<or>
   unat (get_req_current_map_offset small 1) + 2097152 \<le> unat (get_req_current_map_offset small 0)"
  using map_offsets_disjoint [OF vinv_small vinv_small refl, of 0 1] by simp

section \<open>Request ids\<close>

lemma best_fit_range:
  assumes "best_fit s n rs i = j"
  shows "j = i \<or> (\<exists>r \<in> set rs. j = int r \<and> \<not> is_active_req s r)"
  using assms
proof (induction rs arbitrary: i)
  case (Cons r rs)
  then show ?case by (fastforce split: if_splits)
qed simp

lemma best_fit_none: "best_fit s n rs (- 1) = - 1 \<longleftrightarrow> (\<forall>r \<in> set rs. is_active_req s r)"
proof (induction rs)
  case (Cons r rs)
  have "best_fit s n rs (int r) \<noteq> - 1"
    using best_fit_range [of s n rs "int r"] by fastforce
  then show ?case using Cons by simp
qed simp

lemma alloc_batch_cases:
  assumes "tokens_per_page (cfg s) \<noteq> 0"
  shows "\<exists>i t. alloc_new_batch_idx q s = Ret i t \<and>
    (i = - 1 \<and> t = s \<and> (\<forall>r < batch (cfg s). is_active_req s r) \<or>
     (\<exists>r < batch (cfg s). i = int r \<and> \<not> is_active_req s r \<and> t = set_req_seq_length r q s))"
proof -
  let ?rs = "[0..<batch (cfg s)]" and ?n = "tokens_to_pages (cfg s) q"
  show ?thesis
  proof (cases "best_fit s ?n ?rs (- 1) = - 1")
    case True
    then show ?thesis
      using assms best_fit_none [of s ?n ?rs] by (auto simp: alloc_new_batch_idx_def)
  next
    case False
    then obtain r where "r < batch (cfg s)" "best_fit s ?n ?rs (- 1) = int r" "\<not> is_active_req s r"
      using best_fit_range [of s ?n ?rs "- 1"] by auto
    then show ?thesis using assms by (auto simp: alloc_new_batch_idx_def Let_def)
  qed
qed

text \<open>
  C20. A new request gets an id exactly when one is free. The result is -1 iff every id is active,
  and then nothing changes; otherwise it is an inactive id of the batch, whose sequence length becomes
  the given one.
\<close>

theorem alloc_new_batch_idx_correct:
  assumes "tokens_per_page (cfg s) \<noteq> 0"
  shows "\<exists>i t. alloc_new_batch_idx q s = Ret i t \<and>
    (i = - 1 \<and> t = s \<and> (\<forall>r < batch (cfg s). is_active_req s r) \<or>
     (\<exists>r < batch (cfg s). i = int r \<and> \<not> is_active_req s r \<and> t = set_req_seq_length r q s))"
  by (rule alloc_batch_cases [OF assms])

theorem alloc_new_batch_idx_correct_witness:
  "\<exists>i t. alloc_new_batch_idx 5 small = Ret i t \<and>
    (i = - 1 \<and> t = small \<and> (\<forall>r < 2. is_active_req small r) \<or>
     (\<exists>r < 2. i = int r \<and> \<not> is_active_req small r \<and> t = set_req_seq_length r 5 small))"
  using alloc_new_batch_idx_correct [of small 5] by simp

lemma best_fit_bound:
  assumes "n \<le> get_req_pages s i"
  shows "\<exists>j. best_fit s n rs (int i) = int j \<and> n \<le> get_req_pages s j \<and>
    get_req_pages s j \<le> get_req_pages s i \<and>
    (\<forall>r \<in> set rs. \<not> is_active_req s r \<and> n \<le> get_req_pages s r \<longrightarrow> get_req_pages s j \<le> get_req_pages s r)"
  using assms
proof (induction rs arbitrary: i)
  case Nil
  then show ?case by (intro exI [of _ i]) simp
next
  case (Cons r rs)
  show ?case
  proof (cases "\<not> is_active_req s r \<and> n \<le> get_req_pages s r \<and> get_req_pages s r < get_req_pages s i")
    case True
    then have eq: "best_fit s n (r # rs) (int i) = best_fit s n rs (int r)" by simp
    obtain j where j: "best_fit s n rs (int r) = int j" "n \<le> get_req_pages s j"
      "get_req_pages s j \<le> get_req_pages s r"
      "\<forall>r \<in> set rs. \<not> is_active_req s r \<and> n \<le> get_req_pages s r \<longrightarrow> get_req_pages s j \<le> get_req_pages s r"
      using Cons.IH [of r] True by blast
    moreover have "get_req_pages s j \<le> get_req_pages s i"
      using True j(3) by (meson less_imp_le order_trans)
    ultimately show ?thesis unfolding eq by simp
  next
    case False
    then have eq: "best_fit s n (r # rs) (int i) = best_fit s n rs (int i)" by auto
    obtain j where j: "best_fit s n rs (int i) = int j" "n \<le> get_req_pages s j"
      "get_req_pages s j \<le> get_req_pages s i"
      "\<forall>r \<in> set rs. \<not> is_active_req s r \<and> n \<le> get_req_pages s r \<longrightarrow> get_req_pages s j \<le> get_req_pages s r"
      using Cons.IH [OF Cons.prems] by blast
    moreover have "\<not> is_active_req s r \<and> n \<le> get_req_pages s r \<longrightarrow> get_req_pages s j \<le> get_req_pages s r"
      using False j(3) by (meson not_le order_trans)
    ultimately show ?thesis unfolding eq by simp
  qed
qed

lemma best_fit_skip:
  "\<forall>r \<in> set rs. is_active_req s r \<Longrightarrow> best_fit s n (rs @ xs) i = best_fit s n xs i"
  by (induction rs arbitrary: i) simp_all

lemma upt_split_at: "f < n \<Longrightarrow> [0..<n] = [0..<f] @ f # [Suc f..<n]"
  using upt_add_eq_append [of 0 f "n - f"] by (simp add: upt_conv_Cons)

text \<open>
  Best fit. When the first inactive id holds enough blocks for the new sequence, the chosen id
  holds enough and no inactive id with enough blocks holds fewer.
\<close>

theorem alloc_new_batch_idx_best_fit:
  assumes "tokens_per_page (cfg s) \<noteq> 0" "f < batch (cfg s)" "\<not> is_active_req s f"
    and "\<forall>r < f. is_active_req s r" "tokens_to_pages (cfg s) q \<le> get_req_pages s f"
  shows "\<exists>j t. alloc_new_batch_idx q s = Ret (int j) t \<and> tokens_to_pages (cfg s) q \<le> get_req_pages s j \<and>
    (\<forall>r < batch (cfg s). \<not> is_active_req s r \<and> tokens_to_pages (cfg s) q \<le> get_req_pages s r \<longrightarrow>
       get_req_pages s j \<le> get_req_pages s r)"
proof -
  let ?n = "tokens_to_pages (cfg s) q"
  have split: "[0..<batch (cfg s)] = [0..<f] @ f # [Suc f..<batch (cfg s)]"
    using assms(2) by (rule upt_split_at)
  have "best_fit s ?n [0..<batch (cfg s)] (- 1) = best_fit s ?n [Suc f..<batch (cfg s)] (int f)"
    unfolding split using assms(3,4) by (subst best_fit_skip) auto
  moreover obtain j where j: "best_fit s ?n [Suc f..<batch (cfg s)] (int f) = int j" "?n \<le> get_req_pages s j"
    "get_req_pages s j \<le> get_req_pages s f"
    "\<forall>r \<in> set [Suc f..<batch (cfg s)]. \<not> is_active_req s r \<and> ?n \<le> get_req_pages s r \<longrightarrow>
       get_req_pages s j \<le> get_req_pages s r"
    using best_fit_bound [OF assms(5), of "[Suc f..<batch (cfg s)]"] by blast
  moreover have "get_req_pages s j \<le> get_req_pages s r"
    if "r < batch (cfg s)" "\<not> is_active_req s r" "?n \<le> get_req_pages s r" for r
    using that j(3,4) assms(4) by (cases r f rule: linorder_cases) auto
  ultimately show ?thesis using assms(1) by (auto simp: alloc_new_batch_idx_def Let_def)
qed

theorem alloc_new_batch_idx_best_fit_witness:
  "\<exists>j t. alloc_new_batch_idx 0 small = Ret (int j) t"
  using alloc_new_batch_idx_best_fit [of small 0 0] by (auto simp: is_active_req_def)

text \<open>
  Otherwise it is first fit: when the first inactive id holds fewer blocks than the new sequence
  needs, it is taken even if another inactive id already holds enough.
\<close>

theorem alloc_new_batch_idx_first_fit:
  assumes "tokens_per_page (cfg s) \<noteq> 0" "f < batch (cfg s)" "\<not> is_active_req s f"
    and "\<forall>r < f. is_active_req s r" "get_req_pages s f < tokens_to_pages (cfg s) q"
  shows "alloc_new_batch_idx q s = Ret (int f) (set_req_seq_length f q s)"
proof -
  let ?n = "tokens_to_pages (cfg s) q"
  have split: "[0..<batch (cfg s)] = [0..<f] @ f # [Suc f..<batch (cfg s)]"
    using assms(2) by (rule upt_split_at)
  have "best_fit s ?n rs (int f) = int f" for rs
    using assms(5) by (induction rs) auto
  then have "best_fit s ?n [0..<batch (cfg s)] (- 1) = int f"
    unfolding split using assms(3,4) by (subst best_fit_skip) auto
  then show ?thesis using assms(1) by (simp add: alloc_new_batch_idx_def)
qed

text \<open>Two idle requests, the second still holding the two blocks a new sequence of 8 tokens needs.\<close>

definition small_warm :: "nat vst" where
  "small_warm = small\<lparr>mapped_pages := [0, 2]\<rparr>"

theorem alloc_new_batch_idx_first_fit_witness:
  "alloc_new_batch_idx 8 small_warm = Ret 0 (set_req_seq_length 0 8 small_warm) \<and>
   tokens_to_pages (cfg small_warm) 8 \<le> get_req_pages small_warm 1"
  using alloc_new_batch_idx_first_fit [of small_warm 0 8]
  by (simp add: small_warm_def is_active_req_def get_req_pages_def tokens_to_pages_def)

section \<open>Figures\<close>

lemma of_nat_sum_diff:
  "(\<Sum>x \<leftarrow> xs. of_nat (f x) - of_nat (g x) :: u64) = of_nat (\<Sum>x \<leftarrow> xs. f x) - of_nat (\<Sum>x \<leftarrow> xs. g x)"
  by (induction xs) simp_all

lemma num_free_kvblocks_word:
  assumes "vinv s"
  shows "num_free_kvblocks s =
    of_nat (size (all_pages s) div (2 * nlayers (cfg s))) - of_nat (\<Sum>r < batch (cfg s). req_blocks s r)"
proof -
  let ?c = "cfg s" and ?rs = "[0..<batch (cfg s)]"
  have "pages_to_kvblocks ?c (of_nat (length (free_pool s))) =
      of_nat (length (free_pool s) div (2 * nlayers ?c))"
  proof -
    have "unat (pages_to_kvblocks ?c (of_nat (length (free_pool s)))) = length (free_pool s) div (2 * nlayers ?c)"
      using pool_bound [OF assms] unat_pages_per_kvblock [OF vinv_lengths(3) [OF assms]]
      by (simp add: pages_to_kvblocks_def unat_div)
    then show ?thesis by (metis of_nat_unat_u64)
  qed
  moreover have "get_num_overcommitted_kvblocks s =
      of_nat (\<Sum>r \<leftarrow> ?rs. mapped s r) - of_nat (\<Sum>r \<leftarrow> ?rs. req_blocks s r)"
    by (simp add: get_num_overcommitted_kvblocks_def get_req_seq_length_def flip: of_nat_sum_diff)
  moreover have "(\<Sum>r \<leftarrow> ?rs. f r) = (\<Sum>r < batch ?c. f r)" for f :: "nat \<Rightarrow> nat"
    by (simp add: interv_sum_list_conv_sum_set_nat atLeast0LessThan)
  ultimately have "num_free_kvblocks s = of_nat (length (free_pool s) div (2 * nlayers ?c)) +
      (of_nat (\<Sum>r < batch ?c. mapped s r) - of_nat (\<Sum>r < batch ?c. req_blocks s r))"
    by (simp add: num_free_kvblocks_def get_num_free_kvblocks_def)
  also have "\<dots> = of_nat (cap (abs_blocks s)) - of_nat (\<Sum>r < batch ?c. req_blocks s r)"
    using abs_cap [OF assms] abs_in_use [OF assms] by simp
  finally show ?thesis by (simp add: abs_blocks_def)
qed

text \<open>
  The reported number of free blocks is exact while memory is not oversubscribed: it is the
  reserved blocks minus those the current sequences need, whatever is mapped.
\<close>

theorem num_free_kvblocks_exact:
  assumes "vinv s"
    and "(\<Sum>r < batch (cfg s). req_blocks s r) \<le> size (all_pages s) div (2 * nlayers (cfg s))"
  shows "unat (num_free_kvblocks s) =
    size (all_pages s) div (2 * nlayers (cfg s)) - (\<Sum>r < batch (cfg s). req_blocks s r)"
proof -
  let ?C = "size (all_pages s) div (2 * nlayers (cfg s))" and ?R = "\<Sum>r < batch (cfg s). req_blocks s r"
  have "size (all_pages s) < 2 ^ 64" using assms(1) by (simp add: vinv_def)
  then have "?C - ?R < 2 ^ 64" using div_le_dividend [of "size (all_pages s)" "2 * nlayers (cfg s)"] by linarith
  moreover have "num_free_kvblocks s = of_nat (?C - ?R)"
    unfolding num_free_kvblocks_word [OF assms(1)] using assms(2) by (simp only: of_nat_diff)
  ultimately show ?thesis by (simp only: unat_of_nat_u64)
qed

theorem num_free_kvblocks_exact_witness: "unat (num_free_kvblocks small) = 3"
proof -
  have "(\<Sum>r < batch (cfg small). req_blocks small r) = 0"
    by (auto simp: tokens_to_pages_def dest!: less_2_cases)
  then show ?thesis using num_free_kvblocks_exact [OF vinv_small] by simp
qed


text \<open>
  The fragmentation figures of a request that holds exactly the blocks of its sequence: all its
  tokens are resident, resident and slack tokens make up the capacity, and the slack is less than a
  page.
\<close>

theorem fragmentation_exact:
  fixes d :: "'d dbl_ops"
  assumes "geom c" "0 < q" "q \<le> max_context_length c"
    and "unat (max_pages_per_req c) * unat (tokens_per_page c) < 2 ^ 64"
  defines "m \<equiv> compute_fragmentation_metrics d c q (tokens_to_pages c q)"
  shows "fm_resident_tokens m = q \<and>
    unat (fm_resident_tokens m) + unat (fm_slack_tokens m) = unat (fm_mapped_token_capacity m) \<and>
    fm_slack_tokens m < tokens_per_page c"
proof -
  let ?t = "unat (tokens_per_page c)" and ?n = "ceil_div (unat q) (unat (tokens_per_page c))"
  have g: "tokens_per_page c \<noteq> 0" "unat (max_context_length c) + ?t \<le> 2 ^ 64"
    "max_pages_per_req c = tokens_to_pages c (max_context_length c)"
    using assms(1) by (simp_all add: geom_def)
  have t: "0 < ?t" using g(1) by (simp add: unat_gt_0)
  have q: "unat q \<le> unat (max_context_length c)" "0 < unat q"
    using assms(2,3) by (simp_all add: word_le_nat_alt unat_gt_0 word_greater_zero_iff)
  have n: "unat (tokens_to_pages c q) = ?n"
    using g q by (simp add: unat_tokens_to_pages)
  have "?n \<le> unat (max_pages_per_req c)"
    using g q t by (simp add: unat_tokens_to_pages ceil_div_mono)
  then have "?n * ?t \<le> unat (max_pages_per_req c) * ?t" by (rule mult_le_mono1)
  then have "?n * ?t < 2 ^ 64" using assms(4) by linarith
  then have cap: "unat (tokens_to_pages c q * tokens_per_page c) = ?n * ?t"
    using n by (subst unat_mult_no_wrap) simp_all
  have ge: "unat q \<le> ?n * ?t" using t by (rule ceil_div_mult_ge)
  have le: "q \<le> tokens_to_pages c q * tokens_per_page c" by (simp add: word_le_nat_alt cap ge)
  have slack: "unat (tokens_to_pages c q * tokens_per_page c - q) = ?n * ?t - unat q"
    using le by (simp add: unat_sub cap)
  have res: "fm_resident_tokens m = q"
    using le by (auto simp: m_def compute_fragmentation_metrics_def Let_def not_less dest: order_antisym)
  moreover have "fm_slack_tokens m = tokens_to_pages c q * tokens_per_page c - q"
    using le by (auto simp: m_def compute_fragmentation_metrics_def Let_def not_less)
  moreover have "fm_mapped_token_capacity m = tokens_to_pages c q * tokens_per_page c"
    by (simp add: m_def compute_fragmentation_metrics_def Let_def)
  moreover have "?n * ?t - unat q < ?t" using ceil_div_slack [OF t q(2)] ge by linarith
  ultimately show ?thesis using slack cap ge by (simp add: word_less_nat_alt)
qed

definition int_dbl :: "int dbl_ops" where
  "int_dbl = \<lparr>dbl_of_u64 = uint, dbl_mul = (*), dbl_div = (div), dbl_sub = (-), dbl_100 = 100, dbl_0 = 0\<rparr>"

theorem fragmentation_exact_witness:
  "fm_resident_tokens (compute_fragmentation_metrics int_dbl small_cfg 5 (tokens_to_pages small_cfg 5)) = 5"
proof -
  have "geom small_cfg" using geom_small by (simp add: small_def)
  then show ?thesis
    using fragmentation_exact [of small_cfg 5 int_dbl] by (simp add: small_cfg_def)
qed

section \<open>Clean-up\<close>

text \<open>Every request released: all pages are in the pool again, once each.\<close>

lemma release_all_refines:
  assumes "vinv s" "r < batch (cfg s)"
  shows "holds (release_kvcache_pages_all api r s)
    (\<lambda>_ t. vinv t \<and> keeps s t \<and> mapped t r = 0 \<and>
      (\<forall>q < batch (cfg s). mapped t q \<le> mapped s q)) (\<lambda>e _. is_exit e)"
  unfolding release_kvcache_pages_all_def
proof (rule refines_holds [OF release_refines [OF assms]])
  fix t
  assume t: "vinv t" "keeps s t" and st: "Some (s_release r (unat (0 :: u64)) (abs_blocks s)) = Some (abs_blocks t)"
  have "mapped t q = (if q = r then 0 else mapped s q)" if "q < batch (cfg s)" for q
    using arg_cong [OF st, of "\<lambda>x. held (the x) ! q"] that assms t(1) keeps_cfg [OF t(2)]
    by (simp add: s_release_def vinv_lengths nth_list_update split: if_splits)
  then show "vinv t \<and> keeps s t \<and> mapped t r = 0 \<and> (\<forall>q < batch (cfg s). mapped t q \<le> mapped s q)"
    using t assms(2) by simp
qed auto


lemma small_cleanup_ret: "is_ret (for_each (release_kvcache_pages_all ok_api) [0..<2] small_busy)"
  by code_simp


end
