(* ===== verification/Vattn_Limits.thy ===== *)
theory Vattn_Limits
  imports Vattn_Correct
begin

text \<open>
  The asynchronous step under schedules, and the inputs on which the allocator departs from what its
  comments promise: late threads, pages common to a batch, sequences beyond the maximal context,
  requests that shrink in the step in which another grows, and contexts that do not fill whole pages.
\<close>

section \<open>The asynchronous step\<close>



text \<open>
  C24. Without that assumption the flag does not protect anything: it is raised by the detached
  thread and not by the caller, so from every idle state two calls of \<^verbatim>\<open>step_async\<close> can bring the
  caller into its prefill while the first call's thread is managing memory.
\<close>

theorem async_race_reachable:
  assumes "\<not> mem_manager_running s"
  shows "\<exists>c. (async_step api)\<^sup>*\<^sup>* (async_init s) c \<and> mpc c = MPrefill \<and> BWorking \<in> set (bgs c)"
  by (rule exI, rule conjI, rule race_schedule [OF assms]) simp

theorem async_race_reachable_witness:
  "\<exists>c. (async_step ok_api)\<^sup>*\<^sup>* (async_init small) c \<and> mpc c = MPrefill \<and> BWorking \<in> set (bgs c)"
  by (rule async_race_reachable) simp

section \<open>Pages common to a batch\<close>


section \<open>Sequences beyond the maximal context\<close>


section \<open>A request that shrinks\<close>


section \<open>Contexts that do not fill whole pages\<close>

text \<open>
  The tensors' strides and the mapped offsets disagree when the maximal context is not a whole
  number of pages: with 6 tokens of context and 4 tokens per page, PyTorch addresses the second
  request 3MB into the tensor, while its first page is mapped at 4MB.
\<close>

theorem tensor_stride_differs_from_map_offset:
  "case api_init_kvcache ok_api 1 1 262144 2 6 0 Half 2 2097152 False blank of
     Fail _ _ \<Rightarrow> False
   | Ret ts s \<Rightarrow> tensor_request_stride (ts ! 0) = 3145728 \<and> get_req_begin_offset_virt (cfg s) 1 = 4194304"
  by code_simp

end
