(* ===== verification/Uvm_Tree.thy ===== *)
theory Uvm_Tree
  imports Vattn_Prelude "HOL-Library.Tree"
begin

text \<open>
  What the two indexed containers of the UVM driver share
  (\<^verbatim>\<open>src/nvidia-vattn-uvm-driver/kernel-open/nvidia-uvm/uvm_range_tree.c\<close> and
  \<^verbatim>\<open>uvm_rb_tree.c\<close>): a search tree of node pointers and a doubly linked list of the same pointers
  in the same order. \<^verbatim>\<open>rb_insert_color\<close> and \<^verbatim>\<open>rb_erase\<close> belong to the kernel; they are
  a parameter, with the documented law that rebalancing keeps the in-order sequence. The list
  primitives and the descent through the tree are modelled here.
\<close>

type_synonym node_ptr = nat

datatype NV_STATUS =
    NV_OK
  | NV_ERR_UVM_ADDRESS_IN_USE
  | NV_ERR_IN_USE
  | NV_ERR_NO_MEMORY
  | NV_ERR_INVALID_ADDRESS
  | NV_ERR_INVALID_ARGUMENT
  | NV_ERR_INVALID_DEVICE
  | NV_ERR_ILLEGAL_ACTION

record rb_ops =
  rb_insert_color :: "node_ptr tree \<Rightarrow> node_ptr tree"
  rb_erase :: "node_ptr \<Rightarrow> node_ptr tree \<Rightarrow> node_ptr tree"

definition rb_ok :: "rb_ops \<Rightarrow> bool" where
  "rb_ok rb \<longleftrightarrow> (\<forall>t. inorder (rb_insert_color rb t) = inorder t) \<and>
     (\<forall>n t. inorder (rb_erase rb n t) = remove1 n (inorder t))"

lemma rb_okD [simp]:
  assumes "rb_ok rb"
  shows "inorder (rb_insert_color rb t) = inorder t" "inorder (rb_erase rb n t) = remove1 n (inorder t)"
  using assms by (simp_all add: rb_ok_def)

section \<open>Successors of words\<close>

lemma u64_less_inc: "(x :: u64) < y \<Longrightarrow> x < x + 1"
  using unat_plus_one [of x y] by (simp add: word_less_nat_alt)

lemma u64_le_dec: "(z :: u64) < y \<Longrightarrow> x \<le> y - 1 \<longleftrightarrow> x < y"
  using less_imp_less_eq_dec interval_class.less_eq_dec_imp_less by blast

lemma u64_inc_le: "(x :: u64) < y \<Longrightarrow> x + 1 \<le> z \<longleftrightarrow> x < z"
  using u64_less_inc [of x y] inc_le [of x z] by (auto dest: order.strict_trans2)

lemma u64_less_inc_iff: "(x :: u64) < y \<Longrightarrow> z < x + 1 \<longleftrightarrow> z \<le> x"
  using u64_inc_le [of x y z] by auto

section \<open>Linked lists\<close>

text \<open>\<^verbatim>\<open>list_add(&n, &p)\<close> and \<^verbatim>\<open>list_add_tail(&n, &p)\<close>: link \<open>n\<close> after or before \<open>p\<close>.\<close>

fun list_add_after :: "'a \<Rightarrow> 'a \<Rightarrow> 'a list \<Rightarrow> 'a list" where
  "list_add_after p n [] = []"
| "list_add_after p n (x # xs) = (if x = p then x # n # xs else x # list_add_after p n xs)"

fun list_add_before :: "'a \<Rightarrow> 'a \<Rightarrow> 'a list \<Rightarrow> 'a list" where
  "list_add_before p n [] = []"
| "list_add_before p n (x # xs) = (if x = p then n # x # xs else x # list_add_before p n xs)"

text \<open>The neighbours of a node; \<open>None\<close> where the list head is next.\<close>

fun list_next :: "'a \<Rightarrow> 'a list \<Rightarrow> 'a option" where
  "list_next n [] = None"
| "list_next n (x # xs) =
     (if x = n then (case xs of [] \<Rightarrow> None | y # _ \<Rightarrow> Some y) else list_next n xs)"

fun list_prev :: "'a \<Rightarrow> 'a list \<Rightarrow> 'a option" where
  "list_prev n (x # y # ys) = (if y = n then Some x else list_prev n (y # ys))"
| "list_prev n _ = None"

lemma list_add_split [simp]:
  assumes "p \<notin> set xs"
  shows "list_add_after p n (xs @ p # ys) = xs @ p # n # ys"
    and "list_add_before p n (xs @ p # ys) = xs @ n # p # ys"
  using assms by (induction xs) auto

lemma list_next_split [simp]:
  "n \<notin> set xs \<Longrightarrow> list_next n (xs @ n # ys) = (case ys of [] \<Rightarrow> None | y # _ \<Rightarrow> Some y)"
  by (induction xs) auto

lemma list_prev_None: "n \<notin> set xs \<Longrightarrow> list_prev n (x # xs) = None"
  by (induction xs arbitrary: x) auto

lemma list_prev_split [simp]:
  "n \<notin> set xs \<Longrightarrow> n \<notin> set ys \<Longrightarrow>
   list_prev n (xs @ n # ys) = (if xs = [] then None else Some (last xs))"
proof (induction xs)
  case (Cons x xs)
  then show ?case by (cases xs) auto
qed (simp add: list_prev_None)

section \<open>Descent\<close>

text \<open>
  The loop of \<^verbatim>\<open>range_node_find\<close> and \<^verbatim>\<open>uvm_rb_tree_find_node\<close>: \<open>lt\<close> and \<open>gt\<close>
  are the two comparisons with the node at hand. The second result is the parent pointer: the last
  node passed.
\<close>

fun rb_walk :: "('a \<Rightarrow> bool) \<Rightarrow> ('a \<Rightarrow> bool) \<Rightarrow> 'a tree \<Rightarrow> 'a option \<Rightarrow> 'a option \<times> 'a option" where
  "rb_walk lt gt Leaf par = (None, par)"
| "rb_walk lt gt (Node l n r) par =
     (if lt n then rb_walk lt gt l (Some n)
      else if gt n then rb_walk lt gt r (Some n)
      else (Some n, par))"

text \<open>\<^verbatim>\<open>rb_link_node(n, p, &p->rb_left)\<close> and its mirror image.\<close>

fun rb_link_left :: "'a \<Rightarrow> 'a \<Rightarrow> 'a tree \<Rightarrow> 'a tree" where
  "rb_link_left p n Leaf = Leaf"
| "rb_link_left p n (Node l a r) =
     (if a = p then Node (Node Leaf n Leaf) a r else Node (rb_link_left p n l) a (rb_link_left p n r))"

fun rb_link_right :: "'a \<Rightarrow> 'a \<Rightarrow> 'a tree \<Rightarrow> 'a tree" where
  "rb_link_right p n Leaf = Leaf"
| "rb_link_right p n (Node l a r) =
     (if a = p then Node l a (Node Leaf n Leaf) else Node (rb_link_right p n l) a (rb_link_right p n r))"

lemma rb_link_other [simp]:
  assumes "p \<notin> set (inorder t)"
  shows "rb_link_left p n t = t" "rb_link_right p n t = t"
  using assms by (induction t) auto

section \<open>Ordered nodes\<close>

text \<open>
  The nodes cover disjoint intervals \<open>[lo n, hi n]\<close>, in ascending order. A tree of keys is the
  case in which both bounds are the key.
\<close>

definition ordered :: "('a \<Rightarrow> u64) \<Rightarrow> ('a \<Rightarrow> u64) \<Rightarrow> 'a list \<Rightarrow> bool" where
  "ordered lo hi xs \<longleftrightarrow> sorted_wrt (\<lambda>a b. hi a < lo b) xs \<and> (\<forall>a \<in> set xs. lo a \<le> hi a)"

lemma ordered_Nil [simp]: "ordered lo hi []"
  by (simp add: ordered_def)

lemma ordered_Cons [simp]:
  "ordered lo hi (x # xs) \<longleftrightarrow> lo x \<le> hi x \<and> (\<forall>y \<in> set xs. hi x < lo y) \<and> ordered lo hi xs"
  by (auto simp: ordered_def)

lemma ordered_append [simp]:
  "ordered lo hi (xs @ ys) \<longleftrightarrow>
   ordered lo hi xs \<and> ordered lo hi ys \<and> (\<forall>x \<in> set xs. \<forall>y \<in> set ys. hi x < lo y)"
  by (auto simp: ordered_def sorted_wrt_append)

lemma ordered_distinct: "ordered lo hi xs \<Longrightarrow> distinct xs"
  by (induction xs) (auto dest: leD)

lemma ordered_remove1: "ordered lo hi xs \<Longrightarrow> ordered lo hi (remove1 n xs)"
  by (induction xs) (auto dest: notin_set_remove1)

lemma ordered_cong:
  "(\<And>a. a \<in> set xs \<Longrightarrow> lo a = lo' a \<and> hi a = hi' a) \<Longrightarrow> ordered lo hi xs = ordered lo' hi' xs"
  by (induction xs) auto

lemma ordered_bounds:
  assumes "ordered lo hi (xs @ p # ys)"
  shows "x \<in> set xs \<Longrightarrow> hi x < lo p" "y \<in> set ys \<Longrightarrow> hi p < lo y" "lo p \<le> hi p"
    "x \<in> set xs \<Longrightarrow> lo x \<le> hi x" "y \<in> set ys \<Longrightarrow> lo y \<le> hi y"
  using assms by (auto simp: ordered_def sorted_wrt_append)

lemma ordered_unique:
  "ordered lo hi xs \<Longrightarrow> ordered lo hi ys \<Longrightarrow> set xs = set ys \<Longrightarrow> xs = ys"
proof (induction xs arbitrary: ys)
  case (Cons x xs)
  then obtain y zs where ys: "ys = y # zs" by (cases ys) auto
  have "x = y"
  proof (rule ccontr)
    assume "x \<noteq> y"
    then have "hi x < lo y" "hi y < lo x" using Cons.prems ys by auto
    then show False using Cons.prems(1,2) ys by auto
  qed
  moreover have "set xs = set zs"
    using Cons.prems ordered_distinct [OF Cons.prems(1)] ordered_distinct [OF Cons.prems(2)] ys \<open>x = y\<close>
    by auto
  ultimately show ?case using Cons ys by auto
qed simp

lemma ordered_window:
  assumes "ordered lo hi xs"
  shows "takeWhile (\<lambda>n. lo n \<le> b) (dropWhile (\<lambda>n. hi n < a) xs) = filter (\<lambda>n. a \<le> hi n \<and> lo n \<le> b) xs"
proof -
  have t: "takeWhile (\<lambda>n. lo n \<le> b) ys = filter (\<lambda>n. lo n \<le> b) ys" if "ordered lo hi ys" for ys
    using that
  proof (induction ys)
    case (Cons y ys)
    have "filter (\<lambda>n. lo n \<le> b) ys = []" if "b < lo y"
      using that Cons.prems by (fastforce simp: filter_empty_conv)
    then show ?case using Cons by (auto simp: not_le)
  qed simp
  have d: "dropWhile (\<lambda>n. hi n < a) ys = filter (\<lambda>n. a \<le> hi n) ys" if "ordered lo hi ys" for ys
    using that
  proof (induction ys)
    case (Cons y ys)
    have "filter (\<lambda>n. a \<le> hi n) ys = ys" if "a \<le> hi y"
      using that Cons.prems by (auto simp: filter_id_conv) (meson less_imp_le order_trans ordered_def)
    then show ?case using Cons by auto
  qed simp
  have "ordered lo hi (filter (\<lambda>n. a \<le> hi n) xs)"
    using assms by (induction xs) auto
  then show ?thesis using d [OF assms] t by (simp add: conj_commute)
qed

text \<open>Where the descent ends: at the node that contains the key, or at the gap for it.\<close>

definition gap_at :: "('a \<Rightarrow> u64) \<Rightarrow> ('a \<Rightarrow> u64) \<Rightarrow> u64 \<Rightarrow> 'a \<Rightarrow> 'a tree \<Rightarrow> 'a list \<Rightarrow> 'a list \<Rightarrow> bool" where
  "gap_at lo hi k p t xs ys \<longleftrightarrow> inorder t = xs @ p # ys \<and>
     (k < lo p \<and> (\<forall>x \<in> set xs. hi x < k) \<and> (\<forall>n. inorder (rb_link_left p n t) = xs @ n # p # ys) \<or>
      hi p < k \<and> (\<forall>y \<in> set ys. k < lo y) \<and> (\<forall>n. inorder (rb_link_right p n t) = xs @ p # n # ys))"

lemma gap_at_left:
  assumes "gap_at lo hi k p l xs ys" "ordered lo hi (inorder (Node l a r))" "k < lo a"
  shows "gap_at lo hi k p (Node l a r) xs (ys @ a # inorder r)"
proof -
  have "p \<in> set (inorder l)" using assms(1) by (auto simp: gap_at_def)
  moreover have "distinct (inorder (Node l a r))" by (rule ordered_distinct [OF assms(2)])
  ultimately have "p \<noteq> a" "p \<notin> set (inorder r)" by auto
  moreover have "k < lo y" if "y \<in> set (inorder r)" for y
    using assms(2,3) that by (auto intro: less_trans dest: order.strict_trans1)
  ultimately show ?thesis using assms(1,3) by (auto simp: gap_at_def)
qed

lemma gap_at_right:
  assumes "gap_at lo hi k p r xs ys" "ordered lo hi (inorder (Node l a r))" "hi a < k"
  shows "gap_at lo hi k p (Node l a r) (inorder l @ a # xs) ys"
proof -
  have "p \<in> set (inorder r)" using assms(1) by (auto simp: gap_at_def)
  moreover have "distinct (inorder (Node l a r))" by (rule ordered_distinct [OF assms(2)])
  ultimately have "p \<noteq> a" "p \<notin> set (inorder l)" by auto
  moreover have "hi x < k" if "x \<in> set (inorder l)" for x
    using assms(2,3) that by (auto intro: less_trans dest: order.strict_trans2)
  ultimately show ?thesis using assms(1,3) by (auto simp: gap_at_def)
qed

lemma rb_walk_spec:
  assumes "ordered lo hi (inorder t)"
  shows "(\<exists>n p. rb_walk (\<lambda>n. k < lo n) (\<lambda>n. hi n < k) t par = (Some n, p) \<and>
            n \<in> set (inorder t) \<and> lo n \<le> k \<and> k \<le> hi n) \<or>
         rb_walk (\<lambda>n. k < lo n) (\<lambda>n. hi n < k) t par = (None, par) \<and> t = Leaf \<or>
         (\<exists>p xs ys. rb_walk (\<lambda>n. k < lo n) (\<lambda>n. hi n < k) t par = (None, Some p) \<and>
            gap_at lo hi k p t xs ys)"
  using assms
proof (induction t arbitrary: par)
  case (Node l a r)
  have o: "ordered lo hi (inorder l)" "ordered lo hi (inorder r)" using Node.prems by auto
  consider "k < lo a" | "\<not> k < lo a" "hi a < k" | "\<not> k < lo a" "\<not> hi a < k" by blast
  then show ?case
  proof cases
    case 1
    have "gap_at lo hi k a (Node l a r) [] (inorder r)" if "l = Leaf"
      using that 1 by (auto simp: gap_at_def)
    with Node.IH(1) [OF o(1), of "Some a"] 1 gap_at_left [OF _ Node.prems 1] show ?thesis by fastforce
  next
    case 2
    have "gap_at lo hi k a (Node l a r) (inorder l) []" if "r = Leaf"
      using that 2 by (auto simp: gap_at_def)
    with Node.IH(2) [OF o(2), of "Some a"] 2 gap_at_right [OF _ Node.prems 2(2)] show ?thesis by fastforce
  qed auto
qed simp

section \<open>The contract of an index\<close>

lemma option_eqI: "(\<And>a. x = Some a \<longleftrightarrow> y = Some a) \<Longrightarrow> x = y"
  by (cases x; cases y) auto

text \<open>
  Both containers look nodes up by a 64-bit key. \<open>covers t n\<close> are the keys of node \<open>n\<close>;
  \<open>ready t n\<close> says that \<open>n\<close> is not linked and its bounds are in order.
\<close>

locale search_index =
  fixes inv :: "'t \<Rightarrow> bool"
    and items :: "'t \<Rightarrow> node_ptr list"
    and covers :: "'t \<Rightarrow> node_ptr \<Rightarrow> u64 \<Rightarrow> bool"
    and ready :: "'t \<Rightarrow> node_ptr \<Rightarrow> bool"
    and lookup :: "'t \<Rightarrow> u64 \<Rightarrow> node_ptr option"
    and add :: "'t \<Rightarrow> node_ptr \<Rightarrow> NV_STATUS \<times> 't"
    and del :: "'t \<Rightarrow> node_ptr \<Rightarrow> 't"
  assumes lookup_iff: "inv t \<Longrightarrow> lookup t k = Some n \<longleftrightarrow> n \<in> set (items t) \<and> covers t n k"
    and add_ok: "inv t \<Longrightarrow> ready t n \<Longrightarrow> add t n = (NV_OK, t') \<Longrightarrow>
      inv t' \<and> set (items t') = insert n (set (items t)) \<and> covers t' = covers t"
    and add_ok_iff: "inv t \<Longrightarrow> ready t n \<Longrightarrow>
      fst (add t n) = NV_OK \<longleftrightarrow> (\<forall>m \<in> set (items t). \<forall>k. \<not> (covers t n k \<and> covers t m k))"
    and add_err: "inv t \<Longrightarrow> ready t n \<Longrightarrow> fst (add t n) \<noteq> NV_OK \<Longrightarrow> snd (add t n) = t"
    and del_inv: "inv t \<Longrightarrow> inv (del t n)"
    and del_items: "inv t \<Longrightarrow> set (items (del t n)) = set (items t) - {n}"
    and del_covers: "covers (del t n) = covers t"
begin

lemma add_fails_iff:
  assumes "inv t" "ready t n"
  shows "fst (add t n) \<noteq> NV_OK \<longleftrightarrow> (\<exists>k. covers t n k \<and> lookup t k \<noteq> None)"
  using add_ok_iff [OF assms] lookup_iff [OF assms(1)] by blast

lemma lookup_add:
  assumes "inv t" "ready t n"
  shows "lookup (snd (add t n)) k =
    (if fst (add t n) = NV_OK \<and> covers t n k then Some n else lookup t k)"
proof (cases "fst (add t n) = NV_OK")
  case True
  then have a: "add t n = (NV_OK, snd (add t n))" by (metis prod.collapse)
  note ok = add_ok [OF assms a]
  have i: "inv (snd (add t n))" using ok by blast
  have free: "\<not> covers t n k" if "m \<in> set (items t)" "covers t m k" for m
    using that True add_ok_iff [OF assms] by blast
  have step: "lookup (snd (add t n)) k = Some m \<longleftrightarrow> (m = n \<or> m \<in> set (items t)) \<and> covers t m k" for m
    using lookup_iff [OF i] ok by simp
  show ?thesis
  proof (cases "covers t n k")
    case True
    then show ?thesis using step [of n] \<open>fst (add t n) = NV_OK\<close> by simp
  next
    case False
    then have "lookup (snd (add t n)) k = Some m \<longleftrightarrow> lookup t k = Some m" for m
      using step [of m] lookup_iff [OF assms(1)] by blast
    then have "lookup (snd (add t n)) k = lookup t k" by (rule option_eqI)
    with False show ?thesis by simp
  qed
qed (use add_err [OF assms] in auto)

lemma lookup_del:
  assumes "inv t"
  shows "lookup (del t n) k = (if lookup t k = Some n then None else lookup t k)"
proof (rule option_eqI)
  fix m
  have "lookup (del t n) k = Some m \<longleftrightarrow> m \<noteq> n \<and> lookup t k = Some m"
    by (auto simp: lookup_iff [OF assms] lookup_iff [OF del_inv [OF assms]] del_items [OF assms] del_covers)
  then show "lookup (del t n) k = Some m \<longleftrightarrow>
      (if lookup t k = Some n then None else lookup t k) = Some m" by auto
qed

end

end
