(* ===== verification/Uvm_Range_Tree.thy ===== *)
theory Uvm_Range_Tree
  imports Uvm_Tree
begin

text \<open>
  The range tree of the UVM driver
  (\<^verbatim>\<open>src/nvidia-vattn-uvm-driver/kernel-open/nvidia-uvm/uvm_range_tree.c\<close> and \<^verbatim>\<open>.h\<close>): a map
  from disjoint address ranges to nodes. A node is a pointer; its bounds live in the store
  \<open>nodes\<close>, since splitting, shrinking and merging update them in place. Conditions of
  \<^verbatim>\<open>UVM_ASSERT\<close> have no effect in release builds; the ones about the tree are consequences of
  the invariant \<open>rt_inv\<close>. The lemmas describe each operation on the list of ranges in address
  order.
\<close>

record range_node =
  rn_start :: u64
  rn_end :: u64

record range_tree =
  nodes :: "node_ptr \<Rightarrow> range_node"
  rb_root :: "node_ptr tree"
  head :: "node_ptr list"

definition n_start :: "range_tree \<Rightarrow> node_ptr \<Rightarrow> u64" where
  "n_start t n = rn_start (nodes t n)"

definition n_end :: "range_tree \<Rightarrow> node_ptr \<Rightarrow> u64" where
  "n_end t n = rn_end (nodes t n)"

definition set_node :: "node_ptr \<Rightarrow> u64 \<Rightarrow> u64 \<Rightarrow> range_tree \<Rightarrow> range_tree" where
  "set_node n s e t = t\<lparr>nodes := (nodes t)(n := \<lparr>rn_start = s, rn_end = e\<rparr>)\<rparr>"

definition ULLONG_MAX :: u64 where "ULLONG_MAX = - 1"

section \<open>Operations\<close>

definition uvm_ranges_overlap :: "u64 \<Rightarrow> u64 \<Rightarrow> u64 \<Rightarrow> u64 \<Rightarrow> bool" where
  "uvm_ranges_overlap a_start a_end b_start b_end \<longleftrightarrow> a_end \<ge> b_start \<and> b_end \<ge> a_start"

definition range_nodes_overlap :: "range_tree \<Rightarrow> node_ptr \<Rightarrow> node_ptr \<Rightarrow> bool" where
  "range_nodes_overlap t a b = uvm_ranges_overlap (n_start t a) (n_end t a) (n_start t b) (n_end t b)"

definition uvm_range_tree_prev :: "range_tree \<Rightarrow> node_ptr \<Rightarrow> node_ptr option" where
  "uvm_range_tree_prev t n = list_prev n (head t)"

definition uvm_range_tree_next :: "range_tree \<Rightarrow> node_ptr \<Rightarrow> node_ptr option" where
  "uvm_range_tree_next t n = list_next n (head t)"

text \<open>The node, its parent and the next node.\<close>

definition range_node_find :: "range_tree \<Rightarrow> u64 \<Rightarrow> node_ptr option \<times> node_ptr option \<times> node_ptr option" where
  "range_node_find t addr =
     (let (node, parent) = rb_walk (\<lambda>n. addr < n_start t n) (\<lambda>n. n_end t n < addr) (rb_root t) None;
          next = (case node of
              Some n \<Rightarrow> uvm_range_tree_next t n
            | None \<Rightarrow> (case parent of
                None \<Rightarrow> None
              | Some p \<Rightarrow> if n_start t p > addr then Some p else uvm_range_tree_next t p))
      in (node, parent, next))"

definition uvm_range_tree_init :: "(node_ptr \<Rightarrow> range_node) \<Rightarrow> range_tree" where
  "uvm_range_tree_init h = \<lparr>nodes = h, rb_root = Leaf, head = []\<rparr>"

definition uvm_range_tree_add :: "rb_ops \<Rightarrow> range_tree \<Rightarrow> node_ptr \<Rightarrow> NV_STATUS \<times> range_tree" where
  "uvm_range_tree_add rb t node =
     (let (match, parent, _) = range_node_find t (n_start t node) in
      if match \<noteq> None then (NV_ERR_UVM_ADDRESS_IN_USE, t)
      else case parent of
        None \<Rightarrow> (NV_OK, t\<lparr>rb_root := rb_insert_color rb (Node Leaf node Leaf), head := node # head t\<rparr>)
      | Some p \<Rightarrow>
          if range_nodes_overlap t node p then (NV_ERR_UVM_ADDRESS_IN_USE, t)
          else if n_start t node < n_start t p then
            (NV_OK, t\<lparr>rb_root := rb_insert_color rb (rb_link_left p node (rb_root t)),
                      head := list_add_before p node (head t)\<rparr>)
          else if (case uvm_range_tree_next t p of
                     None \<Rightarrow> False | Some nx \<Rightarrow> range_nodes_overlap t node nx)
          then (NV_ERR_UVM_ADDRESS_IN_USE, t)
          else (NV_OK, t\<lparr>rb_root := rb_insert_color rb (rb_link_right p node (rb_root t)),
                         head := list_add_after p node (head t)\<rparr>))"

definition uvm_range_tree_remove :: "rb_ops \<Rightarrow> range_tree \<Rightarrow> node_ptr \<Rightarrow> range_tree" where
  "uvm_range_tree_remove rb t node = t\<lparr>rb_root := rb_erase rb node (rb_root t), head := remove1 node (head t)\<rparr>"

definition uvm_range_tree_shrink_node :: "range_tree \<Rightarrow> node_ptr \<Rightarrow> u64 \<Rightarrow> u64 \<Rightarrow> range_tree" where
  "uvm_range_tree_shrink_node t node new_start new_end = set_node node new_start new_end t"

definition uvm_range_tree_split :: "rb_ops \<Rightarrow> range_tree \<Rightarrow> node_ptr \<Rightarrow> node_ptr \<Rightarrow> range_tree" where
  "uvm_range_tree_split rb t existing new =
     (let t1 = set_node new (n_start t new) (n_end t existing) t;
          t2 = set_node existing (n_start t1 existing) (n_start t1 new - 1) t1
      in snd (uvm_range_tree_add rb t2 new))"

definition uvm_range_tree_merge_prev :: "rb_ops \<Rightarrow> range_tree \<Rightarrow> node_ptr \<Rightarrow> node_ptr option \<times> range_tree" where
  "uvm_range_tree_merge_prev rb t node =
     (case uvm_range_tree_prev t node of
        None \<Rightarrow> (None, t)
      | Some prev \<Rightarrow>
          if n_end t prev \<noteq> n_start t node - 1 then (None, t)
          else let t1 = uvm_range_tree_remove rb t prev
               in (Some prev, set_node node (n_start t1 prev) (n_end t1 node) t1))"

definition uvm_range_tree_merge_next :: "rb_ops \<Rightarrow> range_tree \<Rightarrow> node_ptr \<Rightarrow> node_ptr option \<times> range_tree" where
  "uvm_range_tree_merge_next rb t node =
     (case uvm_range_tree_next t node of
        None \<Rightarrow> (None, t)
      | Some next \<Rightarrow>
          if n_start t next \<noteq> n_end t node + 1 then (None, t)
          else let t1 = uvm_range_tree_remove rb t next
               in (Some next, set_node node (n_start t1 node) (n_end t1 next) t1))"

definition uvm_range_tree_find :: "range_tree \<Rightarrow> u64 \<Rightarrow> node_ptr option" where
  "uvm_range_tree_find t addr = fst (range_node_find t addr)"

definition uvm_range_tree_iter_first :: "range_tree \<Rightarrow> u64 \<Rightarrow> u64 \<Rightarrow> node_ptr option" where
  "uvm_range_tree_iter_first t start end =
     (let (node, _, next) = range_node_find t start in
      case node of
        Some n \<Rightarrow> Some n
      | None \<Rightarrow> (case next of
            None \<Rightarrow> None
          | Some nx \<Rightarrow> if n_start t nx \<le> end then Some nx else None))"

definition uvm_range_tree_iter_next :: "range_tree \<Rightarrow> node_ptr \<Rightarrow> u64 \<Rightarrow> node_ptr option" where
  "uvm_range_tree_iter_next t node end =
     (case uvm_range_tree_next t node of
        None \<Rightarrow> None
      | Some nx \<Rightarrow> if n_start t nx \<le> end then Some nx else None)"

definition uvm_range_tree_empty :: "range_tree \<Rightarrow> bool" where
  "uvm_range_tree_empty t \<longleftrightarrow> head t = []"

definition uvm_range_tree_last :: "range_tree \<Rightarrow> node_ptr option" where
  "uvm_range_tree_last t = (if head t = [] then None else Some (last (head t)))"

definition uvm_range_tree_node_size :: "range_tree \<Rightarrow> node_ptr \<Rightarrow> u64" where
  "uvm_range_tree_node_size t n = n_end t n - n_start t n + 1"

definition uvm_range_tree_find_hole :: "range_tree \<Rightarrow> u64 \<Rightarrow> NV_STATUS + u64 \<times> u64" where
  "uvm_range_tree_find_hole t addr =
     (case uvm_range_tree_iter_first t addr ULLONG_MAX of
        Some node \<Rightarrow>
          if n_start t node \<le> addr then Inl NV_ERR_UVM_ADDRESS_IN_USE
          else Inr (case uvm_range_tree_prev t node of None \<Rightarrow> 0 | Some p \<Rightarrow> n_end t p + 1,
                    n_start t node - 1)
      | None \<Rightarrow>
          Inr (case uvm_range_tree_last t of None \<Rightarrow> 0 | Some p \<Rightarrow> n_end t p + 1, ULLONG_MAX))"

definition uvm_range_tree_find_hole_in :: "range_tree \<Rightarrow> u64 \<Rightarrow> u64 \<Rightarrow> u64 \<Rightarrow> NV_STATUS + u64 \<times> u64" where
  "uvm_range_tree_find_hole_in t addr start end =
     (case uvm_range_tree_find_hole t addr of
        Inl e \<Rightarrow> Inl e
      | Inr (temp_start, temp_end) \<Rightarrow> Inr (max temp_start start, min temp_end end))"

text \<open>\<^verbatim>\<open>uvm_range_tree_for_each_in\<close>: the nodes its loop visits, in order.\<close>

fun nodes_from :: "range_tree \<Rightarrow> u64 \<Rightarrow> nat \<Rightarrow> node_ptr option \<Rightarrow> node_ptr list" where
  "nodes_from t end fuel None = []"
| "nodes_from t end 0 (Some n) = []"
| "nodes_from t end (Suc fuel) (Some n) = n # nodes_from t end fuel (uvm_range_tree_iter_next t n end)"

definition uvm_range_tree_for_each_in :: "range_tree \<Rightarrow> u64 \<Rightarrow> u64 \<Rightarrow> node_ptr list" where
  "uvm_range_tree_for_each_in t start end =
     nodes_from t end (length (head t)) (uvm_range_tree_iter_first t start end)"

section \<open>Invariant\<close>

definition rt_inv :: "range_tree \<Rightarrow> bool" where
  "rt_inv t \<longleftrightarrow> inorder (rb_root t) = head t \<and> ordered (n_start t) (n_end t) (head t)"

definition in_node :: "range_tree \<Rightarrow> node_ptr \<Rightarrow> u64 \<Rightarrow> bool" where
  "in_node t n a \<longleftrightarrow> n_start t n \<le> a \<and> a \<le> n_end t n"

definition covered :: "range_tree \<Rightarrow> u64 set" where
  "covered t = {a. \<exists>n \<in> set (head t). in_node t n a}"

lemma set_node_fields [simp]:
  "head (set_node n s e t) = head t" "rb_root (set_node n s e t) = rb_root t"
  "n_start (set_node n s e t) m = (if m = n then s else n_start t m)"
  "n_end (set_node n s e t) m = (if m = n then e else n_end t m)"
  by (simp_all add: set_node_def n_start_def n_end_def)

lemma n_fields [simp]:
  "n_start (t\<lparr>rb_root := r\<rparr>) = n_start t" "n_end (t\<lparr>rb_root := r\<rparr>) = n_end t"
  "n_start (t\<lparr>head := h\<rparr>) = n_start t" "n_end (t\<lparr>head := h\<rparr>) = n_end t"
  by (simp_all add: n_start_def n_end_def fun_eq_iff)

lemma in_node_fields [simp]:
  "in_node (t\<lparr>rb_root := r\<rparr>) = in_node t" "in_node (t\<lparr>head := h\<rparr>) = in_node t"
  by (simp_all add: in_node_def fun_eq_iff)

lemma rt_inv_distinct: "rt_inv t \<Longrightarrow> distinct (head t)"
  unfolding rt_inv_def using ordered_distinct by blast

lemma rt_inv_init: "rt_inv (uvm_range_tree_init h)"
  by (simp add: rt_inv_def uvm_range_tree_init_def)

lemma rt_inv_insert:
  assumes "rt_inv t" "head t = xs @ ys" "n_start t n \<le> n_end t n"
    and "\<forall>x \<in> set xs. n_end t x < n_start t n" "\<forall>y \<in> set ys. n_end t n < n_start t y"
    and "inorder r = xs @ n # ys"
  shows "rt_inv (t\<lparr>rb_root := r, head := xs @ n # ys\<rparr>)"
  using assms by (auto simp: rt_inv_def)

section \<open>Search\<close>

text \<open>Where a search ends, and which node it reports as the next one.\<close>

lemma range_node_find_cases:
  assumes "rt_inv t"
  obtains
    (hit) n p where "range_node_find t a = (Some n, p, uvm_range_tree_next t n)"
      "n \<in> set (head t)" "in_node t n a"
  | (empty) "range_node_find t a = (None, None, None)" "head t = []"
  | (before) p xs ys where "range_node_find t a = (None, Some p, Some p)" "head t = xs @ p # ys"
      "a < n_start t p" "\<forall>x \<in> set xs. n_end t x < a"
      "\<And>n. inorder (rb_link_left p n (rb_root t)) = xs @ n # p # ys"
  | (after) p xs ys where
      "range_node_find t a = (None, Some p, case ys of [] \<Rightarrow> None | y # _ \<Rightarrow> Some y)"
      "head t = xs @ p # ys" "n_end t p < a" "\<forall>y \<in> set ys. a < n_start t y"
      "\<And>n. inorder (rb_link_right p n (rb_root t)) = xs @ p # n # ys"
proof -
  let ?w = "rb_walk (\<lambda>n. a < n_start t n) (\<lambda>n. n_end t n < a) (rb_root t) None"
  have o: "ordered (n_start t) (n_end t) (inorder (rb_root t))" and h: "head t = inorder (rb_root t)"
    using assms by (simp_all add: rt_inv_def)
  note d = rt_inv_distinct [OF assms]
  consider (found) n p where "?w = (Some n, p)" "n \<in> set (head t)" "n_start t n \<le> a" "a \<le> n_end t n"
    | (e) "?w = (None, None)" "rb_root t = Leaf"
    | (g) p xs ys where "?w = (None, Some p)" "gap_at (n_start t) (n_end t) a p (rb_root t) xs ys"
    using rb_walk_spec [OF o, of a None, folded h] by blast
  then show thesis
  proof cases
    case found
    then show ?thesis by (intro hit [of n p]) (auto simp: range_node_find_def in_node_def)
  next
    case e
    then show ?thesis by (intro empty) (auto simp: range_node_find_def h)
  next
    case g
    have hd: "head t = xs @ p # ys" using g(2) by (simp add: gap_at_def h)
    then have nx: "uvm_range_tree_next t p = (case ys of [] \<Rightarrow> None | y # _ \<Rightarrow> Some y)"
      using d by (simp add: uvm_range_tree_next_def)
    have le: "n_start t p \<le> n_end t p" using o hd h by auto
    from g(2) consider "a < n_start t p" "\<forall>x \<in> set xs. n_end t x < a"
        "\<And>n. inorder (rb_link_left p n (rb_root t)) = xs @ n # p # ys"
      | "n_end t p < a" "\<forall>y \<in> set ys. a < n_start t y"
        "\<And>n. inorder (rb_link_right p n (rb_root t)) = xs @ p # n # ys"
      by (auto simp: gap_at_def)
    then show ?thesis
    proof cases
      case 1
      then show ?thesis using g(1) hd by (intro before [of p xs ys]) (auto simp: range_node_find_def)
    next
      case 2
      then have "\<not> a < n_start t p" using le by auto
      then show ?thesis using 2 g(1) hd nx by (intro after [of p ys xs]) (auto simp: range_node_find_def)
    qed
  qed
qed

lemma in_node_unique:
  assumes "rt_inv t" "n \<in> set (head t)" "m \<in> set (head t)" "in_node t n a" "in_node t m a"
  shows "n = m"
proof -
  have *: "\<And>n m. ordered (n_start t) (n_end t) xs \<Longrightarrow> n \<in> set xs \<Longrightarrow> m \<in> set xs \<Longrightarrow>
    in_node t n a \<Longrightarrow> in_node t m a \<Longrightarrow> n = m" for xs
    by (induction xs) (force simp: in_node_def)+
  show ?thesis using assms by (auto simp: rt_inv_def intro: *)
qed

lemma not_in_split:
  assumes "head t = xs @ ys" "\<forall>x \<in> set xs. n_end t x < a" "\<forall>y \<in> set ys. a < n_start t y"
  shows "n \<in> set (head t) \<Longrightarrow> \<not> in_node t n a"
  using assms by (auto simp: in_node_def not_le)

text \<open>A miss splits the nodes into those below and those above the address.\<close>

lemma range_node_find_miss:
  assumes "rt_inv t" "fst (range_node_find t a) = None"
  obtains xs ys where "head t = xs @ ys" "\<forall>x \<in> set xs. n_end t x < a" "\<forall>y \<in> set ys. a < n_start t y"
    "snd (snd (range_node_find t a)) = (case ys of [] \<Rightarrow> None | y # _ \<Rightarrow> Some y)"
  using assms(1)
proof (cases rule: range_node_find_cases [where a = a])
  case (before p xs ys)
  have "\<forall>y \<in> set (p # ys). a < n_start t y"
    using assms(1) before(2,3) by (fastforce simp: rt_inv_def)
  then show ?thesis using before by (intro that [of xs "p # ys"]) auto
next
  case (after p xs ys)
  have "\<forall>x \<in> set (xs @ [p]). n_end t x < a"
    using assms(1) after(2,3) by (fastforce simp: rt_inv_def)
  then show ?thesis using after by (intro that [of "xs @ [p]" ys]) auto
qed (use assms(2) that [of "[]" "[]"] in auto)

lemma find_iff:
  assumes "rt_inv t"
  shows "uvm_range_tree_find t a = Some n \<longleftrightarrow> n \<in> set (head t) \<and> in_node t n a"
proof (cases "fst (range_node_find t a)")
  case None
  then obtain xs ys where "head t = xs @ ys" "\<forall>x \<in> set xs. n_end t x < a" "\<forall>y \<in> set ys. a < n_start t y"
    by (rule range_node_find_miss [OF assms])
  from not_in_split [OF this] None show ?thesis by (auto simp: uvm_range_tree_find_def)
next
  case (Some m)
  then have "m \<in> set (head t)" "in_node t m a"
    by (cases rule: range_node_find_cases [OF assms, where a = a]; auto)+
  then show ?thesis using Some in_node_unique [OF assms] by (auto simp: uvm_range_tree_find_def)
qed

lemma range_find_None_iff: "rt_inv t \<Longrightarrow> uvm_range_tree_find t a = None \<longleftrightarrow> a \<notin> covered t"
  using find_iff [of t a] by (auto simp: covered_def) (metis option.exhaust)

section \<open>Insertion and removal\<close>

definition rt_ready :: "range_tree \<Rightarrow> node_ptr \<Rightarrow> bool" where
  "rt_ready t n \<longleftrightarrow> n \<notin> set (head t) \<and> n_start t n \<le> n_end t n"

lemma overlap_iff:
  assumes "n_start t n \<le> n_end t n" "n_start t m \<le> n_end t m"
  shows "range_nodes_overlap t n m \<longleftrightarrow> (\<exists>a. in_node t n a \<and> in_node t m a)"
proof
  assume "range_nodes_overlap t n m"
  then have "in_node t n (max (n_start t n) (n_start t m)) \<and> in_node t m (max (n_start t n) (n_start t m))"
    using assms by (auto simp: range_nodes_overlap_def uvm_ranges_overlap_def in_node_def max_def)
  then show "\<exists>a. in_node t n a \<and> in_node t m a" by blast
qed (auto simp: range_nodes_overlap_def uvm_ranges_overlap_def in_node_def)

lemma add_cases:
  assumes "rb_ok rb" "rt_inv t" "rt_ready t n"
  obtains
    (ok) xs ys r where "uvm_range_tree_add rb t n = (NV_OK, t\<lparr>rb_root := r, head := xs @ n # ys\<rparr>)"
      "inorder r = xs @ n # ys" "head t = xs @ ys"
      "\<forall>x \<in> set xs. n_end t x < n_start t n" "\<forall>y \<in> set ys. n_end t n < n_start t y"
  | (in_use) m where "uvm_range_tree_add rb t n = (NV_ERR_UVM_ADDRESS_IN_USE, t)"
      "m \<in> set (head t)" "range_nodes_overlap t n m"
proof -
  have rdy: "n \<notin> set (head t)" "n_start t n \<le> n_end t n" using assms(3) by (simp_all add: rt_ready_def)
  have o: "ordered (n_start t) (n_end t) (head t)" using assms(2) by (simp add: rt_inv_def)
  show thesis
    using assms(2)
  proof (cases rule: range_node_find_cases [where a = "n_start t n"])
    case (hit m p)
    then have "range_nodes_overlap t n m"
      using rdy(2) by (auto simp: in_node_def range_nodes_overlap_def uvm_ranges_overlap_def)
    then show ?thesis using hit by (intro in_use [of m]) (auto simp: uvm_range_tree_add_def)
  next
    case empty
    then show ?thesis
      using assms(1) by (intro ok [of "[]" "[]" "rb_insert_color rb (Node Leaf n Leaf)"])
        (auto simp: uvm_range_tree_add_def)
  next
    case (before p xs ys)
    have pn: "p \<notin> set xs" using rt_inv_distinct [OF assms(2)] before(2) by auto
    show ?thesis
    proof (cases "range_nodes_overlap t n p")
      case True
      then show ?thesis using before by (intro in_use [of p]) (auto simp: uvm_range_tree_add_def)
    next
      case False
      then have lt: "n_end t n < n_start t p"
        using before(3) ordered_bounds(3) [OF o [unfolded before(2)]]
        by (auto simp: range_nodes_overlap_def uvm_ranges_overlap_def not_le)
      then have "\<forall>y \<in> set (p # ys). n_end t n < n_start t y"
        using o before(2) by fastforce
      then show ?thesis using False before pn assms(1)
        by (intro ok [of xs "p # ys" "rb_insert_color rb (rb_link_left p n (rb_root t))"])
          (auto simp: uvm_range_tree_add_def)
    qed
  next
    case (after p xs ys)
    have d: "p \<notin> set xs" using rt_inv_distinct [OF assms(2)] after(2) by auto
    have np: "\<not> range_nodes_overlap t n p"
      using after(3) by (auto simp: range_nodes_overlap_def uvm_ranges_overlap_def)
    have lt: "\<not> n_start t n < n_start t p"
      using after(3) ordered_bounds(3) [OF o [unfolded after(2)]] by auto
    have nx: "uvm_range_tree_next t p = (case ys of [] \<Rightarrow> None | y # _ \<Rightarrow> Some y)"
      using d after(2) by (simp add: uvm_range_tree_next_def)
    show ?thesis
    proof (cases "\<exists>y zs. ys = y # zs \<and> range_nodes_overlap t n y")
      case True
      then obtain y zs where y: "ys = y # zs" "range_nodes_overlap t n y" by blast
      then show ?thesis using after np lt nx by (intro in_use [of y]) (auto simp: uvm_range_tree_add_def)
    next
      case False
      have above: "\<forall>y \<in> set ys. n_end t n < n_start t y"
      proof (cases ys)
        case (Cons y zs)
        then have "\<not> range_nodes_overlap t n y" using False by blast
        moreover have "n_start t n < n_start t y" "n_start t y \<le> n_end t y"
          using after(4) Cons o after(2) by auto
        ultimately have "n_end t n < n_start t y"
          by (auto simp: range_nodes_overlap_def uvm_ranges_overlap_def not_le)
        then show ?thesis using o after(2) Cons by fastforce
      qed simp
      have below: "\<forall>x \<in> set (xs @ [p]). n_end t x < n_start t n"
        using o after(2,3) by fastforce
      have "(case uvm_range_tree_next t p of None \<Rightarrow> False | Some nx \<Rightarrow> range_nodes_overlap t n nx) = False"
        using False nx by (auto split: list.splits)
      then show ?thesis using after np lt d above below assms(1)
        by (intro ok [of "xs @ [p]" ys "rb_insert_color rb (rb_link_right p n (rb_root t))"])
          (auto simp: uvm_range_tree_add_def)
    qed
  qed
qed

lemma add_ok_inv:
  assumes "rb_ok rb" "rt_inv t" "rt_ready t n" "uvm_range_tree_add rb t n = (NV_OK, t')"
  shows "rt_inv t' \<and> set (head t') = insert n (set (head t)) \<and> in_node t' = in_node t \<and> nodes t' = nodes t"
  using assms(1-3)
proof (cases rule: add_cases)
  case (ok xs ys r)
  have "rt_inv (t\<lparr>rb_root := r, head := xs @ n # ys\<rparr>)"
    by (rule rt_inv_insert) (use ok assms in \<open>auto simp: rt_ready_def\<close>)
  then show ?thesis using ok assms(4) by auto
qed (use assms(4) in auto)

lemma rt_inv_bounds: "rt_inv t \<Longrightarrow> m \<in> set (head t) \<Longrightarrow> n_start t m \<le> n_end t m"
  by (auto simp: rt_inv_def ordered_def)

lemma add_ok_iff_disjoint:
  assumes "rb_ok rb" "rt_inv t" "rt_ready t n"
  shows "fst (uvm_range_tree_add rb t n) = NV_OK \<longleftrightarrow>
    (\<forall>m \<in> set (head t). \<forall>a. \<not> (in_node t n a \<and> in_node t m a))"
  using assms
proof (cases rule: add_cases)
  case (ok xs ys r)
  have "\<not> (in_node t n a \<and> in_node t m a)" if "m \<in> set (head t)" for m a
    using that ok(3-5) by (force simp: in_node_def)
  then show ?thesis using ok(1) by simp
next
  case (in_use m)
  then have "\<exists>a. in_node t n a \<and> in_node t m a"
    using overlap_iff [of t n m] assms(3) rt_inv_bounds [OF assms(2)] by (simp add: rt_ready_def)
  then show ?thesis using in_use by auto
qed

lemma add_err_same:
  assumes "rb_ok rb" "rt_inv t" "rt_ready t n" "fst (uvm_range_tree_add rb t n) \<noteq> NV_OK"
  shows "uvm_range_tree_add rb t n = (NV_ERR_UVM_ADDRESS_IN_USE, t)"
  by (rule add_cases [OF assms(1-3)]) (use assms(4) in auto)

lemma remove_inv:
  assumes "rb_ok rb" "rt_inv t"
  shows "rt_inv (uvm_range_tree_remove rb t n)"
    "head (uvm_range_tree_remove rb t n) = remove1 n (head t)"
    "in_node (uvm_range_tree_remove rb t n) = in_node t"
    "n_start (uvm_range_tree_remove rb t n) = n_start t"
    "n_end (uvm_range_tree_remove rb t n) = n_end t"
  using assms by (simp_all add: uvm_range_tree_remove_def rt_inv_def ordered_remove1)

interpretation rt: search_index
  "\<lambda>(rb, t). rb_ok rb \<and> rt_inv t" "\<lambda>(rb, t). head t" "\<lambda>(rb, t). in_node t" "\<lambda>(rb, t). rt_ready t"
  "\<lambda>(rb, t). uvm_range_tree_find t" "\<lambda>(rb, t) n. map_prod id (Pair rb) (uvm_range_tree_add rb t n)"
  "\<lambda>(rb, t) n. (rb, uvm_range_tree_remove rb t n)"
proof (unfold_locales, goal_cases)
  case (1 t k n)
  then show ?case by (auto simp: find_iff split: prod.splits)
next
  case (2 t n t')
  then show ?case using add_ok_inv [of "fst t" "snd t" n]
    by (cases "uvm_range_tree_add (fst t) (snd t) n") (auto split: prod.splits)
next
  case (3 t n)
  then show ?case by (auto simp: add_ok_iff_disjoint split: prod.splits)
next
  case (4 t n)
  then show ?case by (auto simp: add_err_same split: prod.splits)
next
  case (5 t n)
  then show ?case by (auto simp: remove_inv split: prod.splits)
next
  case (6 t n)
  then show ?case using rt_inv_distinct by (auto simp: remove_inv split: prod.splits)
next
  case (7 t n)
  then show ?case
    by (auto simp: uvm_range_tree_remove_def in_node_def n_start_def n_end_def fun_eq_iff split: prod.splits)
qed

section \<open>Iteration\<close>

lemma iter_first_eq:
  assumes "rt_inv t" "s \<le> e"
  shows "uvm_range_tree_iter_first t s e =
    (case dropWhile (\<lambda>n. n_end t n < s) (head t) of
       [] \<Rightarrow> None | y # _ \<Rightarrow> if n_start t y \<le> e then Some y else None)"
proof (cases "fst (range_node_find t s)")
  case None
  then obtain xs ys where h: "head t = xs @ ys" "\<forall>x \<in> set xs. n_end t x < s"
      "\<forall>y \<in> set ys. s < n_start t y"
      "snd (snd (range_node_find t s)) = (case ys of [] \<Rightarrow> None | y # _ \<Rightarrow> Some y)"
    by (rule range_node_find_miss [OF assms(1)])
  have "dropWhile (\<lambda>n. n_end t n < s) (head t) = ys"
  proof (cases ys)
    case (Cons y zs)
    then have "\<not> n_end t y < s" using h(1,3) rt_inv_bounds [OF assms(1), of y] by force
    then show ?thesis using h(1,2) Cons by (simp add: dropWhile_append3 dropWhile_append2)
  qed (use h in \<open>simp add: dropWhile_eq_Nil_conv\<close>)
  then show ?thesis using None h(4)
    by (auto simp: uvm_range_tree_iter_first_def split: prod.splits list.splits)
next
  case (Some n)
  then have n: "n \<in> set (head t)" "in_node t n s"
    using find_iff [OF assms(1), of s n] by (simp_all add: uvm_range_tree_find_def)
  then obtain xs ys where h: "head t = xs @ n # ys" by (auto simp: in_set_conv_decomp)
  have "\<forall>x \<in> set xs. n_end t x < s"
    using assms(1) n(2) by (fastforce simp: rt_inv_def h in_node_def)
  then have "dropWhile (\<lambda>n. n_end t n < s) (head t) = n # ys"
    using n(2) by (auto simp: h dropWhile_append2 in_node_def)
  then show ?thesis using Some n(2) assms(2)
    by (auto simp: uvm_range_tree_iter_first_def in_node_def split: prod.splits)
qed

lemma nodes_from_eq:
  assumes "distinct (xs @ n # ys)" "head t = xs @ n # ys" "length ys < fuel"
  shows "nodes_from t e fuel (Some n) = n # takeWhile (\<lambda>y. n_start t y \<le> e) ys"
  using assms
proof (induction ys arbitrary: n xs fuel)
  case Nil
  then obtain f where "fuel = Suc f" by (cases fuel) auto
  with Nil show ?case by (simp add: uvm_range_tree_iter_next_def uvm_range_tree_next_def)
next
  case (Cons y ys)
  then obtain f where f: "fuel = Suc f" by (cases fuel) auto
  have "nodes_from t e f (Some y) = y # takeWhile (\<lambda>y. n_start t y \<le> e) ys"
    by (rule Cons.IH [of "xs @ [n]"]) (use Cons.prems f in auto)
  with Cons.prems f show ?case by (auto simp: uvm_range_tree_iter_next_def uvm_range_tree_next_def)
qed

lemma for_each_in_eq:
  assumes "rt_inv t" "s \<le> e"
  shows "uvm_range_tree_for_each_in t s e = filter (\<lambda>n. s \<le> n_end t n \<and> n_start t n \<le> e) (head t)"
proof -
  let ?d = "dropWhile (\<lambda>n. n_end t n < s) (head t)"
  have "uvm_range_tree_for_each_in t s e = takeWhile (\<lambda>n. n_start t n \<le> e) ?d"
  proof (cases ?d)
    case Nil
    then show ?thesis unfolding uvm_range_tree_for_each_in_def iter_first_eq [OF assms] Nil by simp
  next
    case (Cons y ys)
    have h: "head t = takeWhile (\<lambda>n. n_end t n < s) (head t) @ y # ys"
      using takeWhile_dropWhile_id [of "\<lambda>n. n_end t n < s" "head t"] Cons by simp
    have "nodes_from t e (length (head t)) (Some y) = y # takeWhile (\<lambda>y. n_start t y \<le> e) ys"
      by (rule nodes_from_eq [OF _ h]) (use rt_inv_distinct [OF assms(1)] h in \<open>simp, metis length_append
        length_Cons less_add_Suc2 add_Suc_right\<close>)
    then show ?thesis unfolding uvm_range_tree_for_each_in_def iter_first_eq [OF assms] Cons by simp
  qed
  then show ?thesis using ordered_window [of "n_start t" "n_end t" "head t"] assms(1)
    by (simp add: rt_inv_def)
qed

section \<open>Holes\<close>

lemma find_hole_in_use:
  assumes "rt_inv t" "a \<in> covered t"
  shows "uvm_range_tree_find_hole t a = Inl NV_ERR_UVM_ADDRESS_IN_USE"
proof -
  obtain n where n: "n \<in> set (head t)" "in_node t n a" using assms(2) by (auto simp: covered_def)
  then have "fst (range_node_find t a) = Some n"
    using find_iff [OF assms(1)] by (simp add: uvm_range_tree_find_def)
  then show ?thesis using n(2)
    by (auto simp: uvm_range_tree_find_hole_def uvm_range_tree_iter_first_def in_node_def split: prod.splits)
qed

lemma word_le_max [simp]: "(x :: u64) \<le> ULLONG_MAX"
  by (simp add: ULLONG_MAX_def word_order.extremum)

lemma find_hole_free:
  assumes "rt_inv t" "a \<notin> covered t"
  obtains xs ys where "head t = xs @ ys" "\<forall>x \<in> set xs. n_end t x < a" "\<forall>y \<in> set ys. a < n_start t y"
    "uvm_range_tree_find_hole t a =
       Inr (if xs = [] then 0 else n_end t (last xs) + 1,
            case ys of [] \<Rightarrow> ULLONG_MAX | y # _ \<Rightarrow> n_start t y - 1)"
proof -
  have miss: "fst (range_node_find t a) = None"
    using range_find_None_iff [OF assms(1), of a] assms(2) by (simp add: uvm_range_tree_find_def)
  obtain xs ys where h: "head t = xs @ ys" "\<forall>x \<in> set xs. n_end t x < a"
      "\<forall>y \<in> set ys. a < n_start t y"
      "snd (snd (range_node_find t a)) = (case ys of [] \<Rightarrow> None | y # _ \<Rightarrow> Some y)"
    by (rule range_node_find_miss [OF assms(1) miss])
  have it: "uvm_range_tree_iter_first t a ULLONG_MAX = (case ys of [] \<Rightarrow> None | y # _ \<Rightarrow> Some y)"
    using miss h(4) by (auto simp: uvm_range_tree_iter_first_def split: prod.splits list.splits)
  have "uvm_range_tree_find_hole t a =
       Inr (if xs = [] then 0 else n_end t (last xs) + 1,
            case ys of [] \<Rightarrow> ULLONG_MAX | y # _ \<Rightarrow> n_start t y - 1)"
  proof (cases ys)
    case Nil
    then show ?thesis using it h(1) by (simp add: uvm_range_tree_find_hole_def uvm_range_tree_last_def)
  next
    case (Cons y zs)
    have "uvm_range_tree_prev t y = (if xs = [] then None else Some (last xs))"
      using rt_inv_distinct [OF assms(1)] h(1) Cons by (simp add: uvm_range_tree_prev_def)
    then show ?thesis using it h(3) Cons by (auto simp: uvm_range_tree_find_hole_def not_le)
  qed
  with h that show thesis by blast
qed

lemma last_is_highest:
  assumes "ordered lo hi xs" "x \<in> set xs"
  shows "hi x \<le> hi (last xs)"
  using assms
proof (induction xs rule: rev_induct)
  case (snoc y ys)
  then show ?case by (auto dest: less_imp_le order.strict_trans2)
qed simp

text \<open>A hole contains the address, holds no node and cannot be extended on either side.\<close>

definition largest_hole :: "range_tree \<Rightarrow> u64 \<Rightarrow> u64 \<times> u64 \<Rightarrow> bool" where
  "largest_hole t a = (\<lambda>(lo, hi). lo \<le> a \<and> a \<le> hi \<and> {lo..hi} \<inter> covered t = {} \<and>
     (lo = 0 \<or> lo - 1 \<in> covered t) \<and> (hi = ULLONG_MAX \<or> hi + 1 \<in> covered t))"

lemma find_hole_largest:
  assumes "rt_inv t" "a \<notin> covered t"
  shows "\<exists>w. uvm_range_tree_find_hole t a = Inr w \<and> largest_hole t a w"
proof -
  obtain xs ys where h: "head t = xs @ ys" "\<forall>x \<in> set xs. n_end t x < a" "\<forall>y \<in> set ys. a < n_start t y"
    "uvm_range_tree_find_hole t a =
       Inr (if xs = [] then 0 else n_end t (last xs) + 1,
            case ys of [] \<Rightarrow> ULLONG_MAX | y # _ \<Rightarrow> n_start t y - 1)" (is "_ = Inr (?lo, ?hi)")
    by (rule find_hole_free [OF assms])
  have o: "ordered (n_start t) (n_end t) xs" "ordered (n_start t) (n_end t) ys"
    using assms(1) h(1) by (simp_all add: rt_inv_def)
  have lo: "?lo \<le> a" "?lo = 0 \<or> ?lo - 1 \<in> covered t" "\<And>x. x \<in> set xs \<Longrightarrow> n_end t x < ?lo"
  proof -
    show "?lo \<le> a" using h(2) by (auto intro: inc_le)
    show "?lo = 0 \<or> ?lo - 1 \<in> covered t"
      using h(1) o(1) by (cases xs rule: rev_cases) (auto simp: covered_def in_node_def)
    show "n_end t x < ?lo" if "x \<in> set xs" for x
    proof -
      have "n_end t (last xs) < a" using h(2) that by (auto intro!: last_in_set)
      then show ?thesis using that last_is_highest [OF o(1) that] by (auto simp: u64_less_inc_iff)
    qed
  qed
  have hi: "a \<le> ?hi" "?hi = ULLONG_MAX \<or> ?hi + 1 \<in> covered t" "\<And>y. y \<in> set ys \<Longrightarrow> ?hi < n_start t y"
  proof -
    show "a \<le> ?hi" using h(3) by (auto simp: u64_le_dec split: list.split)
    show "?hi = ULLONG_MAX \<or> ?hi + 1 \<in> covered t"
      using h(1) o(2) by (cases ys) (auto simp: covered_def in_node_def)
    show "?hi < n_start t y" if y: "y \<in> set ys" for y
    proof (cases ys)
      case (Cons z zs)
      have "z = y \<or> n_end t z < n_start t y" "n_start t z \<le> n_end t z" using y o(2) Cons by auto
      then have "n_start t z \<le> n_start t y" by auto
      moreover have "n_start t z - 1 < n_start t z"
        using u64_le_dec [of a "n_start t z" "n_start t z - 1"] h(3) Cons by simp
      ultimately show ?thesis using Cons by simp
    qed (use y in simp)
  qed
  have "{?lo..?hi} \<inter> covered t = {}"
    using lo(3) hi(3) h(1) by (fastforce simp: covered_def in_node_def)
  then show ?thesis using h(4) lo(1,2) hi(1,2) by (simp add: largest_hole_def)
qed

section \<open>Shrinking, splitting and merging\<close>

text \<open>The ranges in address order.\<close>

definition range_list :: "range_tree \<Rightarrow> (node_ptr \<times> u64 \<times> u64) list" where
  "range_list t = map (\<lambda>n. (n, n_start t n, n_end t n)) (head t)"

definition as_range :: "range_tree \<Rightarrow> node_ptr \<Rightarrow> node_ptr \<times> u64 \<times> u64" where
  "as_range t n = (n, n_start t n, n_end t n)"

lemma range_list_split:
  "head t = xs @ n # ys \<Longrightarrow> range_list t = map (as_range t) xs @ (n, n_start t n, n_end t n) # map (as_range t) ys"
  by (simp add: range_list_def as_range_def [abs_def])

lemma set_node_others:
  assumes "rt_inv t" "head t = xs @ n # ys"
  shows "map (as_range (set_node n s e t)) xs = map (as_range t) xs"
    "map (as_range (set_node n s e t)) ys = map (as_range t) ys"
  using rt_inv_distinct [OF assms(1)] assms(2) by (auto simp: as_range_def)

lemma rt_inv_set_node:
  assumes "rt_inv t" "head t = xs @ n # ys" "s \<le> e"
    and "\<forall>x \<in> set xs. n_end t x < s" "\<forall>y \<in> set ys. e < n_start t y"
  shows "rt_inv (set_node n s e t)"
proof -
  let ?t = "set_node n s e t"
  have d: "n \<notin> set xs" "n \<notin> set ys" using rt_inv_distinct [OF assms(1)] assms(2) by auto
  have "ordered (n_start ?t) (n_end ?t) zs = ordered (n_start t) (n_end t) zs" if "n \<notin> set zs" for zs
    by (rule ordered_cong) (use that in auto)
  then show ?thesis using assms d by (auto simp: rt_inv_def)
qed

lemma shrink_node_inv:
  assumes "rt_inv t" "head t = xs @ n # ys" "n_start t n \<le> s" "s \<le> e" "e \<le> n_end t n"
  shows "rt_inv (uvm_range_tree_shrink_node t n s e)"
    and "range_list (uvm_range_tree_shrink_node t n s e) = map (as_range t) xs @ (n, s, e) # map (as_range t) ys"
proof -
  have "ordered (n_start t) (n_end t) (xs @ n # ys)" using assms(1,2) by (simp add: rt_inv_def)
  from ordered_bounds [OF this] assms(3,5)
  have b: "\<forall>x \<in> set xs. n_end t x < s" "\<forall>y \<in> set ys. e < n_start t y"
    by (blast intro: order.strict_trans2 order.strict_trans1)+
  show "rt_inv (uvm_range_tree_shrink_node t n s e)"
    unfolding uvm_range_tree_shrink_node_def by (rule rt_inv_set_node [OF assms(1,2,4) b])
  show "range_list (uvm_range_tree_shrink_node t n s e) = map (as_range t) xs @ (n, s, e) # map (as_range t) ys"
    unfolding uvm_range_tree_shrink_node_def
    using range_list_split [of "set_node n s e t" xs n ys] set_node_others [OF assms(1,2)] assms(2) by simp
qed

lemma rt_inv_set_other:
  assumes "rt_inv t" "n \<notin> set (head t)"
  shows "rt_inv (set_node n s e t)"
proof -
  have "ordered (n_start (set_node n s e t)) (n_end (set_node n s e t)) (head t) =
      ordered (n_start t) (n_end t) (head t)"
    by (rule ordered_cong) (use assms(2) in auto)
  then show ?thesis using assms(1) by (simp add: rt_inv_def)
qed

lemma split_eq:
  assumes "rb_ok rb" "rt_inv t" "head t = xs @ n # ys" "new \<notin> set (head t)"
    and "n_start t n < n_start t new" "n_start t new \<le> n_end t n"
  shows "rt_inv (uvm_range_tree_split rb t n new)"
    and "range_list (uvm_range_tree_split rb t n new) =
      map (as_range t) xs @ (n, n_start t n, n_start t new - 1) # (new, n_start t new, n_end t n) # map (as_range t) ys"
proof -
  let ?t1 = "set_node new (n_start t new) (n_end t n) t"
  let ?t2 = "set_node n (n_start t n) (n_start t new - 1) ?t1"
  have ne: "new \<noteq> n" "n \<notin> set xs" "n \<notin> set ys" "new \<notin> set xs" "new \<notin> set ys"
    using assms(3,4) rt_inv_distinct [OF assms(2)] by auto
  have o: "ordered (n_start t) (n_end t) (xs @ n # ys)" using assms(2,3) by (simp add: rt_inv_def)
  note b = ordered_bounds [OF o]
  have dec: "n_start t new - 1 < n_start t new"
    using u64_le_dec [OF assms(5), of "n_start t new - 1"] by simp
  have le: "n_start t n \<le> n_start t new - 1" using assms(5) by (simp add: u64_le_dec [OF assms(5)])
  have b2: "\<forall>y \<in> set ys. n_start t new - 1 < n_start t y" "\<forall>y \<in> set ys. n_end t n < n_start t y"
    using b(2) dec assms(6) by (auto intro: order.strict_trans2 less_trans dest: order.strict_trans1)
  have t1: "rt_inv ?t1" by (rule rt_inv_set_other [OF assms(2,4)])
  have t2: "rt_inv ?t2"
    by (rule rt_inv_set_node [OF t1, of xs n ys]) (use assms(3) le b(1) b2 ne in auto)
  have rdy: "rt_ready ?t2 new" using ne assms(3,4,6) by (simp add: rt_ready_def)
  have b3: "\<forall>x \<in> set xs. n_end t x < n_start t new" using b(1) assms(5) by (blast intro: less_trans)
  have cand: "ordered (n_start ?t2) (n_end ?t2) (xs @ n # new # ys)"
    using t2 assms(3,6) ne dec b2 b3 unfolding rt_inv_def by auto
  from assms(1) t2 rdy
  have "\<exists>r. uvm_range_tree_add rb ?t2 new = (NV_OK, ?t2\<lparr>rb_root := r, head := xs @ n # new # ys\<rparr>) \<and>
      rt_inv (?t2\<lparr>rb_root := r, head := xs @ n # new # ys\<rparr>)"
  proof (cases rule: add_cases)
    case (ok xs' ys' r)
    have i: "rt_inv (?t2\<lparr>rb_root := r, head := xs' @ new # ys'\<rparr>)"
      by (rule rt_inv_insert [OF t2]) (use ok rdy in \<open>auto simp: rt_ready_def\<close>)
    have "set (xs' @ ys') = set (xs @ n # ys)" using ok(3) assms(3) by simp
    then have "set (xs' @ new # ys') = set (xs @ n # new # ys)" by auto
    then have "xs' @ new # ys' = xs @ n # new # ys"
      by (intro ordered_unique [OF _ cand]) (use i in \<open>simp_all add: rt_inv_def\<close>)
    then show ?thesis using ok(1) i by (metis (no_types))
  next
    case (in_use m)
    have "m \<in> set xs \<or> m = n \<or> m \<in> set ys" using in_use(2) assms(3) by auto
    then show ?thesis
      using in_use(3) cand ne dec by (auto simp: range_nodes_overlap_def uvm_ranges_overlap_def)
  qed
  then obtain r where r: "uvm_range_tree_split rb t n new = ?t2\<lparr>rb_root := r, head := xs @ n # new # ys\<rparr>"
      "rt_inv (?t2\<lparr>rb_root := r, head := xs @ n # new # ys\<rparr>)"
    using ne(1) by (auto simp: uvm_range_tree_split_def Let_def)
  show "rt_inv (uvm_range_tree_split rb t n new)" using r by simp
  show "range_list (uvm_range_tree_split rb t n new) =
      map (as_range t) xs @ (n, n_start t n, n_start t new - 1) # (new, n_start t new, n_end t n) # map (as_range t) ys"
    unfolding r(1) using ne by (auto simp: range_list_def as_range_def)
qed

lemma remove1_mid: "n \<notin> set xs \<Longrightarrow> remove1 n (xs @ n # ys) = xs @ ys"
  by (simp add: remove1_append)

text \<open>Both merges replace two neighbours by their union under the name of the kept node.\<close>

lemma merged_eq:
  assumes "rb_ok rb" "rt_inv t" "head t = xs @ p # q # ys" "n = p \<and> m = q \<or> n = q \<and> m = p"
  defines "t' \<equiv> set_node n (n_start t p) (n_end t q) (uvm_range_tree_remove rb t m)"
  shows "rt_inv t'" "range_list t' = map (as_range t) xs @ (n, n_start t p, n_end t q) # map (as_range t) ys"
proof -
  let ?r = "uvm_range_tree_remove rb t m"
  have d: "distinct (xs @ p # q # ys)" using rt_inv_distinct [OF assms(2)] assms(3) by simp
  have h: "head ?r = xs @ n # ys"
    using assms(3,4) d remove1_mid [of p xs "q # ys"] remove1_mid [of q "xs @ [p]" ys]
    by (auto simp: uvm_range_tree_remove_def)
  have i: "rt_inv ?r" and f: "n_start ?r = n_start t" "n_end ?r = n_end t"
    by (simp_all add: remove_inv [OF assms(1,2)])
  have o: "ordered (n_start t) (n_end t) (xs @ p # q # ys)" using assms(2,3) by (simp add: rt_inv_def)
  then have "n_start t p \<le> n_end t p" "n_end t p < n_start t q" "n_start t q \<le> n_end t q" by auto
  then have le: "n_start t p \<le> n_end t q" by auto
  show "rt_inv t'"
    unfolding t'_def by (rule rt_inv_set_node [OF i h le]) (use o f in auto)
  have "as_range ?r = as_range t" by (simp add: as_range_def f fun_eq_iff)
  then show "range_list t' = map (as_range t) xs @ (n, n_start t p, n_end t q) # map (as_range t) ys"
    unfolding t'_def using range_list_split [of "set_node n (n_start t p) (n_end t q) ?r" xs n ys]
      set_node_others [OF i h] h by simp
qed

lemma merge_prev_eq:
  assumes "rb_ok rb" "rt_inv t" "head t = xs @ p # n # ys" "n_end t p = n_start t n - 1"
  obtains t' where "uvm_range_tree_merge_prev rb t n = (Some p, t')" "rt_inv t'"
    "range_list t' = map (as_range t) xs @ (n, n_start t p, n_end t n) # map (as_range t) ys"
proof -
  have "uvm_range_tree_prev t n = Some p"
    using rt_inv_distinct [OF assms(2)] assms(3) list_prev_split [of n "xs @ [p]" ys]
    by (simp add: uvm_range_tree_prev_def)
  then show thesis
    using merged_eq [OF assms(1-3), of n p] assms(4)
    by (intro that [of "set_node n (n_start t p) (n_end t n) (uvm_range_tree_remove rb t p)"])
      (simp_all add: uvm_range_tree_merge_prev_def remove_inv [OF assms(1,2)])
qed

lemma merge_next_eq:
  assumes "rb_ok rb" "rt_inv t" "head t = xs @ n # q # ys" "n_start t q = n_end t n + 1"
  obtains t' where "uvm_range_tree_merge_next rb t n = (Some q, t')" "rt_inv t'"
    "range_list t' = map (as_range t) xs @ (n, n_start t n, n_end t q) # map (as_range t) ys"
proof -
  have "uvm_range_tree_next t n = Some q"
    using rt_inv_distinct [OF assms(2)] assms(3) by (simp add: uvm_range_tree_next_def)
  then show thesis
    using merged_eq [OF assms(1-3), of n q] assms(4)
    by (intro that [of "set_node n (n_start t n) (n_end t q) (uvm_range_tree_remove rb t q)"])
      (simp_all add: uvm_range_tree_merge_next_def remove_inv [OF assms(1,2)])
qed

lemma merge_prev_None:
  assumes "rt_inv t" "head t = xs @ n # ys" "xs = [] \<or> n_end t (last xs) \<noteq> n_start t n - 1"
  shows "uvm_range_tree_merge_prev rb t n = (None, t)"
  using rt_inv_distinct [OF assms(1)] assms(2,3)
  by (auto simp: uvm_range_tree_merge_prev_def uvm_range_tree_prev_def)

lemma merge_next_None:
  assumes "rt_inv t" "head t = xs @ n # ys" "ys = [] \<or> n_start t (hd ys) \<noteq> n_end t n + 1"
  shows "uvm_range_tree_merge_next rb t n = (None, t)"
  using rt_inv_distinct [OF assms(1)] assms(2,3)
  by (cases ys) (auto simp: uvm_range_tree_merge_next_def uvm_range_tree_next_def)

end
