(* ===== verification/Uvm_Range_Alloc.thy ===== *)
theory Uvm_Range_Alloc
  imports Uvm_Range_Tree
begin

unbundle bit_operations_syntax

text \<open>
  The range allocator of the UVM driver
  (\<^verbatim>\<open>src/nvidia-vattn-uvm-driver/kernel-open/nvidia-uvm/uvm_range_allocator.c\<close> and \<^verbatim>\<open>.h\<close>),
  a first-fit allocator whose free ranges are a range tree. The result of \<^verbatim>\<open>uvm_kvmalloc\<close> is an
  argument (\<open>None\<close> when it fails); the spin lock makes every operation atomic and is left out.
  The free ranges are kept maximal (\<open>separated\<close>), so the tree is determined by the set of free
  addresses; that gives exactness of allocation, and the state the tear-down relies on.
\<close>

record range_allocator =
  ra_size :: u64
  ra_tree :: range_tree

record range_allocation =
  aligned_start :: u64
  ra_node :: "node_ptr option"

section \<open>Operations\<close>

definition UVM_ALIGN_UP :: "u64 \<Rightarrow> u64 \<Rightarrow> u64" where
  "UVM_ALIGN_UP x a = (x + a - 1) AND NOT (a - 1)"

definition uvm_range_allocator_init ::
    "rb_ops \<Rightarrow> (node_ptr \<Rightarrow> range_node) \<Rightarrow> u64 \<Rightarrow> node_ptr option \<Rightarrow> NV_STATUS \<times> range_allocator option" where
  "uvm_range_allocator_init rb h sz mem =
     (case mem of
        None \<Rightarrow> (NV_ERR_NO_MEMORY, None)
      | Some node \<Rightarrow>
          let t = set_node node 0 (sz - 1) (uvm_range_tree_init h)
          in (NV_OK, Some \<lparr>ra_size = sz, ra_tree = snd (uvm_range_tree_add rb t node)\<rparr>))"

text \<open>\<open>None\<close>: there is no node, and the removal follows a null pointer.\<close>

definition uvm_range_allocator_deinit :: "rb_ops \<Rightarrow> range_allocator \<Rightarrow> range_allocator option" where
  "uvm_range_allocator_deinit rb ra =
     (case uvm_range_tree_iter_first (ra_tree ra) 0 (ra_size ra - 1) of
        None \<Rightarrow> None
      | Some node \<Rightarrow> Some (ra\<lparr>ra_tree := uvm_range_tree_remove rb (ra_tree ra) node\<rparr>))"

text \<open>The part of a free range that is taken: \<open>[start, aligned_end]\<close>.\<close>

definition carve :: "rb_ops \<Rightarrow> node_ptr \<Rightarrow> u64 \<Rightarrow> u64 \<Rightarrow> node_ptr \<Rightarrow> range_allocator \<Rightarrow> range_allocator \<times> range_allocation" where
  "carve rb new a_start a_end node ra =
     (let t = set_node new (n_start (ra_tree ra) node) a_end (ra_tree ra);
          t' = (if a_end < n_end t node then uvm_range_tree_shrink_node t node (a_end + 1) (n_end t node)
                else uvm_range_tree_remove rb t node)
      in (ra\<lparr>ra_tree := t'\<rparr>, \<lparr>aligned_start = a_start, ra_node = Some new\<rparr>))"

fun alloc_loop ::
    "rb_ops \<Rightarrow> u64 \<Rightarrow> u64 \<Rightarrow> node_ptr \<Rightarrow> node_ptr list \<Rightarrow> range_allocator \<Rightarrow>
     (range_allocator \<times> range_allocation) option" where
  "alloc_loop rb sz alignment new [] ra = None"
| "alloc_loop rb sz alignment new (node # rest) ra =
     (let a_start = UVM_ALIGN_UP (n_start (ra_tree ra) node) alignment;
          a_end = a_start + sz - 1
      in if a_start < n_start (ra_tree ra) node \<or> a_end < a_start then alloc_loop rb sz alignment new rest ra
         else if a_end > n_end (ra_tree ra) node then alloc_loop rb sz alignment new rest ra
         else Some (carve rb new a_start a_end node ra))"

definition uvm_range_allocator_alloc ::
    "rb_ops \<Rightarrow> range_allocator \<Rightarrow> u64 \<Rightarrow> u64 \<Rightarrow> node_ptr option \<Rightarrow>
     NV_STATUS \<times> range_allocator \<times> range_allocation option" where
  "uvm_range_allocator_alloc rb ra sz alignment mem =
     (let alignment = (if alignment = 0 then 1 else alignment) in
      if sz > ra_size ra then (NV_ERR_UVM_ADDRESS_IN_USE, ra, None)
      else case mem of
        None \<Rightarrow> (NV_ERR_NO_MEMORY, ra, None)
      | Some new \<Rightarrow>
          (case alloc_loop rb sz alignment new
                  (uvm_range_tree_for_each_in (ra_tree ra) 0 (ra_size ra - sz)) ra of
             None \<Rightarrow> (NV_ERR_UVM_ADDRESS_IN_USE, ra, None)
           | Some (ra', al) \<Rightarrow> (NV_OK, ra', Some al)))"

definition uvm_range_allocator_free ::
    "rb_ops \<Rightarrow> range_allocator \<Rightarrow> range_allocation option \<Rightarrow> (range_allocator \<times> range_allocation option) option" where
  "uvm_range_allocator_free rb ra range_alloc =
     (case range_alloc of
        None \<Rightarrow> Some (ra, None)
      | Some al \<Rightarrow>
          (case ra_node al of
             None \<Rightarrow> None
           | Some node \<Rightarrow>
               let (_, t1) = uvm_range_tree_add rb (ra_tree ra) node;
                   (_, t2) = uvm_range_tree_merge_prev rb t1 node;
                   (_, t3) = uvm_range_tree_merge_next rb t2 node
               in Some (ra\<lparr>ra_tree := t3\<rparr>, Some (al\<lparr>ra_node := None\<rparr>))))"

section \<open>Alignment\<close>

lemma and_not_mask: "(x :: u64) AND NOT (mask k) = x - take_bit k x"
proof -
  have "x AND NOT (mask k) = push_bit k (drop_bit k x)"
    by (rule bit_word_eqI) (auto simp: bit_simps)
  moreover have "push_bit k (drop_bit k x) + take_bit k x = x" by (rule bits_ident)
  ultimately show ?thesis by (metis add_diff_cancel)
qed

lemma unat_and_not_mask: "unat ((x :: u64) AND NOT (mask k)) = unat x div 2 ^ k * 2 ^ k"
proof -
  have u: "unat (take_bit k x) = unat x mod 2 ^ k"
    by (simp only: unsigned_take_bit_eq) (rule take_bit_eq_mod)
  then have "take_bit k x \<le> x" by (simp add: word_le_nat_alt)
  then have "unat (x - take_bit k x) = unat x - unat x mod 2 ^ k" by (simp add: unat_sub u)
  then show ?thesis by (simp add: and_not_mask minus_mod_eq_div_mult)
qed

text \<open>An alignment of the allocator: 0 stands for 1, any other value is a power of two.\<close>

definition valid_alignment :: "u64 \<Rightarrow> bool" where
  "valid_alignment al \<longleftrightarrow> al = 0 \<or> (\<exists>k < 64. al = 2 ^ k)"

definition align_of :: "u64 \<Rightarrow> u64" where
  "align_of al = (if al = 0 then 1 else al)"

definition is_aligned :: "u64 \<Rightarrow> u64 \<Rightarrow> bool" where
  "is_aligned al a \<longleftrightarrow> unat (align_of al) dvd unat a"

lemma align_of_power:
  assumes "valid_alignment al"
  obtains k where "k < 64" "align_of al = 2 ^ k" "unat (align_of al) = 2 ^ k"
proof -
  obtain k where k: "k < 64" "align_of al = (2 :: u64) ^ k"
  proof (cases "al = 0")
    case True
    then show ?thesis by (intro that [of 0]) (simp_all add: align_of_def)
  next
    case False
    then show ?thesis using assms that by (auto simp: valid_alignment_def align_of_def)
  qed
  moreover have "unat ((2 :: u64) ^ k) = 2 ^ k"
    using unat_of_nat_u64 [of "2 ^ k"] power_strict_increasing [OF k(1), of "2 :: nat"]
    by (simp del: unat_of_nat_u64)
  ultimately show thesis using that by simp
qed

lemma align_up_unat:
  assumes "align_of al = 2 ^ k" "k < 64"
  shows "unat (UVM_ALIGN_UP x (align_of al)) = unat (x + align_of al - 1) div 2 ^ k * 2 ^ k"
proof -
  have "align_of al - 1 = mask k" using assms by (simp add: mask_eq_exp_minus_1)
  then show ?thesis by (simp add: UVM_ALIGN_UP_def unat_and_not_mask)
qed

lemma align_up_aligned:
  assumes "valid_alignment al"
  shows "is_aligned al (UVM_ALIGN_UP x (align_of al))"
proof -
  obtain k where "k < 64" "align_of al = 2 ^ k" "unat (align_of al) = 2 ^ k" by (rule align_of_power [OF assms])
  then show ?thesis using align_up_unat [of al k x] by (simp add: is_aligned_def)
qed

text \<open>Below an aligned address, rounding up does not wrap and stays below.\<close>

lemma align_up_le:
  assumes "valid_alignment al" "x \<le> a" "is_aligned al a"
  shows "x \<le> UVM_ALIGN_UP x (align_of al) \<and> UVM_ALIGN_UP x (align_of al) \<le> a"
proof -
  obtain k where k: "k < 64" "align_of al = 2 ^ k" "unat (align_of al) = 2 ^ k"
    by (rule align_of_power [OF assms(1)])
  obtain q where q: "unat a = q * 2 ^ k"
    using assms(3) k(3) by (auto simp: is_aligned_def dvd_def mult.commute)
  have p: "(2 :: nat) ^ 64 = 2 ^ (64 - k) * 2 ^ k" using k(1) by (simp flip: power_add)
  have "q < 2 ^ (64 - k)" using unat_lt_2pow [of a] unfolding q p by simp
  then have "Suc q * 2 ^ k \<le> 2 ^ (64 - k) * 2 ^ k" by (intro mult_right_mono) auto
  then have room: "unat a + 2 ^ k \<le> 2 ^ 64" using q p by simp
  have xa: "unat x \<le> unat a" using assms(2) by (simp add: word_le_nat_alt)
  have "(1 :: nat) \<le> 2 ^ k" by simp
  then have "unat x + (2 ^ k - 1) < 2 ^ 64" using room xa by linarith
  moreover have "unat (align_of al - 1) = 2 ^ k - 1"
    using k(3) by (simp add: unat_minus_one align_of_def split: if_splits)
  ultimately have "unat (x + (align_of al - 1)) = unat x + (2 ^ k - 1)"
    by (simp add: unat_add_no_wrap)
  then have "unat (x + align_of al - 1) = unat x + 2 ^ k - 1" by (simp add: add_diff_eq)
  then have u: "unat (UVM_ALIGN_UP x (align_of al)) = ceil_div (unat x) (2 ^ k) * 2 ^ k"
    using align_up_unat [OF k(2,1), of x] by (simp add: ceil_div_def)
  have "ceil_div (unat x) (2 ^ k) \<le> q" using xa q by (simp add: ceil_div_le_iff)
  then show ?thesis
    using ceil_div_mult_ge [of "2 ^ k" "unat x"] by (simp add: word_le_nat_alt u q)
qed

section \<open>Maximal free ranges\<close>

definition adjacent :: "range_tree \<Rightarrow> node_ptr \<Rightarrow> node_ptr \<Rightarrow> bool" where
  "adjacent t n m \<longleftrightarrow> n \<in> set (head t) \<and> m \<in> set (head t) \<and>
     n_end t n < n_start t m \<and> n_end t n + 1 = n_start t m"

definition separated :: "range_tree \<Rightarrow> bool" where
  "separated t \<longleftrightarrow> (\<forall>n m. \<not> adjacent t n m)"

definition intervals :: "range_tree \<Rightarrow> (u64 \<times> u64) list" where
  "intervals t = map (\<lambda>n. (n_start t n, n_end t n)) (head t)"

text \<open>The intervals of a separated tree are the maximal intervals of the addresses it covers.\<close>

definition maximal_interval :: "u64 set \<Rightarrow> u64 \<times> u64 \<Rightarrow> bool" where
  "maximal_interval A = (\<lambda>(s, e). s \<le> e \<and> {s..e} \<subseteq> A \<and> (s = 0 \<or> s - 1 \<notin> A) \<and> (e = ULLONG_MAX \<or> e + 1 \<notin> A))"

lemma nodes_apart:
  assumes "rt_inv t" "n \<in> set (head t)" "m \<in> set (head t)" "n \<noteq> m"
  shows "n_end t n < n_start t m \<or> n_end t m < n_start t n"
proof -
  have *: "n_end t n < n_start t m \<or> n_end t m < n_start t n"
    if "ordered (n_start t) (n_end t) xs" "n \<in> set xs" "m \<in> set xs" for xs
    using that assms(4) by (induction xs) auto
  show ?thesis by (rule * [of "head t"]) (use assms in \<open>simp_all add: rt_inv_def\<close>)
qed

lemma u64_dec_cases: "(s :: u64) \<noteq> 0 \<Longrightarrow> s - 1 < s"
  using u64_le_dec [of 0 s "s - 1"] by (simp add: word_neq_0_conv)

lemma u64_inc_cases: "(e :: u64) \<noteq> ULLONG_MAX \<Longrightarrow> e < e + 1"
  using u64_less_inc [of e ULLONG_MAX] word_le_max [of e] by (simp add: order_le_less)

lemma u64_not_max: "(x :: u64) < y \<Longrightarrow> x \<noteq> ULLONG_MAX"
  using word_le_max [of y] leD by blast

lemma node_is_maximal:
  assumes "rt_inv t" "separated t" "n \<in> set (head t)"
  shows "maximal_interval (covered t) (n_start t n, n_end t n)"
proof -
  have "n_start t n - 1 \<notin> covered t" if nz: "n_start t n \<noteq> 0"
  proof
    assume "n_start t n - 1 \<in> covered t"
    then obtain m where m: "m \<in> set (head t)" "in_node t m (n_start t n - 1)" by (auto simp: covered_def)
    have lt: "n_start t n - 1 < n_start t n" by (rule u64_dec_cases [OF nz])
    then have "m \<noteq> n" using m(2) by (auto simp: in_node_def)
    then have "n_end t m < n_start t n"
      using nodes_apart [OF assms(1) m(1) assms(3)] m(2) lt rt_inv_bounds [OF assms(1,3)]
      by (auto simp: in_node_def)
    then have "n_end t m = n_start t n - 1"
      using m(2) u64_le_dec [of "n_end t m" "n_start t n" "n_end t m"] by (auto simp: in_node_def)
    then have "adjacent t m n" using m(1) assms(3) lt by (simp add: adjacent_def)
    then show False using assms(2) by (simp add: separated_def)
  qed
  moreover have "n_end t n + 1 \<notin> covered t" if nm: "n_end t n \<noteq> ULLONG_MAX"
  proof
    assume "n_end t n + 1 \<in> covered t"
    then obtain m where m: "m \<in> set (head t)" "in_node t m (n_end t n + 1)" by (auto simp: covered_def)
    have lt: "n_end t n < n_end t n + 1" by (rule u64_inc_cases [OF nm])
    then have "m \<noteq> n" using m(2) by (auto simp: in_node_def)
    then have "n_end t n < n_start t m"
      using nodes_apart [OF assms(1) m(1) assms(3)] m(2) lt rt_inv_bounds [OF assms(1,3)]
      by (auto simp: in_node_def)
    then have "n_start t m = n_end t n + 1"
      using m(2) inc_le [of "n_end t n" "n_start t m"] by (auto simp: in_node_def)
    then have "adjacent t n m" using m(1) assms(3) lt by (simp add: adjacent_def)
    then show False using assms(2) by (simp add: separated_def)
  qed
  ultimately show ?thesis
    using assms(3) rt_inv_bounds [OF assms(1,3)]
    by (auto simp: maximal_interval_def covered_def in_node_def)
qed

lemma intervals_eq_maximal:
  assumes "rt_inv t" "separated t"
  shows "set (intervals t) = {w. maximal_interval (covered t) w}"
proof (intro equalityI subsetI)
  fix w assume "w \<in> set (intervals t)"
  then show "w \<in> {w. maximal_interval (covered t) w}"
    using node_is_maximal [OF assms] by (auto simp: intervals_def)
next
  fix w assume "w \<in> {w. maximal_interval (covered t) w}"
  then obtain s e where w: "w = (s, e)" and mx: "s \<le> e" "{s..e} \<subseteq> covered t"
      "s = 0 \<or> s - 1 \<notin> covered t" "e = ULLONG_MAX \<or> e + 1 \<notin> covered t"
    by (cases w) (auto simp: maximal_interval_def)
  have "s \<in> covered t" using mx(1,2) by auto
  then obtain n where n: "n \<in> set (head t)" "in_node t n s" by (auto simp: covered_def)
  have cov: "a \<in> covered t" if "n_start t n \<le> a" "a \<le> n_end t n" for a
    using n(1) that by (auto simp: covered_def in_node_def)
  have s: "n_start t n = s"
  proof (rule ccontr)
    assume "n_start t n \<noteq> s"
    then have lt: "n_start t n < s" using n(2) by (auto simp: in_node_def)
    then have "n_start t n \<le> s - 1" "s - 1 < s" by (auto simp: u64_le_dec intro!: u64_dec_cases)
    moreover from this n(2) have "s - 1 \<le> n_end t n" by (auto simp: in_node_def)
    ultimately show False using cov [of "s - 1"] mx(3) lt by auto
  qed
  have e: "n_end t n = e"
  proof (rule ccontr)
    assume "n_end t n \<noteq> e"
    then consider "n_end t n < e" | "e < n_end t n" by fastforce
    then show False
    proof cases
      case 1
      then have "n_end t n + 1 \<in> covered t"
        using mx(2) inc_le [OF 1] u64_less_inc [OF 1] n(2) by (auto simp: in_node_def)
      then show False using node_is_maximal [OF assms n(1)] u64_not_max [OF 1]
        by (auto simp: maximal_interval_def)
    next
      case 2
      then have "e + 1 \<in> covered t" using cov [of "e + 1"] inc_le [OF 2] u64_less_inc [OF 2] mx(1) s by auto
      then show False using mx(4) u64_not_max [OF 2] by auto
    qed
  qed
  show "w \<in> set (intervals t)" using n(1) s e w by (force simp: intervals_def)
qed

lemma intervals_ordered: "rt_inv t \<Longrightarrow> ordered fst snd (intervals t)"
  by (auto simp: rt_inv_def intervals_def ordered_def sorted_wrt_map)

lemma intervals_determined:
  assumes "rt_inv t" "separated t" "rt_inv t'" "separated t'" "covered t = covered t'"
  shows "intervals t = intervals t'"
  by (rule ordered_unique [OF intervals_ordered [OF assms(1)] intervals_ordered [OF assms(3)]])
    (simp add: intervals_eq_maximal assms)

section \<open>Freeing\<close>

text \<open>What the merges keep: the invariant, the addresses covered, all nodes but the merged ones.\<close>

definition merges_to :: "node_ptr \<Rightarrow> range_tree \<Rightarrow> range_tree \<Rightarrow> bool" where
  "merges_to p t t' \<longleftrightarrow> rt_inv t' \<and> covered t' = covered t \<and> p \<in> set (head t') \<and>
     set (head t') \<subseteq> set (head t) \<and>
     (\<forall>m. m \<noteq> p \<longrightarrow> n_start t' m = n_start t m \<and> n_end t' m = n_end t m)"

lemma merges_to_refl: "rt_inv t \<Longrightarrow> p \<in> set (head t) \<Longrightarrow> merges_to p t t"
  by (simp add: merges_to_def)

lemma merges_to_trans: "merges_to p t t' \<Longrightarrow> merges_to p t' t'' \<Longrightarrow> merges_to p t t''"
  by (auto simp: merges_to_def)

lemma merged_merges_to:
  assumes "rb_ok rb" "rt_inv t" "head t = xs @ p # q # ys" "n_end t p + 1 = n_start t q"
    and "n = p \<and> m = q \<or> n = q \<and> m = p"
  defines "t' \<equiv> set_node n (n_start t p) (n_end t q) (uvm_range_tree_remove rb t m)"
  shows "merges_to n t t'" "head t' = xs @ n # ys"
proof -
  have d: "distinct (xs @ p # q # ys)" using rt_inv_distinct [OF assms(2)] assms(3) by simp
  show h: "head t' = xs @ n # ys"
    using assms(3,5) d remove1_mid [of p xs "q # ys"] remove1_mid [of q "xs @ [p]" ys]
    by (auto simp: t'_def uvm_range_tree_remove_def)
  have f: "n_start t' a = (if a = n then n_start t p else n_start t a)"
    "n_end t' a = (if a = n then n_end t q else n_end t a)" for a
    by (simp_all add: t'_def remove_inv [OF assms(1,2)])
  have o: "n_start t p \<le> n_end t p" "n_end t p < n_start t q" "n_start t q \<le> n_end t q"
    using assms(2,3) by (simp_all add: rt_inv_def)
  have "in_node t' n a \<longleftrightarrow> in_node t p a \<or> in_node t q a" for a
  proof -
    have "a \<le> n_end t p \<or> n_start t q \<le> a" using u64_inc_le [OF o(2), of a] assms(4) by auto
    then show ?thesis using o by (auto simp: in_node_def f)
  qed
  moreover have "(\<exists>z \<in> set zs. in_node t' z a) = (\<exists>z \<in> set zs. in_node t z a)" if "n \<notin> set zs" for a zs
    by (rule bex_cong [OF refl]) (use that in \<open>auto simp: in_node_def f\<close>)
  moreover have "n \<notin> set xs" "n \<notin> set ys" using d assms(5) by auto
  ultimately have "covered t' = covered t"
    unfolding covered_def h assms(3) by (auto simp: bex_Un)
  moreover have "rt_inv t'" unfolding t'_def by (rule merged_eq(1) [OF assms(1-3,5)])
  ultimately show "merges_to n t t'" using h assms(3,5) by (auto simp: merges_to_def f)
qed

lemma merge_prev_free:
  assumes "rb_ok rb" "rt_inv t" "p \<in> set (head t)" "\<And>n m. adjacent t n m \<Longrightarrow> n = p \<or> m = p"
  obtains r t' where "uvm_range_tree_merge_prev rb t p = (r, t')" "merges_to p t t'"
    "\<And>n m. adjacent t' n m \<Longrightarrow> n = p"
proof -
  obtain xs ys where h: "head t = xs @ p # ys" using assms(3) by (auto simp: in_set_conv_decomp)
  have o: "ordered (n_start t) (n_end t) (xs @ p # ys)" using assms(2) h by (simp add: rt_inv_def)
  have d: "distinct (xs @ p # ys)" using rt_inv_distinct [OF assms(2)] h by simp
  show thesis
  proof (cases "xs = [] \<or> n_end t (last xs) \<noteq> n_start t p - 1")
    case True
    have "n = p" if a: "adjacent t n m" for n m
    proof (rule ccontr)
      assume "n \<noteq> p"
      then have m: "m = p" using assms(4) [OF a] by simp
      have "n \<notin> set ys"
        using ordered_bounds(2,5) [OF o, where y = n] ordered_bounds(3) [OF o] a m by (force simp: adjacent_def)
      then have "n \<in> set xs" using a h \<open>n \<noteq> p\<close> by (auto simp: adjacent_def)
      then have "xs \<noteq> []" by auto
      moreover from last_in_set [OF this] \<open>n \<in> set xs\<close>
      have "n_end t n \<le> n_end t (last xs)" "n_end t (last xs) < n_start t p"
        using last_is_highest [of "n_start t" "n_end t" xs n] o by auto
      moreover have "n_end t n + 1 = n_start t p" using a m by (simp add: adjacent_def)
      ultimately have "n_end t (last xs) = n_start t p - 1"
        using u64_less_inc_iff [of "n_end t n" "n_start t p" "n_end t (last xs)"]
        by (metis add_diff_cancel antisym order_le_less_trans)
      then show False using True \<open>xs \<noteq> []\<close> by simp
    qed
    then show thesis
      using merge_prev_None [OF assms(2) h True] merges_to_refl [OF assms(2,3)] by (intro that)
  next
    case False
    then obtain zs q where q: "xs = zs @ [q]" "n_end t q = n_start t p - 1" by (cases xs rule: rev_cases) auto
    have h': "head t = zs @ q # p # ys" using h q by simp
    let ?t' = "set_node p (n_start t q) (n_end t p) (uvm_range_tree_remove rb t q)"
    have "uvm_range_tree_prev t p = Some q"
      using d q h' list_prev_split [of p "zs @ [q]" ys] by (simp add: uvm_range_tree_prev_def)
    then have e: "uvm_range_tree_merge_prev rb t p = (Some q, ?t')"
      using q by (simp add: uvm_range_tree_merge_prev_def remove_inv [OF assms(1,2)])
    have m: "merges_to p t ?t'" "head ?t' = zs @ p # ys"
      by (rule merged_merges_to [OF assms(1,2) h']; use q in simp)+
    have "n = p" if a: "adjacent ?t' n m" for n m
    proof (rule ccontr)
      assume n: "n \<noteq> p"
      have "q \<noteq> p" "n \<noteq> q" using d q a m(2) by (auto simp: adjacent_def)
      moreover have "adjacent t n (if m = p then q else m)"
        using a n m(2) h' by (auto simp: adjacent_def remove_inv [OF assms(1,2)])
      ultimately show False using assms(4) [of n "if m = p then q else m"] n by (auto split: if_splits)
    qed
    then show thesis using e m(1) by (intro that)
  qed
qed

lemma merge_next_free:
  assumes "rb_ok rb" "rt_inv t" "p \<in> set (head t)" "\<And>n m. adjacent t n m \<Longrightarrow> n = p"
  obtains r t' where "uvm_range_tree_merge_next rb t p = (r, t')" "merges_to p t t'" "separated t'"
proof -
  obtain xs ys where h: "head t = xs @ p # ys" using assms(3) by (auto simp: in_set_conv_decomp)
  have o: "ordered (n_start t) (n_end t) (xs @ p # ys)" using assms(2) h by (simp add: rt_inv_def)
  have d: "distinct (xs @ p # ys)" using rt_inv_distinct [OF assms(2)] h by simp
  show thesis
  proof (cases "ys = [] \<or> n_start t (hd ys) \<noteq> n_end t p + 1")
    case True
    have "separated t"
      unfolding separated_def
    proof (intro allI notI)
      fix n m assume a: "adjacent t n m"
      then have n: "n = p" by (rule assms(4))
      have "m \<notin> set xs" "m \<noteq> p"
        using ordered_bounds(1,4) [OF o, where x = m] ordered_bounds(3) [OF o] a n by (force simp: adjacent_def)+
      then have my: "m \<in> set ys" using a h by (auto simp: adjacent_def)
      then obtain y zs where y: "ys = y # zs" by (cases ys) auto
      have "n_end t p < n_start t y" "m = y \<or> n_end t y < n_start t m" "n_start t y \<le> n_end t y"
        using o y my by auto
      moreover have "n_end t p + 1 = n_start t m" using a n by (simp add: adjacent_def)
      ultimately have "n_start t y = n_end t p + 1" using inc_le [of "n_end t p" "n_start t y"] by auto
      then show False using True y by simp
    qed
    then show thesis
      using merge_next_None [OF assms(2) h True] merges_to_refl [OF assms(2,3)] by (intro that)
  next
    case False
    then obtain q zs where q: "ys = q # zs" "n_start t q = n_end t p + 1" by (cases ys) auto
    have h': "head t = xs @ p # q # zs" using h q by simp
    let ?t' = "set_node p (n_start t p) (n_end t q) (uvm_range_tree_remove rb t q)"
    have "uvm_range_tree_next t p = Some q"
      using d q h' by (simp add: uvm_range_tree_next_def)
    then have e: "uvm_range_tree_merge_next rb t p = (Some q, ?t')"
      using q by (simp add: uvm_range_tree_merge_next_def remove_inv [OF assms(1,2)])
    have m: "merges_to p t ?t'" "head ?t' = xs @ p # zs"
      by (rule merged_merges_to [OF assms(1,2) h']; use q in simp)+
    have "separated ?t'"
      unfolding separated_def
    proof (intro allI notI)
      fix n m assume a: "adjacent ?t' n m"
      have qp: "q \<noteq> p" "n \<noteq> q" using d q a m(2) by (auto simp: adjacent_def)
      have "adjacent t (if n = p then q else n) m"
        using a m(2) h' ordered_bounds(3) [OF o] qp
        by (auto simp: adjacent_def remove_inv [OF assms(1,2)] split: if_splits)
      then show False using assms(4) [of "if n = p then q else n" m] qp by (auto split: if_splits)
    qed
    then show thesis using e m(1) by (intro that)
  qed
qed

lemma free_eq:
  assumes "rb_ok rb" "rt_inv (ra_tree ra)" "separated (ra_tree ra)" "ra_node al = Some p"
    and "rt_ready (ra_tree ra) p" "\<And>a. in_node (ra_tree ra) p a \<Longrightarrow> a \<notin> covered (ra_tree ra)"
  obtains t' where "uvm_range_allocator_free rb ra (Some al) = Some (ra\<lparr>ra_tree := t'\<rparr>, Some (al\<lparr>ra_node := None\<rparr>))"
    "rt_inv t'" "separated t'" "covered t' = covered (ra_tree ra) \<union> {a. in_node (ra_tree ra) p a}"
    "set (head t') \<subseteq> insert p (set (head (ra_tree ra)))"
    "\<And>m. m \<noteq> p \<Longrightarrow> n_start t' m = n_start (ra_tree ra) m \<and> n_end t' m = n_end (ra_tree ra) m"
proof -
  let ?t = "ra_tree ra"
  have "fst (uvm_range_tree_add rb ?t p) = NV_OK"
    using add_ok_iff_disjoint [OF assms(1,2,5)] assms(6) by (auto simp: covered_def)
  then obtain t1 where t1: "uvm_range_tree_add rb ?t p = (NV_OK, t1)"
    by (metis prod.collapse)
  have i1: "rt_inv t1" "set (head t1) = insert p (set (head ?t))" "in_node t1 = in_node ?t" "nodes t1 = nodes ?t"
    using add_ok_inv [OF assms(1,2,5) t1] by auto
  have f1: "n_start t1 = n_start ?t" "n_end t1 = n_end ?t"
    using i1(4) by (simp_all add: n_start_def n_end_def fun_eq_iff)
  have "n = p \<or> m = p" if "adjacent t1 n m" for n m
    using assms(3) that i1(2) f1 by (auto simp: separated_def adjacent_def)
  then obtain r2 t2 where t2: "uvm_range_tree_merge_prev rb t1 p = (r2, t2)" "merges_to p t1 t2"
      "\<And>n m. adjacent t2 n m \<Longrightarrow> n = p"
    using merge_prev_free [OF assms(1) i1(1), of p] i1(2) by blast
  moreover have "rt_inv t2" "p \<in> set (head t2)" using t2(2) by (auto simp: merges_to_def)
  ultimately obtain r3 t3 where t3: "uvm_range_tree_merge_next rb t2 p = (r3, t3)" "merges_to p t2 t3" "separated t3"
    using merge_next_free [OF assms(1), of t2 p] by blast
  have m: "merges_to p t1 t3" by (rule merges_to_trans [OF t2(2) t3(2)])
  have "covered t1 = covered ?t \<union> {a. in_node ?t p a}" using i1 by (auto simp: covered_def)
  then show thesis
    using m t3(3) i1(2) f1 t1 t2(1) t3(1) assms(4)
    by (intro that [of t3]) (auto simp: uvm_range_allocator_free_def merges_to_def)
qed

section \<open>Allocating\<close>

definition ra_ok :: "range_allocator \<Rightarrow> bool" where
  "ra_ok ra \<longleftrightarrow> 0 < ra_size ra \<and> rt_inv (ra_tree ra) \<and> separated (ra_tree ra) \<and>
     covered (ra_tree ra) \<subseteq> {..ra_size ra - 1}"

definition fits :: "range_tree \<Rightarrow> u64 \<Rightarrow> u64 \<Rightarrow> node_ptr \<Rightarrow> bool" where
  "fits t sz alignment n \<longleftrightarrow>
     (let s = UVM_ALIGN_UP (n_start t n) alignment in
      n_start t n \<le> s \<and> s \<le> s + sz - 1 \<and> s + sz - 1 \<le> n_end t n)"

lemma alloc_loop_find:
  "alloc_loop rb sz al new ns ra =
   map_option (\<lambda>n. let s = UVM_ALIGN_UP (n_start (ra_tree ra) n) al in carve rb new s (s + sz - 1) n ra)
     (List.find (fits (ra_tree ra) sz al) ns)"
  by (induction ns) (auto simp: fits_def Let_def)

lemma u64_add_mono_no_wrap:
  assumes "(s :: u64) \<le> a" "a \<le> a + k"
  shows "s \<le> s + k \<and> s + k \<le> a + k"
proof -
  have "unat a + unat k < 2 ^ 64" using assms(2) no_olen_add_nat [of a k] by simp
  moreover have "unat s \<le> unat a" using assms(1) by (simp add: word_le_nat_alt)
  ultimately show ?thesis by (simp add: word_le_nat_alt unat_add_no_wrap)
qed

lemma fits_complete:
  assumes "rt_inv t" "separated t" "valid_alignment al" "is_aligned al a"
    and "a \<le> a + (sz - 1)" "{a..a + (sz - 1)} \<subseteq> covered t"
  shows "\<exists>n \<in> set (head t). fits t sz (align_of al) n"
proof -
  let ?e = "a + (sz - 1)"
  have "a \<in> covered t" using assms(5,6) by auto
  then obtain n where n: "n \<in> set (head t)" "in_node t n a" by (auto simp: covered_def)
  have e: "?e \<le> n_end t n"
  proof (rule ccontr)
    assume "\<not> ?e \<le> n_end t n"
    then have lt: "n_end t n < ?e" by simp
    then have "n_end t n + 1 \<in> covered t"
      using assms(6) inc_le [OF lt] u64_less_inc [OF lt] n(2) by (auto simp: in_node_def)
    then show False using node_is_maximal [OF assms(1,2) n(1)] u64_not_max [OF lt]
      by (auto simp: maximal_interval_def)
  qed
  let ?s = "UVM_ALIGN_UP (n_start t n) (align_of al)"
  have s: "n_start t n \<le> ?s" "?s \<le> a"
    using align_up_le [OF assms(3) _ assms(4), of "n_start t n"] n(2) by (auto simp: in_node_def)
  have "?s \<le> ?s + (sz - 1)" "?s + (sz - 1) \<le> ?e"
    using u64_add_mono_no_wrap [OF s(2) assms(5)] by auto
  then have "fits t sz (align_of al) n" using s(1) e by (auto simp: fits_def Let_def add_diff_eq)
  then show ?thesis using n(1) by blast
qed

lemma fits_in_window:
  assumes "ra_ok ra" "n \<in> set (head (ra_tree ra))" "fits (ra_tree ra) sz al n" "0 < sz"
  shows "n_start (ra_tree ra) n \<le> ra_size ra - sz" "sz \<le> ra_size ra"
proof -
  let ?t = "ra_tree ra"
  let ?s = "UVM_ALIGN_UP (n_start ?t n) al"
  have f: "n_start ?t n \<le> ?s" "?s \<le> ?s + (sz - 1)" "?s + (sz - 1) \<le> n_end ?t n"
    using assms(3) by (simp_all add: fits_def Let_def add_diff_eq)
  have "n_end ?t n \<in> covered ?t"
    using assms(1,2) rt_inv_bounds [of ?t n] by (auto simp: covered_def in_node_def ra_ok_def)
  then have e: "n_end ?t n \<le> ra_size ra - 1" using assms(1) by (auto simp: ra_ok_def)
  have u: "unat ?s + unat (sz - 1) < 2 ^ 64" using f(2) no_olen_add_nat [of ?s "sz - 1"] by simp
  have one: "unat (sz - 1) = unat sz - 1" "unat (ra_size ra - 1) = unat (ra_size ra) - 1"
    using assms(1,4) by (simp_all add: ra_ok_def unat_minus_one word_neq_0_conv)
  have pos: "0 < unat sz" "0 < unat (ra_size ra)" using assms(1,4) by (simp_all add: ra_ok_def unat_gt_0 word_neq_0_conv)
  have "unat ?s + (unat sz - 1) \<le> unat (ra_size ra) - 1"
    using f(3) e u one by (simp add: word_le_nat_alt unat_add_no_wrap)
  then have "unat ?s + unat sz \<le> unat (ra_size ra)" using pos by linarith
  moreover from this show "sz \<le> ra_size ra" by (simp add: word_le_nat_alt)
  ultimately have "?s \<le> ra_size ra - sz" by (simp add: word_le_nat_alt unat_sub)
  with f(1) show "n_start ?t n \<le> ra_size ra - sz" by simp
qed

text \<open>What taking \<open>[start, e]\<close> off a free range does.\<close>

definition carved :: "node_ptr \<Rightarrow> node_ptr \<Rightarrow> u64 \<Rightarrow> range_tree \<Rightarrow> range_tree \<Rightarrow> bool" where
  "carved new n e t t' \<longleftrightarrow> rt_inv t' \<and> separated t' \<and> covered t' = covered t - {n_start t n..e} \<and>
     set (head t') \<subseteq> set (head t) \<and> n_start t' new = n_start t n \<and> n_end t' new = e \<and>
     (\<forall>m. m \<notin> insert new (set (head t)) \<longrightarrow> n_start t' m = n_start t m \<and> n_end t' m = n_end t m)"

lemma separated_mono:
  assumes "separated t" "set (head t') \<subseteq> set (head t)"
    and "\<And>m. m \<in> set (head t') \<Longrightarrow> n_end t' m = n_end t m"
    and "\<And>m. m \<in> set (head t') \<Longrightarrow> n_start t' m = n_start t m \<or>
          (\<forall>q \<in> set (head t'). n_end t q < n_start t' m \<longrightarrow> n_end t q + 1 \<noteq> n_start t' m)"
  shows "separated t'"
  using assms unfolding separated_def adjacent_def by (metis subsetD)

lemma carve_eq:
  assumes "rb_ok rb" "rt_inv (ra_tree ra)" "separated (ra_tree ra)" "n \<in> set (head (ra_tree ra))"
    and "new \<notin> set (head (ra_tree ra))" "n_start (ra_tree ra) n \<le> e" "e \<le> n_end (ra_tree ra) n"
  obtains t' where "carve rb new s e n ra = (ra\<lparr>ra_tree := t'\<rparr>, \<lparr>aligned_start = s, ra_node = Some new\<rparr>)"
    "carved new n e (ra_tree ra) t'"
proof -
  let ?t = "ra_tree ra"
  let ?t1 = "set_node new (n_start ?t n) e ?t"
  have i1: "rt_inv ?t1" by (rule rt_inv_set_other [OF assms(2,5)])
  have ne: "new \<noteq> n" using assms(4,5) by auto
  obtain xs ys where h: "head ?t = xs @ n # ys" using assms(4) by (auto simp: in_set_conv_decomp)
  have d: "n \<notin> set xs" "n \<notin> set ys" using rt_inv_distinct [OF assms(2)] h by auto
  have nw: "new \<notin> set xs" "new \<notin> set ys" using assms(5) h by auto
  note apart = nodes_apart [OF assms(2,4)]
  have others: "a \<notin> {n_start ?t n..e}" if "m \<in> set (head ?t)" "m \<noteq> n" "in_node ?t m a" for m a
    using apart [OF that(1)] that assms(7) by (force simp: in_node_def)
  show thesis
  proof (cases "e < n_end ?t n")
    case True
    let ?t' = "uvm_range_tree_shrink_node ?t1 n (e + 1) (n_end ?t n)"
    have f: "n_start ?t' m = (if m = n then e + 1 else if m = new then n_start ?t n else n_start ?t m)"
      "n_end ?t' m = (if m = n then n_end ?t n else if m = new then e else n_end ?t m)" "head ?t' = head ?t" for m
      by (simp_all add: uvm_range_tree_shrink_node_def)
    have le: "e < e + 1" "e + 1 \<le> n_end ?t n" using u64_less_inc [OF True] inc_le [OF True] by auto
    have "rt_inv ?t'"
      by (rule shrink_node_inv(1) [OF i1, of xs n ys]) (use h ne le assms(6) in auto)
    moreover have "separated ?t'"
    proof (rule separated_mono [OF assms(3)])
      fix m assume m: "m \<in> set (head ?t')"
      then show "n_end ?t' m = n_end ?t m" using assms(5) f by auto
      show "n_start ?t' m = n_start ?t m \<or>
          (\<forall>q \<in> set (head ?t'). n_end ?t q < n_start ?t' m \<longrightarrow> n_end ?t q + 1 \<noteq> n_start ?t' m)"
      proof (cases "m = n")
        case True
        have "n_end ?t q \<noteq> e" if "q \<in> set (head ?t)" for q
        proof (cases "q = n")
          case False
          then show ?thesis using others [OF that, of "n_end ?t q"] rt_inv_bounds [OF assms(2) that] assms(6)
            by (auto simp: in_node_def)
        qed (use \<open>e < n_end ?t n\<close> in auto)
        then show ?thesis using True f(1,3) by auto
      qed (use m assms(5) f in auto)
    qed (use f in simp)
    moreover have "covered ?t' = covered ?t - {n_start ?t n..e}"
    proof -
      have "in_node ?t' m a \<longleftrightarrow> in_node ?t m a \<and> a \<notin> {n_start ?t n..e}" if "m \<in> set (head ?t)" for m a
      proof (cases "m = n")
        case True
        then show ?thesis using u64_inc_le [OF \<open>e < n_end ?t n\<close>, of a] assms(6) f
          by (auto simp: in_node_def)
      next
        case False
        then have "in_node ?t' m a = in_node ?t m a" using that assms(5) f by (auto simp: in_node_def)
        then show ?thesis using others [OF that False] by auto
      qed
      then show ?thesis using f(3) by (auto simp: covered_def)
    qed
    ultimately have "carved new n e ?t ?t'" using f ne assms(4) by (auto simp: carved_def)
    then show thesis using True ne by (intro that [of ?t']) (simp_all add: carve_def Let_def)
  next
    case False
    then have e: "e = n_end ?t n" using assms(7) by simp
    let ?t' = "uvm_range_tree_remove rb ?t1 n"
    note r = remove_inv [OF assms(1) i1, of n]
    have hd: "set (head ?t') = set (head ?t) - {n}" using h d by (auto simp: r remove1_append)
    have "separated ?t'"
      by (rule separated_mono [OF assms(3)]) (use hd assms(5) in \<open>auto simp: r\<close>)
    moreover have "covered ?t' = covered ?t - {n_start ?t n..e}"
    proof -
      have "covered ?t' = {a. \<exists>m \<in> set (head ?t) - {n}. in_node ?t m a}"
        unfolding covered_def hd
        by (intro Collect_cong bex_cong refl) (use assms(5) in \<open>auto simp: in_node_def r\<close>)
      also have "\<dots> = covered ?t - {n_start ?t n..e}"
      proof (intro set_eqI iffI)
        fix a assume "a \<in> {a. \<exists>m \<in> set (head ?t) - {n}. in_node ?t m a}"
        then obtain m where "m \<in> set (head ?t)" "m \<noteq> n" "in_node ?t m a" by blast
        then show "a \<in> covered ?t - {n_start ?t n..e}"
          using others [of m a] by (auto simp: covered_def)
      next
        fix a assume "a \<in> covered ?t - {n_start ?t n..e}"
        then obtain m where m: "m \<in> set (head ?t)" "in_node ?t m a" "a \<notin> {n_start ?t n..e}"
          by (auto simp: covered_def)
        then have "m \<noteq> n" by (auto simp: in_node_def e)
        then show "a \<in> {a. \<exists>m \<in> set (head ?t) - {n}. in_node ?t m a}" using m by blast
      qed
      finally show ?thesis .
    qed
    ultimately have "carved new n e ?t ?t'" using r(1) hd by (auto simp: carved_def r)
    then show thesis using False ne by (intro that [of ?t']) (simp_all add: carve_def Let_def)
  qed
qed

lemma alloc_cases:
  assumes "rb_ok rb" "ra_ok ra" "new \<notin> set (head (ra_tree ra))" "0 < sz" "valid_alignment al"
  obtains
    (ok) n s t' where "uvm_range_allocator_alloc rb ra sz al (Some new) =
        (NV_OK, ra\<lparr>ra_tree := t'\<rparr>, Some \<lparr>aligned_start = s, ra_node = Some new\<rparr>)"
      "n \<in> set (head (ra_tree ra))" "carved new n (s + (sz - 1)) (ra_tree ra) t'"
      "n_start (ra_tree ra) n \<le> s" "s \<le> s + (sz - 1)" "s + (sz - 1) \<le> n_end (ra_tree ra) n" "is_aligned al s"
  | (full) "uvm_range_allocator_alloc rb ra sz al (Some new) = (NV_ERR_UVM_ADDRESS_IN_USE, ra, None)"
      "\<not> (\<exists>n \<in> set (head (ra_tree ra)). fits (ra_tree ra) sz (align_of al) n)"
proof -
  let ?t = "ra_tree ra"
  let ?w = "uvm_range_tree_for_each_in ?t 0 (ra_size ra - sz)"
  have i: "rt_inv ?t" "separated ?t" using assms(2) by (simp_all add: ra_ok_def)
  have w: "set ?w = {n \<in> set (head ?t). n_start ?t n \<le> ra_size ra - sz}"
    by (auto simp: for_each_in_eq [OF i(1)])
  have no: "\<not> (\<exists>n \<in> set (head ?t). fits ?t sz (align_of al) n)"
    if "List.find (fits ?t sz (align_of al)) ?w = None \<or> ra_size ra < sz"
  proof
    assume "\<exists>n \<in> set (head ?t). fits ?t sz (align_of al) n"
    then obtain n where n: "n \<in> set (head ?t)" "fits ?t sz (align_of al) n" by blast
    from fits_in_window [OF assms(2) n assms(4)] have "n \<in> set ?w" "\<not> ra_size ra < sz"
      using n(1) w by auto
    with that n(2) show False by (auto simp: find_None_iff)
  qed
  show thesis
  proof (cases "ra_size ra < sz")
    case True
    then show ?thesis using no by (intro full) (simp_all add: uvm_range_allocator_alloc_def)
  next
    case False
    show ?thesis
    proof (cases "List.find (fits ?t sz (align_of al)) ?w")
      case None
      then show ?thesis using no False
        by (intro full) (simp_all add: uvm_range_allocator_alloc_def alloc_loop_find align_of_def [symmetric])
    next
      case (Some n)
      then have n: "n \<in> set (head ?t)" "fits ?t sz (align_of al) n" using w by (auto simp: find_Some_iff)
      let ?s = "UVM_ALIGN_UP (n_start ?t n) (align_of al)"
      have f: "n_start ?t n \<le> ?s" "?s \<le> ?s + (sz - 1)" "?s + (sz - 1) \<le> n_end ?t n"
        using n(2) by (simp_all add: fits_def Let_def add_diff_eq)
      obtain t' where t': "carve rb new ?s (?s + (sz - 1)) n ra =
          (ra\<lparr>ra_tree := t'\<rparr>, \<lparr>aligned_start = ?s, ra_node = Some new\<rparr>)" "carved new n (?s + (sz - 1)) ?t t'"
        by (rule carve_eq [OF assms(1) i n(1) assms(3), of "?s + (sz - 1)" ?s]) (use f in auto)
      then show ?thesis
        using Some False n(1) f align_up_aligned [OF assms(5)]
        by (intro ok [of t' ?s n])
          (simp_all add: uvm_range_allocator_alloc_def alloc_loop_find align_of_def [symmetric] add_diff_eq)
    qed
  qed
qed

text \<open>The address \<open>a\<close> starts a free range of the requested size and alignment.\<close>

definition free_at :: "range_tree \<Rightarrow> u64 \<Rightarrow> u64 \<Rightarrow> u64 \<Rightarrow> bool" where
  "free_at t sz al a \<longleftrightarrow> is_aligned al a \<and> a \<le> a + (sz - 1) \<and> {a..a + (sz - 1)} \<subseteq> covered t"

lemma alloc_ok_iff:
  assumes "rb_ok rb" "ra_ok ra" "new \<notin> set (head (ra_tree ra))" "0 < sz" "valid_alignment al"
  shows "fst (uvm_range_allocator_alloc rb ra sz al (Some new)) = NV_OK \<longleftrightarrow>
    (\<exists>a. free_at (ra_tree ra) sz al a)"
  using assms
proof (cases rule: alloc_cases)
  case (ok n s t')
  then have "{s..s + (sz - 1)} \<subseteq> covered (ra_tree ra)"
    by (auto simp: covered_def in_node_def intro!: bexI [of _ n])
  then show ?thesis using ok by (auto simp: free_at_def)
next
  case full
  then show ?thesis
    using fits_complete [of "ra_tree ra" al _ sz] assms(2,5) by (auto simp: free_at_def ra_ok_def)
qed

section \<open>Sequences of allocations and releases\<close>

type_synonym ra_sys = "range_allocator \<times> range_allocation list"

definition out_nodes :: "range_allocation list \<Rightarrow> node_ptr list" where
  "out_nodes out = map (\<lambda>al. the (ra_node al)) out"

text \<open>
  The clients of an allocator: they allocate, and free what they hold. A fresh node is neither in the
  tree nor held by an allocation.
\<close>

inductive ra_step :: "rb_ops \<Rightarrow> ra_sys \<Rightarrow> ra_sys \<Rightarrow> bool" for rb where
  alloc: "new \<notin> set (head (ra_tree ra)) \<union> set (out_nodes out) \<Longrightarrow> 0 < sz \<Longrightarrow> valid_alignment al \<Longrightarrow>
    uvm_range_allocator_alloc rb ra sz al (Some new) = (st, ra', r) \<Longrightarrow>
    ra_step rb (ra, out) (ra', case r of None \<Rightarrow> out | Some a \<Rightarrow> a # out)"
| alloc_nomem: "uvm_range_allocator_alloc rb ra sz al None = (st, ra', r) \<Longrightarrow>
    ra_step rb (ra, out) (ra', case r of None \<Rightarrow> out | Some a \<Rightarrow> a # out)"
| free: "al \<in> set out \<Longrightarrow> uvm_range_allocator_free rb ra (Some al) = Some (ra', r) \<Longrightarrow>
    ra_step rb (ra, out) (ra', remove1 al out)"

inductive_cases ra_stepE: "ra_step rb (ra, out) s'"

text \<open>The free ranges and the held ranges partition the address space.\<close>

definition ra_inv :: "ra_sys \<Rightarrow> bool" where
  "ra_inv = (\<lambda>(ra, out). let t = ra_tree ra in ra_ok ra \<and>
     (\<forall>al \<in> set out. \<exists>p. ra_node al = Some p \<and> n_start t p \<le> aligned_start al \<and> aligned_start al \<le> n_end t p) \<and>
     distinct (out_nodes out) \<and> set (out_nodes out) \<inter> set (head t) = {} \<and>
     (\<forall>p \<in> set (out_nodes out). \<forall>q \<in> set (out_nodes out). \<forall>a. in_node t p a \<longrightarrow> in_node t q a \<longrightarrow> p = q) \<and>
     (\<forall>p \<in> set (out_nodes out). \<forall>a. in_node t p a \<longrightarrow> a \<notin> covered t) \<and>
     covered t \<union> {a. \<exists>p \<in> set (out_nodes out). in_node t p a} = {..ra_size ra - 1})"

end
