(* ===== verification/Uvm_Range_Correct.thy ===== *)
theory Uvm_Range_Correct
  imports Uvm_Range_Alloc
begin

text \<open>
  The properties of the range tree and the range allocator, with witnesses on a tree of three ranges
  and on an allocator of 4096 addresses. The kernel's rebalancing is instantiated there by a function
  that keeps the shape of the tree.
\<close>

section \<open>Reachable states of an allocator\<close>

lemma ra_okD:
  assumes "ra_ok ra"
  shows "rt_inv (ra_tree ra)" "separated (ra_tree ra)" "0 < ra_size ra" "covered (ra_tree ra) \<subseteq> {..ra_size ra - 1}"
  using assms by (simp_all add: ra_ok_def)

lemma ra_inv_alloc:
  assumes "rb_ok rb" "ra_inv (ra, out)" "new \<notin> set (head (ra_tree ra)) \<union> set (out_nodes out)"
    and "0 < sz" "valid_alignment al" "uvm_range_allocator_alloc rb ra sz al (Some new) = (st, ra', r)"
  shows "ra_inv (ra', case r of None \<Rightarrow> out | Some a \<Rightarrow> a # out)"
proof -
  let ?t = "ra_tree ra"
  have i: "ra_ok ra" using assms(2) by (simp add: ra_inv_def Let_def)
  have nw: "new \<notin> set (head ?t)" "new \<notin> set (out_nodes out)" using assms(3) by auto
  show ?thesis
    using assms(1) i nw(1) assms(4,5)
  proof (cases rule: alloc_cases)
    case (ok n s t')
    let ?e = "s + (sz - 1)"
    have c: "rt_inv t'" "separated t'" "covered t' = covered ?t - {n_start ?t n..?e}"
      "set (head t') \<subseteq> set (head ?t)" "n_start t' new = n_start ?t n" "n_end t' new = ?e"
      using ok(3) by (simp_all add: carved_def)
    have f: "n_start t' p = n_start ?t p" "n_end t' p = n_end ?t p" if "p \<in> set (out_nodes out)" for p
      using ok(3) assms(2) nw that by (auto simp: carved_def ra_inv_def Let_def disjoint_iff)
    then have g: "in_node t' p a = in_node ?t p a" if "p \<in> set (out_nodes out)" for p a
      using that by (simp add: in_node_def)
    have newin: "in_node t' new a \<longleftrightarrow> a \<in> {n_start ?t n..?e}" for a by (simp add: in_node_def c(5,6))
    have sub: "{n_start ?t n..?e} \<subseteq> covered ?t"
      using ok(2,6) by (auto simp: covered_def in_node_def intro!: bexI [of _ n])
    have nodes: "\<exists>p. ra_node al = Some p \<and> n_start t' p \<le> aligned_start al \<and> aligned_start al \<le> n_end t' p"
      if al: "al \<in> set out" for al
    proof -
      obtain p where "ra_node al = Some p" "n_start ?t p \<le> aligned_start al" "aligned_start al \<le> n_end ?t p"
        using assms(2) al by (auto simp: ra_inv_def Let_def)
      moreover from this al have "p \<in> set (out_nodes out)" by (force simp: out_nodes_def)
      ultimately show ?thesis using f by simp
    qed
    have r: "st = NV_OK" "ra' = ra\<lparr>ra_tree := t'\<rparr>" "r = Some \<lparr>aligned_start = s, ra_node = Some new\<rparr>"
      using ok(1) assms(6) by auto
    have on: "out_nodes (\<lparr>aligned_start = s, ra_node = Some new\<rparr> # out) = new # out_nodes out"
      by (simp add: out_nodes_def)
    have k: "ra_ok ra'" using i c r(2) by (auto simp: ra_ok_def)
    have un: "covered t' \<union> {a. \<exists>p \<in> set (new # out_nodes out). in_node t' p a} =
        covered ?t \<union> {a. \<exists>p \<in> set (out_nodes out). in_node ?t p a}"
      using g newin sub c(3) by auto
    have dis: "in_node t' p a \<longrightarrow> a \<notin> covered t'" if "p \<in> set (new # out_nodes out)" for p a
      using that assms(2) g newin c(3) by (auto simp: ra_inv_def Let_def)
    have uniq: "p = q" if "p \<in> set (new # out_nodes out)" "q \<in> set (new # out_nodes out)"
        "in_node t' p a" "in_node t' q a" for p q a
    proof -
      have "a \<notin> {n_start ?t n..?e}" if "p \<in> set (out_nodes out)" "in_node ?t p a" for p
        using that assms(2) sub by (auto simp: ra_inv_def Let_def)
      then show ?thesis using that assms(2) g newin by (auto simp: ra_inv_def Let_def)
    qed
    have tr: "ra_tree ra' = t'" "ra_size ra' = ra_size ra" using r(2) by simp_all
    have old: "distinct (out_nodes out)" "set (out_nodes out) \<inter> set (head ?t) = {}"
      "covered ?t \<union> {a. \<exists>p \<in> set (out_nodes out). in_node ?t p a} = {..ra_size ra - 1}"
      using assms(2) by (simp_all add: ra_inv_def Let_def)
    show ?thesis
      unfolding r(3) option.case ra_inv_def Let_def prod.case on tr
    proof (intro conjI)
      show "\<forall>al \<in> set (\<lparr>aligned_start = s, ra_node = Some new\<rparr> # out). \<exists>p. ra_node al = Some p \<and>
          n_start t' p \<le> aligned_start al \<and> aligned_start al \<le> n_end t' p"
        using nodes ok(4,5) c(5,6) by simp
      show "distinct (new # out_nodes out)" using nw old by simp
      show "set (new # out_nodes out) \<inter> set (head t') = {}" using nw(1) old(2) c(4) by auto
    qed (use k uniq dis un old(3) in \<open>blast, blast, blast, simp\<close>)
  next
    case full
    then show ?thesis using assms(2,6) by auto
  qed
qed

lemma out_nodes_remove1:
  assumes "distinct (out_nodes out)" "al \<in> set out"
  shows "out_nodes (remove1 al out) = remove1 (the (ra_node al)) (out_nodes out)"
  using assms
proof (induction out)
  case (Cons x out)
  show ?case
  proof (cases "x = al")
    case False
    then have "the (ra_node al) \<in> set (out_nodes out)" using Cons.prems by (force simp: out_nodes_def)
    then have "the (ra_node x) \<noteq> the (ra_node al)" using Cons.prems by (auto simp: out_nodes_def)
    then show ?thesis using False Cons by (auto simp: out_nodes_def)
  qed (simp add: out_nodes_def)
qed simp

lemma ra_inv_free:
  assumes "rb_ok rb" "ra_inv (ra, out)" "al \<in> set out"
  obtains ra' r where "uvm_range_allocator_free rb ra (Some al) = Some (ra', r)" "ra_inv (ra', remove1 al out)"
    "covered (ra_tree ra') = covered (ra_tree ra) \<union> {a. in_node (ra_tree ra) (the (ra_node al)) a}"
proof -
  let ?t = "ra_tree ra"
  have i: "ra_ok ra" using assms(2) by (simp add: ra_inv_def Let_def)
  obtain p where p: "ra_node al = Some p" "n_start ?t p \<le> aligned_start al" "aligned_start al \<le> n_end ?t p"
    using assms(2,3) by (auto simp: ra_inv_def Let_def)
  have po: "p \<in> set (out_nodes out)" using p(1) assms(3) by (force simp: out_nodes_def)
  have d: "distinct (out_nodes out)" using assms(2) by (simp add: ra_inv_def Let_def)
  have rdy: "rt_ready ?t p" using po p assms(2) by (auto simp: rt_ready_def ra_inv_def Let_def)
  have dis: "a \<notin> covered ?t" if "in_node ?t p a" for a
    using that po assms(2) by (auto simp: ra_inv_def Let_def)
  obtain t' where t': "uvm_range_allocator_free rb ra (Some al) = Some (ra\<lparr>ra_tree := t'\<rparr>, Some (al\<lparr>ra_node := None\<rparr>))"
    "rt_inv t'" "separated t'" "covered t' = covered ?t \<union> {a. in_node ?t p a}"
    "set (head t') \<subseteq> insert p (set (head ?t))"
    "\<And>m. m \<noteq> p \<Longrightarrow> n_start t' m = n_start ?t m \<and> n_end t' m = n_end ?t m"
    using free_eq [OF assms(1) ra_okD(1,2) [OF i] p(1) rdy dis] by blast
  let ?out = "remove1 al out"
  have on: "set (out_nodes ?out) = set (out_nodes out) - {p}" "distinct (out_nodes ?out)"
    using out_nodes_remove1 [OF d assms(3)] d p(1) by simp_all
  have g: "in_node t' q a = in_node ?t q a" if "q \<noteq> p" for q a using t'(6) [OF that] by (simp add: in_node_def)
  have nodes: "\<exists>q. ra_node al' = Some q \<and> n_start t' q \<le> aligned_start al' \<and> aligned_start al' \<le> n_end t' q"
    if al': "al' \<in> set ?out" for al'
  proof -
    have "al' \<in> set out" using al' set_remove1_subset [of al out] by auto
    then obtain q where q: "ra_node al' = Some q" "n_start ?t q \<le> aligned_start al'" "aligned_start al' \<le> n_end ?t q"
      using assms(2) by (auto simp: ra_inv_def Let_def)
    have "q \<in> set (out_nodes ?out)" using q(1) al' by (force simp: out_nodes_def)
    then have "q \<noteq> p" using on by simp
    then show ?thesis using q t'(6) by simp
  qed
  have un: "covered t' \<union> {a. \<exists>q \<in> set (out_nodes ?out). in_node t' q a} =
      covered ?t \<union> {a. \<exists>q \<in> set (out_nodes out). in_node ?t q a}"
    using t'(4) po on(1) g by auto
  have part: "covered ?t \<union> {a. \<exists>q \<in> set (out_nodes out). in_node ?t q a} = {..ra_size ra - 1}"
    using assms(2) by (simp add: ra_inv_def Let_def)
  have k: "ra_ok (ra\<lparr>ra_tree := t'\<rparr>)" using i t'(2,3) un part by (auto simp: ra_ok_def)
  have uniq: "q = q'" if "q \<in> set (out_nodes out)" "q' \<in> set (out_nodes out)" "in_node ?t q a" "in_node ?t q' a" for q q' a
    using that assms(2) by (auto simp: ra_inv_def Let_def)
  have dis': "in_node t' q a \<longrightarrow> a \<notin> covered t'" if "q \<in> set (out_nodes ?out)" for q a
    using that assms(2) on(1) g [of q a] t'(4) uniq [OF _ po] by (auto simp: ra_inv_def Let_def)
  have tr: "ra_tree (ra\<lparr>ra_tree := t'\<rparr>) = t'" "ra_size (ra\<lparr>ra_tree := t'\<rparr>) = ra_size ra" by simp_all
  have old: "set (out_nodes out) \<inter> set (head ?t) = {}" using assms(2) by (simp add: ra_inv_def Let_def)
  have "ra_inv (ra\<lparr>ra_tree := t'\<rparr>, ?out)"
    unfolding ra_inv_def Let_def prod.case tr
  proof (intro conjI)
    show "set (out_nodes ?out) \<inter> set (head t') = {}" using on(1) t'(5) old by auto
    show "\<forall>q \<in> set (out_nodes ?out). \<forall>q' \<in> set (out_nodes ?out). \<forall>a. in_node t' q a \<longrightarrow> in_node t' q' a \<longrightarrow> q = q'"
      using on(1) g uniq by simp
  qed (use k nodes on(2) dis' un part in \<open>blast, blast, blast, blast, simp\<close>)
  then show thesis using t'(1,4) p(1) by (intro that [of "ra\<lparr>ra_tree := t'\<rparr>"]) auto
qed

lemma ra_step_inv:
  assumes "ra_step rb s s'" "rb_ok rb" "ra_inv s"
  shows "ra_inv s'"
  using assms
proof (cases rule: ra_step.cases)
  case (alloc new ra out sz al st ra' r)
  then show ?thesis using ra_inv_alloc [OF assms(2), of ra out] assms(3) by simp
next
  case (alloc_nomem ra sz al st ra' r out)
  then show ?thesis using assms(3) by (auto simp: uvm_range_allocator_alloc_def split: if_splits)
next
  case (free al out ra ra' r)
  then show ?thesis using ra_inv_free [OF assms(2), of ra out al] assms(3) by (metis Pair_inject option.inject)
qed

lemma ra_reachable_inv: "(ra_step rb)\<^sup>*\<^sup>* s s' \<Longrightarrow> rb_ok rb \<Longrightarrow> ra_inv s \<Longrightarrow> ra_inv s'"
  by (induction rule: rtranclp_induct) (auto intro: ra_step_inv)

lemma ra_init_inv:
  assumes "rb_ok rb" "0 < sz"
  obtains ra where "uvm_range_allocator_init rb h sz (Some node) = (NV_OK, Some ra)" "ra_inv (ra, [])"
    "ra_size ra = sz"
proof -
  let ?t = "set_node node 0 (sz - 1) (uvm_range_tree_init h)"
  have i: "rt_inv ?t" by (rule rt_inv_set_other [OF rt_inv_init]) (simp add: uvm_range_tree_init_def)
  have rdy: "rt_ready ?t node" by (simp add: rt_ready_def uvm_range_tree_init_def)
  have "fst (uvm_range_tree_add rb ?t node) = NV_OK"
    using add_ok_iff_disjoint [OF assms(1) i rdy] by (simp add: uvm_range_tree_init_def)
  then obtain t' where t': "uvm_range_tree_add rb ?t node = (NV_OK, t')" by (metis prod.collapse)
  have a: "rt_inv t'" "set (head t') = {node}" "in_node t' = in_node ?t"
    using add_ok_inv [OF assms(1) i rdy t'] by (auto simp: uvm_range_tree_init_def)
  have "covered t' = {..sz - 1}" using a by (auto simp: covered_def in_node_def)
  moreover have "separated t'"
    using a(2) rt_inv_bounds [OF a(1), of node] by (auto simp: separated_def adjacent_def)
  ultimately have inv: "ra_inv (\<lparr>ra_size = sz, ra_tree = t'\<rparr>, [])"
    using a(1) assms(2) by (simp add: ra_inv_def Let_def ra_ok_def out_nodes_def)
  have "uvm_range_allocator_init rb h sz (Some node) = (NV_OK, Some \<lparr>ra_size = sz, ra_tree = t'\<rparr>)"
    using t' by (simp add: uvm_range_allocator_init_def)
  from that [OF this inv] show thesis by simp
qed

section \<open>A concrete tree\<close>

definition linear :: "node_ptr list \<Rightarrow> node_ptr tree" where
  "linear xs = foldr (\<lambda>x t. Node Leaf x t) xs Leaf"

definition plain_rb :: rb_ops where
  "plain_rb = \<lparr>rb_insert_color = (\<lambda>t. t), rb_erase = (\<lambda>n t. linear (remove1 n (inorder t)))\<rparr>"

lemma inorder_linear [simp]: "inorder (linear xs) = xs"
  by (induction xs) (simp_all add: linear_def)

lemma plain_rb_ok: "rb_ok plain_rb"
  by (simp add: rb_ok_def plain_rb_def)

text \<open>Ranges [0, 99], [200, 299] and [300, 399] are linked; node 3 is [100, 150], not yet linked.\<close>

definition demo_node :: "node_ptr \<Rightarrow> range_node" where
  "demo_node n = (if n = 0 then \<lparr>rn_start = 0, rn_end = 99\<rparr>
     else if n = 1 then \<lparr>rn_start = 200, rn_end = 299\<rparr>
     else if n = 2 then \<lparr>rn_start = 300, rn_end = 399\<rparr> else \<lparr>rn_start = 100, rn_end = 150\<rparr>)"

definition demo :: range_tree where
  "demo = \<lparr>nodes = demo_node, rb_root = Node (Node Leaf 0 Leaf) 1 (Node Leaf 2 Leaf), head = [0, 1, 2]\<rparr>"

lemma demo_inv: "rt_inv demo"
  by (simp add: rt_inv_def demo_def n_start_def n_end_def demo_node_def)

lemma demo_ready: "rt_ready demo 3"
  by (simp add: rt_ready_def demo_def n_start_def n_end_def demo_node_def)

section \<open>Properties of the range tree\<close>

text \<open>
  C28. Insertion and look-up. A node is accepted exactly when no address of its range is found in the
  tree; a rejected insertion changes nothing. Afterwards a look-up finds the new node on its range and
  otherwise what it found before, and removing a node makes exactly its range unknown.
\<close>

theorem range_tree_lookup:
  assumes "rb_ok rb" "rt_inv t" "rt_ready t n"
  shows "rt_inv (snd (uvm_range_tree_add rb t n)) \<and> rt_inv (uvm_range_tree_remove rb t m) \<and>
    (fst (uvm_range_tree_add rb t n) = NV_OK \<longleftrightarrow> (\<forall>a. in_node t n a \<longrightarrow> uvm_range_tree_find t a = None)) \<and>
    (fst (uvm_range_tree_add rb t n) \<noteq> NV_OK \<longrightarrow> uvm_range_tree_add rb t n = (NV_ERR_UVM_ADDRESS_IN_USE, t)) \<and>
    uvm_range_tree_find (snd (uvm_range_tree_add rb t n)) a =
      (if fst (uvm_range_tree_add rb t n) = NV_OK \<and> in_node t n a then Some n else uvm_range_tree_find t a) \<and>
    uvm_range_tree_find (uvm_range_tree_remove rb t m) a =
      (if uvm_range_tree_find t a = Some m then None else uvm_range_tree_find t a)"
proof (intro conjI)
  have i: "(\<lambda>(rb, t). rb_ok rb \<and> rt_inv t) (rb, t)" "(\<lambda>(rb, t). rt_ready t) (rb, t) n" using assms by simp_all
  show "rt_inv (snd (uvm_range_tree_add rb t n))"
    using add_ok_inv [OF assms] add_err_same [OF assms]
    by (cases "fst (uvm_range_tree_add rb t n) = NV_OK") (metis prod.collapse, simp add: assms(2))
  show "rt_inv (uvm_range_tree_remove rb t m)" by (rule remove_inv(1) [OF assms(1,2)])
  show "fst (uvm_range_tree_add rb t n) = NV_OK \<longleftrightarrow> (\<forall>a. in_node t n a \<longrightarrow> uvm_range_tree_find t a = None)"
    using rt.add_fails_iff [OF i] by auto
  show "fst (uvm_range_tree_add rb t n) \<noteq> NV_OK \<longrightarrow> uvm_range_tree_add rb t n = (NV_ERR_UVM_ADDRESS_IN_USE, t)"
    using add_err_same [OF assms] by blast
  show "uvm_range_tree_find (snd (uvm_range_tree_add rb t n)) a =
      (if fst (uvm_range_tree_add rb t n) = NV_OK \<and> in_node t n a then Some n else uvm_range_tree_find t a)"
    using rt.lookup_add [OF i, of a] by simp
  show "uvm_range_tree_find (uvm_range_tree_remove rb t m) a =
      (if uvm_range_tree_find t a = Some m then None else uvm_range_tree_find t a)"
    using rt.lookup_del [OF i(1), of m a] by simp
qed

theorem range_tree_lookup_witness:
  "uvm_range_tree_find (snd (uvm_range_tree_add plain_rb demo 3)) 120 = Some 3 \<and>
   uvm_range_tree_find (uvm_range_tree_remove plain_rb demo 1) 250 = None"
proof -
  have e: "fst (uvm_range_tree_add plain_rb demo 3) = NV_OK" "in_node demo 3 120" "\<not> in_node demo 3 250"
    "uvm_range_tree_find demo 250 = Some 1" by code_simp+
  show ?thesis
    using range_tree_lookup [OF plain_rb_ok demo_inv demo_ready, of 1 120]
      range_tree_lookup [OF plain_rb_ok demo_inv demo_ready, of 1 250] e by simp
qed

text \<open>
  C29. Iterating over an address window visits exactly the nodes whose range meets the window, each
  once, in address order; the walk ends after at most as many steps as there are nodes.
\<close>

theorem range_tree_iteration:
  assumes "rt_inv t" "s \<le> e"
  shows "uvm_range_tree_for_each_in t s e =
    filter (\<lambda>n. uvm_ranges_overlap (n_start t n) (n_end t n) s e) (head t)"
  using for_each_in_eq [OF assms] by (simp add: uvm_ranges_overlap_def conj_commute)

theorem range_tree_iteration_witness:
  "uvm_range_tree_for_each_in demo 50 250 = [0, 1]"
proof -
  have "filter (\<lambda>n. uvm_ranges_overlap (n_start demo n) (n_end demo n) 50 250) (head demo) = [0, 1]"
    by code_simp
  then show ?thesis using range_tree_iteration [OF demo_inv, of 50 250] by simp
qed

text \<open>
  C30. A hole is found exactly for an address no node contains; it then contains the address, meets no
  node and cannot be extended on either side. The clamped variant cuts it to the given window.
\<close>

theorem range_tree_hole:
  assumes "rt_inv t"
  shows "if a \<in> covered t then uvm_range_tree_find_hole t a = Inl NV_ERR_UVM_ADDRESS_IN_USE \<and>
      uvm_range_tree_find_hole_in t a lo hi = Inl NV_ERR_UVM_ADDRESS_IN_USE
    else \<exists>s e. uvm_range_tree_find_hole t a = Inr (s, e) \<and> largest_hole t a (s, e) \<and>
      uvm_range_tree_find_hole_in t a lo hi = Inr (max s lo, min e hi)"
  using find_hole_in_use [OF assms, of a] find_hole_largest [OF assms, of a]
  by (auto simp: uvm_range_tree_find_hole_in_def)

theorem range_tree_hole_witness:
  "\<exists>s e. uvm_range_tree_find_hole demo 120 = Inr (s, e) \<and> largest_hole demo 120 (s, e) \<and>
      uvm_range_tree_find_hole_in demo 120 110 500 = Inr (max s 110, min e 500)"
proof -
  have "uvm_range_tree_find demo 120 = None" by code_simp
  then have "120 \<notin> covered demo" using range_find_None_iff [OF demo_inv] by simp
  then show ?thesis using range_tree_hole [OF demo_inv, of 120 110 500] by simp
qed

text \<open>
  Splitting a node and merging it with its new neighbour are inverse: the merge returns the node
  that was split off, and the ranges are the ones before the split.
\<close>

theorem range_tree_split_merge:
  assumes "rb_ok rb" "rt_inv t" "n \<in> set (head t)" "new \<notin> set (head t)"
    and "n_start t n < n_start t new" "n_start t new \<le> n_end t n"
  shows "\<exists>t'. uvm_range_tree_merge_next rb (uvm_range_tree_split rb t n new) n = (Some new, t') \<and>
    rt_inv t' \<and> range_list t' = range_list t"
proof -
  obtain xs ys where h: "head t = xs @ n # ys" using assms(3) by (auto simp: in_set_conv_decomp)
  let ?s = "uvm_range_tree_split rb t n new"
  have rl: "range_list ?s = map (as_range t) xs @ (n, n_start t n, n_start t new - 1) #
      (new, n_start t new, n_end t n) # map (as_range t) ys"
    by (rule split_eq(2) [OF assms(1,2) h assms(4-6)])
  have i: "rt_inv ?s" by (rule split_eq(1) [OF assms(1,2) h assms(4-6)])
  have hs: "head ?s = xs @ n # new # ys"
    using arg_cong [OF rl, of "map fst"] by (simp add: range_list_def as_range_def comp_def)
  have eqs: "map (as_range ?s) xs = map (as_range t) xs" "as_range ?s n = (n, n_start t n, n_start t new - 1)"
    "as_range ?s new = (new, n_start t new, n_end t n)" "map (as_range ?s) ys = map (as_range t) ys"
    using rl unfolding range_list_def hs by (simp_all add: as_range_def [abs_def])
  have adj: "n_start ?s new = n_end ?s n + 1" using eqs(2,3) by (simp add: as_range_def)
  obtain t' where t': "uvm_range_tree_merge_next rb ?s n = (Some new, t')" "rt_inv t'"
    "range_list t' = map (as_range ?s) xs @ (n, n_start ?s n, n_end ?s new) # map (as_range ?s) ys"
    by (rule merge_next_eq [OF assms(1) i hs adj])
  then show ?thesis using eqs range_list_split [OF h] by (simp add: as_range_def)
qed

theorem range_tree_split_merge_witness:
  "\<exists>t'. uvm_range_tree_merge_next plain_rb (uvm_range_tree_split plain_rb (set_node 3 250 0 demo) 1 3) 1 = (Some 3, t') \<and>
    rt_inv t' \<and> range_list t' = range_list (set_node 3 250 0 demo)"
  by (rule range_tree_split_merge [OF plain_rb_ok rt_inv_set_other [OF demo_inv]]; code_simp)

section \<open>Properties of the range allocator\<close>

lemma alloc_claims:
  assumes "rb_ok rb" "ra_ok ra" "new \<notin> set (head (ra_tree ra))" "0 < sz" "valid_alignment al"
    and "uvm_range_allocator_alloc rb ra sz al (Some new) = (NV_OK, ra', Some r)"
  shows "n_start (ra_tree ra') new \<le> aligned_start r \<and>
    {n_start (ra_tree ra') new..n_end (ra_tree ra') new} \<subseteq> covered (ra_tree ra) \<and>
    covered (ra_tree ra') = covered (ra_tree ra) - {n_start (ra_tree ra') new..n_end (ra_tree ra') new} \<and>
    ra_node r = Some new"
  using assms(1-5)
proof (cases rule: alloc_cases)
  case (ok n s t')
  have "{n_start (ra_tree ra) n..s + (sz - 1)} \<subseteq> covered (ra_tree ra)"
    using ok(2,6) by (auto simp: covered_def in_node_def intro!: bexI [of _ n])
  then show ?thesis using ok(1,3,4) assms(6) by (auto simp: carved_def)
qed (use assms(6) in simp)

lemma ra_step_size: "ra_step rb s s' \<Longrightarrow> ra_size (fst s') = ra_size (fst s)"
  by (induction rule: ra_step.induct)
    (auto simp: uvm_range_allocator_alloc_def alloc_loop_find uvm_range_allocator_free_def carve_def Let_def
      split: if_splits option.splits prod.splits)

lemma ra_reachable_size: "(ra_step rb)\<^sup>*\<^sup>* s s' \<Longrightarrow> ra_size (fst s') = ra_size (fst s)"
  by (induction rule: rtranclp_induct) (auto dest: ra_step_size)

lemma whole_range:
  assumes "rb_ok rb" "ra_inv (ra, [])"
  shows "intervals (ra_tree ra) = [(0, ra_size ra - 1)]"
    and "\<exists>ra'. uvm_range_allocator_deinit rb ra = Some ra' \<and> uvm_range_tree_empty (ra_tree ra')"
proof -
  let ?t = "ra_tree ra"
  have k: "rt_inv ?t" "separated ?t" "covered ?t = {..ra_size ra - 1}" "0 < ra_size ra"
    using assms(2) by (simp_all add: ra_inv_def Let_def ra_ok_def out_nodes_def)
  have lt: "ra_size ra - 1 < ra_size ra" using u64_dec_cases [of "ra_size ra"] k(4) by auto
  have "maximal_interval (covered ?t) (0, ra_size ra - 1)"
    using lt unfolding k(3) by (auto simp: maximal_interval_def)
  then have mem: "(0, ra_size ra - 1) \<in> set (intervals ?t)"
    using intervals_eq_maximal [OF k(1,2)] by simp
  have "w = (0, ra_size ra - 1)" if "w \<in> set (intervals ?t)" for w
  proof -
    obtain n where n: "n \<in> set (head ?t)" "w = (n_start ?t n, n_end ?t n)"
      using \<open>w \<in> set (intervals ?t)\<close> by (auto simp: intervals_def)
    obtain m where m: "m \<in> set (head ?t)" "n_start ?t m = 0" "n_end ?t m = ra_size ra - 1"
      using mem by (auto simp: intervals_def)
    have "n_start ?t n \<in> covered ?t"
      using n(1) rt_inv_bounds [OF k(1) n(1)] by (auto simp: covered_def in_node_def)
    then have "in_node ?t m (n_start ?t n)" using k(3) m by (simp add: in_node_def)
    moreover have "in_node ?t n (n_start ?t n)" using rt_inv_bounds [OF k(1) n(1)] by (simp add: in_node_def)
    ultimately have "n = m" using in_node_unique [OF k(1) n(1) m(1)] by blast
    then show ?thesis using n m by simp
  qed
  then have s: "set (intervals ?t) = {(0, ra_size ra - 1)}" using mem by blast
  show i: "intervals ?t = [(0, ra_size ra - 1)]"
    by (rule ordered_unique [OF intervals_ordered [OF k(1)], of "[(0, ra_size ra - 1)]"]) (simp_all add: s)
  then obtain n where h: "head ?t = [n]" "n_start ?t n = 0" "n_end ?t n = ra_size ra - 1"
    by (auto simp: intervals_def)
  then have "uvm_range_tree_iter_first ?t 0 (ra_size ra - 1) = Some n"
    using iter_first_eq [OF k(1), of 0 "ra_size ra - 1"] by simp
  then show "\<exists>ra'. uvm_range_allocator_deinit rb ra = Some ra' \<and> uvm_range_tree_empty (ra_tree ra')"
    using h(1) by (simp add: uvm_range_allocator_deinit_def uvm_range_tree_remove_def uvm_range_tree_empty_def)
qed

text \<open>An allocator of 4096 addresses and a first allocation from it.\<close>

definition fresh_node :: "node_ptr \<Rightarrow> range_node" where
  "fresh_node n = \<lparr>rn_start = 0, rn_end = 0\<rparr>"

lemma demo_alloc:
  obtains ra ra' r where "uvm_range_allocator_init plain_rb fresh_node 4096 (Some 0) = (NV_OK, Some ra)"
    "ra_inv (ra, [])" "7 \<notin> set (head (ra_tree ra)) \<union> set (out_nodes [])"
    "uvm_range_allocator_alloc plain_rb ra 100 1024 (Some 7) = (NV_OK, ra', Some r)"
proof -
  obtain ra where ra: "uvm_range_allocator_init plain_rb fresh_node 4096 (Some 0) = (NV_OK, Some ra)" "ra_inv (ra, [])"
    by (rule ra_init_inv [OF plain_rb_ok, of 4096 fresh_node 0]) simp_all
  have "case uvm_range_allocator_init plain_rb fresh_node 4096 (Some 0) of (_, Some ra) \<Rightarrow>
      7 \<notin> set (head (ra_tree ra)) \<and> (case uvm_range_allocator_alloc plain_rb ra 100 1024 (Some 7) of
        (st, _, r) \<Rightarrow> st = NV_OK \<and> r \<noteq> None) | _ \<Rightarrow> False"
    by code_simp
  then show thesis using ra that by (auto simp: out_nodes_def split: prod.splits)
qed

lemma valid_1024: "valid_alignment 1024"
  by (auto simp: valid_alignment_def intro!: exI [of _ 10])

definition demo_ra :: range_allocator where
  "demo_ra = \<lparr>ra_size = 4096,
     ra_tree = \<lparr>nodes = (\<lambda>n. \<lparr>rn_start = 1000, rn_end = 4095\<rparr>), rb_root = Node Leaf 0 Leaf, head = [0]\<rparr>\<rparr>"

lemma demo_ra_ok: "ra_ok demo_ra"
proof -
  have "rt_inv (ra_tree demo_ra)" by (simp add: demo_ra_def rt_inv_def n_start_def n_end_def)
  moreover have "separated (ra_tree demo_ra)"
    by (auto simp: demo_ra_def separated_def adjacent_def n_start_def n_end_def)
  moreover have "covered (ra_tree demo_ra) \<subseteq> {..ra_size demo_ra - 1}"
    by (auto simp: demo_ra_def covered_def in_node_def n_start_def n_end_def)
  ultimately show ?thesis by (simp add: ra_ok_def demo_ra_def)
qed

text \<open>
  C31. Allocation is complete and exact. It succeeds exactly when some aligned range of the requested
  size is free; otherwise it reports the address space as used up and changes nothing. On success
  the result is aligned, the claimed range (from the start of the free range it was carved from to the
  end of the allocation) was free, and exactly that range is no longer free.
\<close>

theorem range_allocator_alloc_exact:
  assumes "rb_ok rb" "ra_ok ra" "new \<notin> set (head (ra_tree ra))" "0 < sz" "valid_alignment al"
  shows "case uvm_range_allocator_alloc rb ra sz al (Some new) of
      (st, ra', None) \<Rightarrow> st = NV_ERR_UVM_ADDRESS_IN_USE \<and> ra' = ra \<and> (\<forall>a. \<not> free_at (ra_tree ra) sz al a)
    | (st, ra', Some r) \<Rightarrow> st = NV_OK \<and> ra_ok ra' \<and> free_at (ra_tree ra) sz al (aligned_start r) \<and>
        n_start (ra_tree ra') new \<le> aligned_start r \<and> n_end (ra_tree ra') new = aligned_start r + (sz - 1) \<and>
        {n_start (ra_tree ra') new..n_end (ra_tree ra') new} \<subseteq> covered (ra_tree ra) \<and>
        covered (ra_tree ra') = covered (ra_tree ra) - {n_start (ra_tree ra') new..n_end (ra_tree ra') new}"
  using assms
proof (cases rule: alloc_cases)
  case (ok n s t')
  have c: "rt_inv t'" "separated t'" "covered t' = covered (ra_tree ra) - {n_start (ra_tree ra) n..s + (sz - 1)}"
    "n_start t' new = n_start (ra_tree ra) n" "n_end t' new = s + (sz - 1)"
    using ok(3) by (simp_all add: carved_def)
  have sub: "{n_start (ra_tree ra) n..s + (sz - 1)} \<subseteq> covered (ra_tree ra)"
    using ok(2,6) by (auto simp: covered_def in_node_def intro!: bexI [of _ n])
  have "{s..s + (sz - 1)} \<subseteq> {n_start (ra_tree ra) n..s + (sz - 1)}" using ok(4) by auto
  then have "{s..s + (sz - 1)} \<subseteq> covered (ra_tree ra)" using sub by (rule subset_trans)
  then have "free_at (ra_tree ra) sz al s" using ok(5,7) by (simp add: free_at_def)
  moreover have "ra_ok (ra\<lparr>ra_tree := t'\<rparr>)" using c assms(2) by (auto simp: ra_ok_def)
  ultimately show ?thesis using ok(1,4) c sub by simp
next
  case full
  then show ?thesis using alloc_ok_iff [OF assms] by simp
qed

theorem range_allocator_alloc_exact_witness:
  "\<exists>ra' r. uvm_range_allocator_alloc plain_rb demo_ra 100 1024 (Some 7) = (NV_OK, ra', Some r) \<and>
     free_at (ra_tree demo_ra) 100 1024 (aligned_start r) \<and> ra_ok ra'"
proof -
  have "fst (uvm_range_allocator_alloc plain_rb demo_ra 100 1024 (Some 7)) = NV_OK" by code_simp
  moreover have "7 \<notin> set (head (ra_tree demo_ra))" by code_simp
  ultimately show ?thesis
    using range_allocator_alloc_exact [OF plain_rb_ok demo_ra_ok _ _ valid_1024, of 7 100]
    by (auto split: prod.splits option.splits)
qed

text \<open>
  C32. Freeing an allocation undoes it: the free ranges are the ones before the allocation, whether the
  allocation shrank a free range or used it up.
\<close>

theorem range_allocator_roundtrip:
  assumes "rb_ok rb" "ra_inv (ra, out)" "new \<notin> set (head (ra_tree ra)) \<union> set (out_nodes out)"
    and "0 < sz" "valid_alignment al" "uvm_range_allocator_alloc rb ra sz al (Some new) = (NV_OK, ra', Some r)"
  shows "\<exists>ra'' x. uvm_range_allocator_free rb ra' (Some r) = Some (ra'', x) \<and> ra_inv (ra'', out) \<and>
    intervals (ra_tree ra'') = intervals (ra_tree ra)"
proof -
  have i: "ra_ok ra" using assms(2) by (simp add: ra_inv_def Let_def)
  have inv: "ra_inv (ra', r # out)" using ra_inv_alloc [OF assms] by simp
  have nn: "new \<notin> set (head (ra_tree ra))" using assms(3) by simp
  have x: "n_start (ra_tree ra') new \<le> aligned_start r"
    "{n_start (ra_tree ra') new..n_end (ra_tree ra') new} \<subseteq> covered (ra_tree ra)"
    "covered (ra_tree ra') = covered (ra_tree ra) - {n_start (ra_tree ra') new..n_end (ra_tree ra') new}"
    "ra_node r = Some new"
    using alloc_claims [OF assms(1) i nn assms(4-6)] by blast+
  obtain ra'' y where f: "uvm_range_allocator_free rb ra' (Some r) = Some (ra'', y)" "ra_inv (ra'', out)"
    "covered (ra_tree ra'') = covered (ra_tree ra') \<union> {a. in_node (ra_tree ra') (the (ra_node r)) a}"
    by (rule ra_inv_free [OF assms(1) inv, of r]) simp_all
  have "{a. in_node (ra_tree ra') new a} = {n_start (ra_tree ra') new..n_end (ra_tree ra') new}"
    by (auto simp: in_node_def)
  then have "covered (ra_tree ra'') = covered (ra_tree ra)"
    unfolding f(3) x(3,4) option.sel using x(2) by blast
  moreover have "ra_ok ra''" using f(2) by (simp add: ra_inv_def Let_def)
  ultimately have "intervals (ra_tree ra'') = intervals (ra_tree ra)"
    using i by (intro intervals_determined) (simp_all add: ra_ok_def)
  then show ?thesis using f by blast
qed

theorem range_allocator_roundtrip_witness:
  "\<exists>ra ra' r ra'' x. uvm_range_allocator_init plain_rb fresh_node 4096 (Some 0) = (NV_OK, Some ra) \<and>
     uvm_range_allocator_alloc plain_rb ra 100 1024 (Some 7) = (NV_OK, ra', Some r) \<and>
     uvm_range_allocator_free plain_rb ra' (Some r) = Some (ra'', x) \<and>
     intervals (ra_tree ra'') = intervals (ra_tree ra)"
proof -
  obtain ra ra' r where d: "uvm_range_allocator_init plain_rb fresh_node 4096 (Some 0) = (NV_OK, Some ra)"
    "ra_inv (ra, [])" "7 \<notin> set (head (ra_tree ra)) \<union> set (out_nodes [])"
    "uvm_range_allocator_alloc plain_rb ra 100 1024 (Some 7) = (NV_OK, ra', Some r)"
    by (rule demo_alloc)
  have "(0 :: u64) < 100" by simp
  from range_allocator_roundtrip [OF plain_rb_ok d(2,3) this valid_1024 d(4)] d(1,4) show ?thesis by blast
qed

text \<open>
  C33. Over any sequence of allocations and releases, failed ones included, the free ranges and the held
  ranges partition the address space: no address is given out twice or lost. When everything has been
  freed, the tree is the single range the tear-down expects, and the tear-down leaves it empty.
\<close>

theorem range_allocator_partition:
  assumes "rb_ok rb" "0 < sz" "uvm_range_allocator_init rb h sz (Some node) = (NV_OK, Some ra0)"
    and "(ra_step rb)\<^sup>*\<^sup>* (ra0, []) (ra, out)"
  shows "ra_inv (ra, out) \<and> (out = [] \<longrightarrow> intervals (ra_tree ra) = [(0, sz - 1)] \<and>
    (\<exists>ra'. uvm_range_allocator_deinit rb ra = Some ra' \<and> uvm_range_tree_empty (ra_tree ra')))"
proof -
  have i: "ra_inv (ra0, [])" "ra_size ra0 = sz"
    by (rule ra_init_inv [OF assms(1,2), of h node]; use assms(3) in simp)+
  have r: "ra_inv (ra, out)" by (rule ra_reachable_inv [OF assms(4,1) i(1)])
  have "ra_size ra = sz" using ra_reachable_size [OF assms(4)] i(2) by simp
  then show ?thesis using r whole_range [OF assms(1), of ra] by auto
qed

theorem range_allocator_partition_witness:
  "\<exists>ra0 ra. uvm_range_allocator_init plain_rb fresh_node 4096 (Some 0) = (NV_OK, Some ra0) \<and>
     (ra_step plain_rb)\<^sup>*\<^sup>* (ra0, []) (ra, []) \<and> intervals (ra_tree ra) = [(0, 4095)]"
proof -
  obtain ra ra' r where d: "uvm_range_allocator_init plain_rb fresh_node 4096 (Some 0) = (NV_OK, Some ra)"
    "ra_inv (ra, [])" "7 \<notin> set (head (ra_tree ra)) \<union> set (out_nodes [])"
    "uvm_range_allocator_alloc plain_rb ra 100 1024 (Some 7) = (NV_OK, ra', Some r)"
    by (rule demo_alloc)
  have p: "(0 :: u64) < 100" "(0 :: u64) < 4096" by simp_all
  have s1: "ra_step plain_rb (ra, []) (ra', [r])"
    using ra_step.alloc [OF d(3) p(1) valid_1024 d(4)] by simp
  have "ra_inv (ra', [r])" by (rule ra_step_inv [OF s1 plain_rb_ok d(2)])
  then obtain ra'' x where f: "uvm_range_allocator_free plain_rb ra' (Some r) = Some (ra'', x)"
    by (rule ra_inv_free [OF plain_rb_ok, of ra' "[r]" r]) simp_all
  have s2: "ra_step plain_rb (ra', [r]) (ra'', [])" using ra_step.free [of r "[r]", OF _ f] by simp
  have "(ra_step plain_rb)\<^sup>*\<^sup>* (ra, []) (ra'', [])" using s1 s2 by auto
  moreover from range_allocator_partition [OF plain_rb_ok p(2) d(1) this]
  have "intervals (ra_tree ra'') = [(0, 4095)]" by simp
  ultimately show ?thesis using d(1) by blast
qed

end
