(* ===== verification/Uvm_Rb_Tree.thy ===== *)
theory Uvm_Rb_Tree
  imports Uvm_Tree
begin

text \<open>
  The keyed tree of the UVM driver
  (\<^verbatim>\<open>src/nvidia-vattn-uvm-driver/kernel-open/nvidia-uvm/uvm_rb_tree.c\<close> and \<^verbatim>\<open>.h\<close>): nodes with
  unique 64-bit keys in a search tree and in a list of the same order. It implements a finite map from
  keys to nodes, and its list enumerates the nodes in ascending key order.
\<close>

record rb_tree =
  rbt_keys :: "node_ptr \<Rightarrow> u64"
  rbt_root :: "node_ptr tree"
  rbt_head :: "node_ptr list"

section \<open>Operations\<close>

definition uvm_rb_tree_prev :: "rb_tree \<Rightarrow> node_ptr \<Rightarrow> node_ptr option" where
  "uvm_rb_tree_prev t n = list_prev n (rbt_head t)"

definition uvm_rb_tree_next :: "rb_tree \<Rightarrow> node_ptr \<Rightarrow> node_ptr option" where
  "uvm_rb_tree_next t n = list_next n (rbt_head t)"

definition uvm_rb_tree_find_node :: "rb_tree \<Rightarrow> u64 \<Rightarrow> node_ptr option \<times> node_ptr option \<times> node_ptr option" where
  "uvm_rb_tree_find_node t key =
     (let (node, parent) = rb_walk (\<lambda>n. key < rbt_keys t n) (\<lambda>n. rbt_keys t n < key) (rbt_root t) None;
          next = (case node of
              Some n \<Rightarrow> uvm_rb_tree_next t n
            | None \<Rightarrow> (case parent of
                None \<Rightarrow> None
              | Some p \<Rightarrow> if rbt_keys t p > key then Some p else uvm_rb_tree_next t p))
      in (node, parent, next))"

definition uvm_rb_tree_init :: "(node_ptr \<Rightarrow> u64) \<Rightarrow> rb_tree" where
  "uvm_rb_tree_init h = \<lparr>rbt_keys = h, rbt_root = Leaf, rbt_head = []\<rparr>"

definition uvm_rb_tree_insert :: "rb_ops \<Rightarrow> rb_tree \<Rightarrow> node_ptr \<Rightarrow> NV_STATUS \<times> rb_tree" where
  "uvm_rb_tree_insert rb t node =
     (let (match, parent, _) = uvm_rb_tree_find_node t (rbt_keys t node) in
      if match \<noteq> None then (NV_ERR_IN_USE, t)
      else case parent of
        None \<Rightarrow> (NV_OK, t\<lparr>rbt_root := rb_insert_color rb (Node Leaf node Leaf), rbt_head := node # rbt_head t\<rparr>)
      | Some p \<Rightarrow>
          if rbt_keys t node < rbt_keys t p then
            (NV_OK, t\<lparr>rbt_root := rb_insert_color rb (rb_link_left p node (rbt_root t)),
                      rbt_head := list_add_before p node (rbt_head t)\<rparr>)
          else
            (NV_OK, t\<lparr>rbt_root := rb_insert_color rb (rb_link_right p node (rbt_root t)),
                      rbt_head := list_add_after p node (rbt_head t)\<rparr>))"

definition uvm_rb_tree_remove :: "rb_ops \<Rightarrow> rb_tree \<Rightarrow> node_ptr \<Rightarrow> rb_tree" where
  "uvm_rb_tree_remove rb t node =
     t\<lparr>rbt_root := rb_erase rb node (rbt_root t), rbt_head := remove1 node (rbt_head t)\<rparr>"

definition uvm_rb_tree_find :: "rb_tree \<Rightarrow> u64 \<Rightarrow> node_ptr option" where
  "uvm_rb_tree_find t key = fst (uvm_rb_tree_find_node t key)"

definition uvm_rb_tree_first :: "rb_tree \<Rightarrow> node_ptr option" where
  "uvm_rb_tree_first t = (case rbt_head t of [] \<Rightarrow> None | n # _ \<Rightarrow> Some n)"

definition uvm_rb_tree_empty :: "rb_tree \<Rightarrow> bool" where
  "uvm_rb_tree_empty t \<longleftrightarrow> rbt_head t = []"

section \<open>Invariant\<close>

definition rbt_inv :: "rb_tree \<Rightarrow> bool" where
  "rbt_inv t \<longleftrightarrow> inorder (rbt_root t) = rbt_head t \<and> ordered (rbt_keys t) (rbt_keys t) (rbt_head t)"

definition has_key :: "rb_tree \<Rightarrow> node_ptr \<Rightarrow> u64 \<Rightarrow> bool" where
  "has_key t n k \<longleftrightarrow> rbt_keys t n = k"

definition rbt_ready :: "rb_tree \<Rightarrow> node_ptr \<Rightarrow> bool" where
  "rbt_ready t n \<longleftrightarrow> n \<notin> set (rbt_head t)"

lemma rbt_inv_init: "rbt_inv (uvm_rb_tree_init h)"
  by (simp add: rbt_inv_def uvm_rb_tree_init_def)

lemma rbt_distinct: "rbt_inv t \<Longrightarrow> distinct (rbt_head t)"
  using ordered_distinct [of "rbt_keys t" "rbt_keys t" "rbt_head t"] by (simp add: rbt_inv_def)

lemma ordered_keys_distinct: "ordered k k xs \<Longrightarrow> distinct (map k xs)"
  by (induction xs) (auto dest: less_imp_neq)

lemma rbt_key_unique:
  assumes "rbt_inv t" "n \<in> set (rbt_head t)" "m \<in> set (rbt_head t)" "rbt_keys t n = rbt_keys t m"
  shows "n = m"
proof -
  have "distinct (map (rbt_keys t) (rbt_head t))"
    by (rule ordered_keys_distinct) (use assms(1) in \<open>simp add: rbt_inv_def\<close>)
  then show ?thesis using assms(2-4) by (auto simp: distinct_map dest: inj_onD)
qed

lemma rbt_find_cases:
  assumes "rbt_inv t"
  obtains
    (hit) n p x where "uvm_rb_tree_find_node t k = (Some n, p, x)" "n \<in> set (rbt_head t)" "rbt_keys t n = k"
  | (empty) x where "uvm_rb_tree_find_node t k = (None, None, x)" "rbt_head t = []"
  | (before) p x xs ys where "uvm_rb_tree_find_node t k = (None, Some p, x)" "rbt_head t = xs @ p # ys"
      "k < rbt_keys t p" "\<forall>z \<in> set xs. rbt_keys t z < k"
      "\<And>n. inorder (rb_link_left p n (rbt_root t)) = xs @ n # p # ys"
  | (after) p x xs ys where "uvm_rb_tree_find_node t k = (None, Some p, x)" "rbt_head t = xs @ p # ys"
      "rbt_keys t p < k" "\<forall>z \<in> set ys. k < rbt_keys t z"
      "\<And>n. inorder (rb_link_right p n (rbt_root t)) = xs @ p # n # ys"
proof -
  let ?w = "rb_walk (\<lambda>n. k < rbt_keys t n) (\<lambda>n. rbt_keys t n < k) (rbt_root t) None"
  have o: "ordered (rbt_keys t) (rbt_keys t) (inorder (rbt_root t))" and h: "rbt_head t = inorder (rbt_root t)"
    using assms by (simp_all add: rbt_inv_def)
  consider (found) n p where "?w = (Some n, p)" "n \<in> set (rbt_head t)" "rbt_keys t n \<le> k" "k \<le> rbt_keys t n"
    | (nil) "?w = (None, None)" "rbt_root t = Leaf"
    | (gap) p xs ys where "?w = (None, Some p)" "gap_at (rbt_keys t) (rbt_keys t) k p (rbt_root t) xs ys"
    using rb_walk_spec [OF o, of k None, folded h] by blast
  then show thesis
  proof cases
    case found
    then show ?thesis by (intro hit [of n p]) (auto simp: uvm_rb_tree_find_node_def)
  next
    case nil
    then show ?thesis by (intro empty) (auto simp: uvm_rb_tree_find_node_def h)
  next
    case gap
    have hd: "rbt_head t = xs @ p # ys" using gap(2) by (simp add: gap_at_def h)
    from gap(2) consider "k < rbt_keys t p" "\<forall>z \<in> set xs. rbt_keys t z < k"
        "\<And>n. inorder (rb_link_left p n (rbt_root t)) = xs @ n # p # ys"
      | "rbt_keys t p < k" "\<forall>z \<in> set ys. k < rbt_keys t z"
        "\<And>n. inorder (rb_link_right p n (rbt_root t)) = xs @ p # n # ys"
      by (auto simp: gap_at_def)
    then show ?thesis
    proof cases
      case 1
      then show ?thesis using gap(1) hd by (intro before [of p _ xs ys]) (auto simp: uvm_rb_tree_find_node_def)
    next
      case 2
      then show ?thesis using gap(1) hd by (intro after [of p _ xs ys]) (auto simp: uvm_rb_tree_find_node_def)
    qed
  qed
qed

lemma rbt_find_iff:
  assumes "rbt_inv t"
  shows "uvm_rb_tree_find t k = Some n \<longleftrightarrow> n \<in> set (rbt_head t) \<and> rbt_keys t n = k"
  using assms
proof (cases rule: rbt_find_cases [where k = k])
  case (hit m p x)
  then show ?thesis using rbt_key_unique [OF assms] by (auto simp: uvm_rb_tree_find_def)
next
  case (before p x xs ys)
  then show ?thesis using assms by (auto simp: uvm_rb_tree_find_def rbt_inv_def dest: less_trans)
next
  case (after p x xs ys)
  then show ?thesis using assms by (auto simp: uvm_rb_tree_find_def rbt_inv_def dest: less_trans)
qed (simp add: uvm_rb_tree_find_def)

lemma rbt_insert_cases:
  assumes "rb_ok rb" "rbt_inv t"
  obtains
    (ok) xs ys r where "uvm_rb_tree_insert rb t n = (NV_OK, t\<lparr>rbt_root := r, rbt_head := xs @ n # ys\<rparr>)"
      "inorder r = xs @ n # ys" "rbt_head t = xs @ ys"
      "\<forall>z \<in> set xs. rbt_keys t z < rbt_keys t n" "\<forall>z \<in> set ys. rbt_keys t n < rbt_keys t z"
  | (in_use) m where "uvm_rb_tree_insert rb t n = (NV_ERR_IN_USE, t)"
      "m \<in> set (rbt_head t)" "rbt_keys t m = rbt_keys t n"
  using assms(2)
proof (cases rule: rbt_find_cases [where k = "rbt_keys t n"])
  case (hit m p x)
  then show ?thesis by (intro in_use [of m]) (auto simp: uvm_rb_tree_insert_def)
next
  case (empty x)
  then show ?thesis using assms(1)
    by (intro ok [of "[]" "[]" "rb_insert_color rb (Node Leaf n Leaf)"]) (auto simp: uvm_rb_tree_insert_def)
next
  case (before p x xs ys)
  have "p \<notin> set xs" "\<forall>z \<in> set (p # ys). rbt_keys t n < rbt_keys t z"
    using rbt_distinct [OF assms(2)] assms(2) before(2,3) by (auto simp: rbt_inv_def dest: less_trans)
  then show ?thesis using before assms(1)
    by (intro ok [of xs "p # ys" "rb_insert_color rb (rb_link_left p n (rbt_root t))"])
      (auto simp: uvm_rb_tree_insert_def)
next
  case (after p x xs ys)
  have "p \<notin> set xs" "\<forall>z \<in> set (xs @ [p]). rbt_keys t z < rbt_keys t n"
    using rbt_distinct [OF assms(2)] assms(2) after(2,3) by (auto simp: rbt_inv_def dest: less_trans)
  then show ?thesis using after assms(1)
    by (intro ok [of "xs @ [p]" ys "rb_insert_color rb (rb_link_right p n (rbt_root t))"])
      (auto simp: uvm_rb_tree_insert_def)
qed

lemma rbt_insert_inv:
  assumes "rb_ok rb" "rbt_inv t"
  shows "rbt_inv (snd (uvm_rb_tree_insert rb t n))" "rbt_keys (snd (uvm_rb_tree_insert rb t n)) = rbt_keys t"
    "fst (uvm_rb_tree_insert rb t n) = NV_OK \<Longrightarrow>
     set (rbt_head (snd (uvm_rb_tree_insert rb t n))) = insert n (set (rbt_head t))"
    "fst (uvm_rb_tree_insert rb t n) = NV_OK \<longleftrightarrow> (\<forall>m \<in> set (rbt_head t). rbt_keys t m \<noteq> rbt_keys t n)"
    "fst (uvm_rb_tree_insert rb t n) \<noteq> NV_OK \<Longrightarrow> uvm_rb_tree_insert rb t n = (NV_ERR_IN_USE, t)"
  by (rule rbt_insert_cases [OF assms, of n]; use assms(2) in \<open>force simp: rbt_inv_def\<close>)+

lemma rbt_remove_inv:
  assumes "rb_ok rb" "rbt_inv t"
  shows "rbt_inv (uvm_rb_tree_remove rb t n)"
    "rbt_head (uvm_rb_tree_remove rb t n) = remove1 n (rbt_head t)"
    "rbt_keys (uvm_rb_tree_remove rb t n) = rbt_keys t"
  using assms by (simp_all add: uvm_rb_tree_remove_def rbt_inv_def ordered_remove1)

interpretation rbt: search_index
  "\<lambda>(rb, t). rb_ok rb \<and> rbt_inv t" "\<lambda>(rb, t). rbt_head t" "\<lambda>(rb, t). has_key t" "\<lambda>(rb, t). rbt_ready t"
  "\<lambda>(rb, t). uvm_rb_tree_find t" "\<lambda>(rb, t) n. map_prod id (Pair rb) (uvm_rb_tree_insert rb t n)"
  "\<lambda>(rb, t) n. (rb, uvm_rb_tree_remove rb t n)"
proof (unfold_locales, goal_cases)
  case (1 t k n)
  then show ?case by (auto simp: rbt_find_iff has_key_def split: prod.splits)
next
  case (2 t n t')
  then show ?case using rbt_insert_inv [of "fst t" "snd t" n]
    by (cases "uvm_rb_tree_insert (fst t) (snd t) n") (auto simp: has_key_def fun_eq_iff split: prod.splits)
next
  case (3 t n)
  then show ?case using rbt_insert_inv(4) by (auto simp: has_key_def split: prod.splits)
next
  case (4 t n)
  then show ?case by (auto simp: rbt_insert_inv(5) split: prod.splits)
next
  case (5 t n)
  then show ?case by (auto simp: rbt_remove_inv split: prod.splits)
next
  case (6 t n)
  then show ?case using rbt_distinct by (auto simp: rbt_remove_inv split: prod.splits)
next
  case (7 t n)
  then show ?case by (auto simp: uvm_rb_tree_remove_def has_key_def fun_eq_iff split: prod.splits)
qed

section \<open>The map the tree implements\<close>

definition rbt_abs :: "rb_tree \<Rightarrow> u64 \<rightharpoonup> node_ptr" where
  "rbt_abs t = map_of (map (\<lambda>n. (rbt_keys t n, n)) (rbt_head t))"

lemma rbt_abs_find: "rbt_inv t \<Longrightarrow> uvm_rb_tree_find t = rbt_abs t"
proof
  fix k
  assume i: "rbt_inv t"
  have d: "distinct (map fst (map (\<lambda>n. (rbt_keys t n, n)) (rbt_head t)))"
    using rbt_distinct [OF i] rbt_key_unique [OF i] by (auto simp: comp_def distinct_map inj_on_def)
  show "uvm_rb_tree_find t k = rbt_abs t k"
  proof (rule option_eqI)
    fix n
    have "rbt_abs t k = Some n \<longleftrightarrow> (k, n) \<in> set (map (\<lambda>n. (rbt_keys t n, n)) (rbt_head t))"
      unfolding rbt_abs_def using d by (rule map_of_eq_Some_iff)
    then show "uvm_rb_tree_find t k = Some n \<longleftrightarrow> rbt_abs t k = Some n"
      using rbt_find_iff [OF i] by auto
  qed
qed

lemma rbt_sorted: "rbt_inv t \<Longrightarrow> sorted_wrt (<) (map (rbt_keys t) (rbt_head t))"
  by (simp add: rbt_inv_def ordered_def sorted_wrt_map)

definition plain_ops :: rb_ops where
  "plain_ops = \<lparr>rb_insert_color = (\<lambda>t. t),
     rb_erase = (\<lambda>n t. foldr (\<lambda>x t. Node Leaf x t) (remove1 n (inorder t)) Leaf)\<rparr>"

lemma plain_ops_ok: "rb_ok plain_ops"
proof -
  have "inorder (foldr (\<lambda>x t. Node Leaf x t) xs Leaf) = xs" for xs :: "node_ptr list"
    by (induction xs) simp_all
  then show ?thesis by (simp add: rb_ok_def plain_ops_def)
qed

text \<open>
  C34. The tree refines a finite map. Looking up is applying the map; inserting adds the binding when
  the key is new and otherwise reports it as in use and changes nothing; removing a linked node deletes
  its binding. The list is in strictly ascending key order throughout.
\<close>

theorem rb_tree_refines_map:
  assumes "rb_ok rb" "rbt_inv t" "n \<notin> set (rbt_head t)" "m \<in> set (rbt_head t)"
  shows "uvm_rb_tree_find t = rbt_abs t \<and>
    (case uvm_rb_tree_insert rb t n of (st, t') \<Rightarrow> rbt_inv t' \<and>
      (if rbt_keys t n \<in> dom (rbt_abs t) then st = NV_ERR_IN_USE \<and> t' = t
       else st = NV_OK \<and> rbt_abs t' = (rbt_abs t)(rbt_keys t n \<mapsto> n)) \<and>
      sorted_wrt (<) (map (rbt_keys t') (rbt_head t'))) \<and>
    rbt_inv (uvm_rb_tree_remove rb t m) \<and>
    rbt_abs (uvm_rb_tree_remove rb t m) = (rbt_abs t)(rbt_keys t m := None)"
proof -
  have i: "(\<lambda>(rb, t). rb_ok rb \<and> rbt_inv t) (rb, t)" "(\<lambda>(rb, t). rbt_ready t) (rb, t) n"
    using assms by (simp_all add: rbt_ready_def)
  obtain st t' where r: "uvm_rb_tree_insert rb t n = (st, t')" by fastforce
  have t': "rbt_inv t'" using rbt_insert_inv(1) [OF assms(1,2), of n] r by simp
  have f: "uvm_rb_tree_find t = rbt_abs t" "uvm_rb_tree_find t' = rbt_abs t'"
    "uvm_rb_tree_find (uvm_rb_tree_remove rb t m) = rbt_abs (uvm_rb_tree_remove rb t m)"
    using assms(1,2) t' by (simp_all add: rbt_abs_find rbt_remove_inv)
  have ins: "rbt_abs t' k = (if st = NV_OK \<and> rbt_keys t n = k then Some n else rbt_abs t k)" for k
    using rbt.lookup_add [OF i, of k] r f by (simp add: has_key_def)
  have dom: "st = NV_OK \<longleftrightarrow> rbt_keys t n \<notin> dom (rbt_abs t)"
    using rbt.add_fails_iff [OF i] r f by (auto simp: has_key_def)
  have err: "st \<noteq> NV_OK \<Longrightarrow> st = NV_ERR_IN_USE \<and> t' = t"
    using rbt_insert_inv(5) [OF assms(1,2), of n] r by simp
  have "rbt_abs (uvm_rb_tree_remove rb t m) k = ((rbt_abs t)(rbt_keys t m := None)) k" for k
  proof -
    have "rbt_abs t k = Some m \<longleftrightarrow> rbt_keys t m = k" using rbt_find_iff [OF assms(2), of k m] assms(4) f by simp
    then show ?thesis using rbt.lookup_del [OF i(1), of m k] f by auto
  qed
  then show ?thesis
    using f(1) r t' ins dom err rbt_sorted [OF t'] rbt_remove_inv(1) [OF assms(1,2)]
    by (auto simp: fun_eq_iff)
qed

theorem rb_tree_refines_map_witness:
  "uvm_rb_tree_find (snd (uvm_rb_tree_insert plain_ops
      \<lparr>rbt_keys = (\<lambda>n. if n = 0 then 10 else 20), rbt_root = Node Leaf 0 Leaf, rbt_head = [0]\<rparr> 1)) 20 = Some 1"
proof -
  let ?t = "\<lparr>rbt_keys = (\<lambda>n. if n = 0 then 10 else 20), rbt_root = Node Leaf 0 Leaf, rbt_head = [0]\<rparr> :: rb_tree"
  have i: "rbt_inv ?t" "1 \<notin> set (rbt_head ?t)" "0 \<in> set (rbt_head ?t)" by (simp_all add: rbt_inv_def)
  have "20 \<notin> dom (rbt_abs ?t)" by (simp add: rbt_abs_def)
  then have "rbt_inv (snd (uvm_rb_tree_insert plain_ops ?t 1))"
    "rbt_abs (snd (uvm_rb_tree_insert plain_ops ?t 1)) 20 = Some 1"
    using rb_tree_refines_map [OF plain_ops_ok i] by (auto split: prod.splits)
  then show ?thesis using rbt_abs_find by simp
qed

end
