(* ===== verification/Uvm_Push.thy ===== *)
theory Uvm_Push
  imports Vattn_Prelude
begin

text \<open>
  The commands the driver puts into a push, as far as its page-table code uses them
  (\<^verbatim>\<open>uvm_push.c\<close>, \<^verbatim>\<open>uvm_hal.h\<close>, \<^verbatim>\<open>uvm_hal_types.h\<close>). A push is the list of the commands written so
  far; \<open>run_push\<close> is what the copy engine makes of it, one command after the other. GPU
  memory is a function from physical addresses to the 8-byte word stored there: page-table
  entries are 8-byte aligned, so words never overlap partially. The address translation
  \<^verbatim>\<open>uvm_mmu_gpu_address\<close> only chooses how the engine names a physical address and is
  the identity here. Fragments of inline data are lists of words.
\<close>

type_synonym u32 = "32 word"

datatype uvm_aperture =
  UVM_APERTURE_PEER_0 | UVM_APERTURE_PEER_1 | UVM_APERTURE_PEER_2 | UVM_APERTURE_PEER_3
| UVM_APERTURE_PEER_4 | UVM_APERTURE_PEER_5 | UVM_APERTURE_PEER_6 | UVM_APERTURE_PEER_7
| UVM_APERTURE_PEER_MAX | UVM_APERTURE_SYS | UVM_APERTURE_VID | UVM_APERTURE_DEFAULT | UVM_APERTURE_MAX

record uvm_gpu_phys_address =
  address :: u64
  aperture :: uvm_aperture

datatype uvm_membar = UVM_MEMBAR_NONE | UVM_MEMBAR_GPU | UVM_MEMBAR_SYS

fun membar_rank :: "uvm_membar \<Rightarrow> nat" where
  "membar_rank UVM_MEMBAR_NONE = 0"
| "membar_rank UVM_MEMBAR_GPU = 1"
| "membar_rank UVM_MEMBAR_SYS = 2"

instantiation uvm_membar :: linorder
begin
definition less_eq_uvm_membar :: "uvm_membar \<Rightarrow> uvm_membar \<Rightarrow> bool" where
  "a \<le> b \<longleftrightarrow> membar_rank a \<le> membar_rank b"
definition less_uvm_membar :: "uvm_membar \<Rightarrow> uvm_membar \<Rightarrow> bool" where
  "a < b \<longleftrightarrow> membar_rank a < membar_rank b"
instance
proof
  fix a b :: uvm_membar
  show "a \<le> b \<Longrightarrow> b \<le> a \<Longrightarrow> a = b"
    by (cases a; cases b) (simp_all add: less_eq_uvm_membar_def)
qed (auto simp: less_eq_uvm_membar_def less_uvm_membar_def)
end

definition uvm_membar_max :: "uvm_membar \<Rightarrow> uvm_membar \<Rightarrow> uvm_membar" where
  "uvm_membar_max membar_1 membar_2 = max membar_1 membar_2"

datatype uvm_push_flag =
  UVM_PUSH_FLAG_CE_NEXT_PIPELINED | UVM_PUSH_FLAG_NEXT_MEMBAR_NONE | UVM_PUSH_FLAG_NEXT_MEMBAR_GPU

datatype push_cmd =
  Set_Flag uvm_push_flag
| Noop nat
| Memcopy uvm_gpu_phys_address "u64 list"
| Memset_8 uvm_gpu_phys_address u64 nat
| Wait_For_Idle
| Membar uvm_membar
| Tlb_Invalidate_Va uvm_gpu_phys_address u32 u64 u64 u32 uvm_membar
| Tlb_Invalidate_All uvm_gpu_phys_address u32 uvm_membar

type_synonym push = "push_cmd list"

definition UVM_METHOD_SIZE :: nat where "UVM_METHOD_SIZE = 4"

definition UVM_METHOD_COUNT_MAX :: nat where "UVM_METHOD_COUNT_MAX = 8191"

definition UVM_PUSH_INLINE_DATA_MAX_SIZE :: nat where
  "UVM_PUSH_INLINE_DATA_MAX_SIZE = UVM_METHOD_COUNT_MAX * UVM_METHOD_SIZE"

definition roundup :: "nat \<Rightarrow> nat \<Rightarrow> nat" where
  "roundup x y = (x + (y - 1)) div y * y"

text \<open>
  Ending a fragment of inline data puts a no-operation before it, so that the engine skips it.
\<close>

definition uvm_push_inline_data_end :: "u64 list \<Rightarrow> push \<Rightarrow> push" where
  "uvm_push_inline_data_end inline_data p =
     p @ [Noop (roundup (8 * length inline_data) UVM_METHOD_SIZE + UVM_METHOD_SIZE)]"

definition uvm_hal_membar :: "uvm_membar \<Rightarrow> push \<Rightarrow> push" where
  "uvm_hal_membar membar p = (case membar of UVM_MEMBAR_NONE \<Rightarrow> p | _ \<Rightarrow> p @ [Membar membar])"

definition uvm_hal_wfi_membar :: "uvm_membar \<Rightarrow> push \<Rightarrow> push" where
  "uvm_hal_wfi_membar membar p = uvm_hal_membar membar (p @ [Wait_For_Idle])"

section \<open>Executing a push\<close>

type_synonym gpu_mem = "uvm_gpu_phys_address \<Rightarrow> u64"

definition advance :: "uvm_gpu_phys_address \<Rightarrow> u64 \<Rightarrow> uvm_gpu_phys_address" where
  "advance a n = a\<lparr>address := address a + n\<rparr>"

fun write_words :: "uvm_gpu_phys_address \<Rightarrow> u64 list \<Rightarrow> gpu_mem \<Rightarrow> gpu_mem" where
  "write_words a [] m = m"
| "write_words a (w # ws) m = write_words (advance a 8) ws (m(a := w))"

fun run_cmd :: "push_cmd \<Rightarrow> gpu_mem \<Rightarrow> gpu_mem" where
  "run_cmd (Memcopy dst ws) m = write_words dst ws m"
| "run_cmd (Memset_8 dst v n) m = write_words dst (replicate (n div 8) v) m"
| "run_cmd _ m = m"

definition run_push :: "push \<Rightarrow> gpu_mem \<Rightarrow> gpu_mem" where
  "run_push p m = fold run_cmd p m"

lemma run_push_simps [simp]:
  "run_push [] m = m"
  "run_push (p @ q) m = run_push q (run_push p m)"
  "run_push (c # q) m = run_push q (run_cmd c m)"
  by (simp_all add: run_push_def)

lemma advance_simps [simp]:
  "advance a 0 = a"
  "advance (advance a i) j = advance a (i + j)"
  "address (advance a i) = address a + i"
  "aperture (advance a i) = aperture a"
  by (simp_all add: advance_def add.assoc)

lemma write_words_append:
  "write_words a (xs @ ys) m = write_words (advance a (of_nat (length xs) * 8)) ys (write_words a xs m)"
  by (induction xs arbitrary: a m) (simp_all add: algebra_simps)

lemma write_words_snoc:
  "write_words a (xs @ [x]) m = (write_words a xs m)(advance a (of_nat (length xs) * 8) := x)"
  by (simp add: write_words_append)

lemma run_hal_membar [simp]: "run_push (uvm_hal_wfi_membar b p) m = run_push p m"
  by (cases b) (simp_all add: uvm_hal_wfi_membar_def uvm_hal_membar_def)

lemma run_inline_end [simp]: "run_push (uvm_push_inline_data_end ws p) m = run_push p m"
  by (simp add: uvm_push_inline_data_end_def)

lemma uvm_membar_max_simps [simp]:
  "uvm_membar_max a UVM_MEMBAR_NONE = a" "uvm_membar_max UVM_MEMBAR_NONE a = a"
  by (cases a; simp add: uvm_membar_max_def max_def less_eq_uvm_membar_def)+

end
