(* ===== verification/Uvm_Tlb_Batch.thy ===== *)
theory Uvm_Tlb_Batch
  imports Uvm_Push
begin

text \<open>
  The batch of TLB invalidations of the driver (\<^verbatim>\<open>uvm_tlb_batch.c\<close>). What the GPU supports,
  its limits, the depth of the page table for a page size and the page directory are a
  parameter (\<open>tlb_caps\<close>): they come from the hardware layer. Up to four ranges are kept;
  beyond that, or beyond the GPU's limits, the whole TLB is invalidated.

  \<open>total\<close> is the union of \<^verbatim>\<open>total_pages\<close> and \<^verbatim>\<open>total_ranges\<close>: which one it is depends only on the
  GPU. \<^verbatim>\<open>__ffs\<close> and \<^verbatim>\<open>__fls\<close> of zero are undefined in the kernel, and unspecified here.
\<close>

unbundle bit_operations_syntax

definition UVM_TLB_BATCH_MAX_ENTRIES :: u32 where "UVM_TLB_BATCH_MAX_ENTRIES = 4"

record tlb_caps =
  va_invalidate_supported :: bool
  va_range_invalidate_supported :: bool
  max_ranges :: u32
  max_pages :: u32
  page_table_depth :: "u32 \<Rightarrow> u32"
  pdb_addr :: uvm_gpu_phys_address

record tlb_range =
  r_start :: u64
  r_size :: u64
  r_page_sizes :: u32

record tlb_batch =
  total :: u32
  ranges :: "tlb_range list"
  tb_count :: u32
  biggest :: u32
  tb_membar :: uvm_membar

definition set_bits :: "'a :: len word \<Rightarrow> nat list" where
  "set_bits x = filter (bit x) [0..<LENGTH('a)]"

definition ffs :: "u32 \<Rightarrow> nat" where "ffs x = hd (set_bits x)"

definition fls :: "u32 \<Rightarrow> nat" where "fls x = last (set_bits x)"

definition uvm_div_pow2_64 :: "u64 \<Rightarrow> u64 \<Rightarrow> u64" where
  "uvm_div_pow2_64 numerator denominator_pow2 = drop_bit (last (set_bits denominator_pow2)) numerator"

definition smallest_page_size :: "u32 \<Rightarrow> u32" where
  "smallest_page_size page_sizes = push_bit (ffs page_sizes) 1"

definition biggest_page_size :: "u32 \<Rightarrow> u32" where
  "biggest_page_size page_sizes = push_bit (fls page_sizes) 1"

definition uvm_tlb_batch_begin :: tlb_batch where
  "uvm_tlb_batch_begin =
     \<lparr>total = 0, ranges = replicate (unat UVM_TLB_BATCH_MAX_ENTRIES) \<lparr>r_start = 0, r_size = 0, r_page_sizes = 0\<rparr>,
      tb_count = 0, biggest = 0, tb_membar = UVM_MEMBAR_NONE\<rparr>"

definition per_va_cmd :: "tlb_caps \<Rightarrow> tlb_range \<Rightarrow> uvm_membar \<Rightarrow> push_cmd" where
  "per_va_cmd c e membar =
     Tlb_Invalidate_Va (pdb_addr c) (page_table_depth c (biggest_page_size (r_page_sizes e)))
       (r_start e) (r_size e) (smallest_page_size (r_page_sizes e)) membar"

definition tlb_batch_flush_invalidate_per_va :: "tlb_caps \<Rightarrow> tlb_batch \<Rightarrow> push \<Rightarrow> push" where
  "tlb_batch_flush_invalidate_per_va c b p =
     p @ map (\<lambda>i. per_va_cmd c (ranges b ! i)
                    (if i = unat (tb_count b - 1) then tb_membar b else UVM_MEMBAR_NONE))
           [0..<unat (tb_count b)]"

definition tlb_batch_flush_invalidate_all :: "tlb_caps \<Rightarrow> tlb_batch \<Rightarrow> push \<Rightarrow> push" where
  "tlb_batch_flush_invalidate_all c b p =
     p @ [Tlb_Invalidate_All (pdb_addr c) (page_table_depth c (biggest b)) (tb_membar b)]"

definition tlb_batch_should_invalidate_all :: "tlb_caps \<Rightarrow> tlb_batch \<Rightarrow> bool" where
  "tlb_batch_should_invalidate_all c b =
     (if \<not> va_invalidate_supported c then True
      else if tb_count b > UVM_TLB_BATCH_MAX_ENTRIES then True
      else if va_range_invalidate_supported c then total b > max_ranges c
      else total b > max_pages c)"

definition uvm_tlb_batch_end :: "tlb_caps \<Rightarrow> tlb_batch \<Rightarrow> push \<Rightarrow> uvm_membar \<Rightarrow> push" where
  "uvm_tlb_batch_end c b p tlb_membar =
     (if tb_count b = 0 then p
      else let b = b\<lparr>tb_membar := uvm_membar_max tlb_membar (tb_membar b)\<rparr>
        in if tlb_batch_should_invalidate_all c b then tlb_batch_flush_invalidate_all c b p
           else tlb_batch_flush_invalidate_per_va c b p)"

definition uvm_tlb_batch_invalidate ::
  "tlb_caps \<Rightarrow> u64 \<Rightarrow> u64 \<Rightarrow> u32 \<Rightarrow> uvm_membar \<Rightarrow> tlb_batch \<Rightarrow> tlb_batch" where
  "uvm_tlb_batch_invalidate c start sz page_sizes tlb_membar b =
     (let b = b\<lparr>tb_membar := uvm_membar_max tlb_membar (tb_membar b), tb_count := tb_count b + 1\<rparr>;
          b = (if va_range_invalidate_supported c then b\<lparr>total := total b + 1\<rparr>
               else b\<lparr>total := total b + ucast (uvm_div_pow2_64 sz (ucast (smallest_page_size page_sizes)))\<rparr>);
          b = b\<lparr>biggest := max (biggest b) (biggest_page_size page_sizes)\<rparr>
      in if tlb_batch_should_invalidate_all c b then b
         else b\<lparr>ranges := (ranges b)[unat (tb_count b - 1) :=
                \<lparr>r_start = start, r_size = sz, r_page_sizes = page_sizes\<rparr>]\<rparr>)"

definition uvm_tlb_batch_single_invalidate ::
  "tlb_caps \<Rightarrow> push \<Rightarrow> u64 \<Rightarrow> u64 \<Rightarrow> u32 \<Rightarrow> uvm_membar \<Rightarrow> push" where
  "uvm_tlb_batch_single_invalidate c p start sz page_sizes tlb_membar =
     uvm_tlb_batch_end c (uvm_tlb_batch_invalidate c start sz page_sizes UVM_MEMBAR_NONE uvm_tlb_batch_begin)
       p tlb_membar"

section \<open>A batch of requests\<close>

record tlb_request = tlb_range +
  q_membar :: uvm_membar

definition queue_request :: "tlb_caps \<Rightarrow> tlb_request \<Rightarrow> tlb_batch \<Rightarrow> tlb_batch" where
  "queue_request c q = uvm_tlb_batch_invalidate c (r_start q) (r_size q) (r_page_sizes q) (q_membar q)"

definition queued :: "tlb_caps \<Rightarrow> tlb_request list \<Rightarrow> tlb_batch" where
  "queued c qs = fold (queue_request c) qs uvm_tlb_batch_begin"

definition pages_of :: "tlb_request \<Rightarrow> nat" where
  "pages_of q = unat (uvm_div_pow2_64 (r_size q) (ucast (smallest_page_size (r_page_sizes q))))"

definition charge :: "tlb_caps \<Rightarrow> tlb_request list \<Rightarrow> nat" where
  "charge c qs = (if va_range_invalidate_supported c then length qs else sum_list (map pages_of qs))"

definition strongest :: "tlb_request list \<Rightarrow> uvm_membar" where
  "strongest qs = fold (\<lambda>q. uvm_membar_max (q_membar q)) qs UVM_MEMBAR_NONE"

definition widest :: "tlb_request list \<Rightarrow> u32" where
  "widest qs = fold (\<lambda>q w. max w (biggest_page_size (r_page_sizes q))) qs 0"

text \<open>
  The state of a batch after a list of requests, as long as neither the number of requests nor
  the number of pages wraps around: the totals are exact, and unless the whole TLB will be
  invalidated every request has its entry.
\<close>

definition represents :: "tlb_caps \<Rightarrow> tlb_request list \<Rightarrow> tlb_batch \<Rightarrow> bool" where
  "represents c qs b \<longleftrightarrow>
     unat (tb_count b) = length qs \<and> unat (total b) = charge c qs \<and>
     tb_membar b = strongest qs \<and> biggest b = widest qs \<and>
     length (ranges b) = unat UVM_TLB_BATCH_MAX_ENTRIES \<and>
     (\<not> tlb_batch_should_invalidate_all c b \<longrightarrow>
        length qs \<le> unat UVM_TLB_BATCH_MAX_ENTRIES \<and>
        (\<forall>i < length qs. ranges b ! i = tlb_range.truncate (qs ! i)))"

lemma begin_represents: "represents c [] uvm_tlb_batch_begin"
  by (simp add: represents_def uvm_tlb_batch_begin_def charge_def strongest_def widest_def)

lemma charge_snoc:
  "charge c (qs @ [q]) = charge c qs + (if va_range_invalidate_supported c then 1 else pages_of q)"
  by (simp add: charge_def)

lemma fields_queue_request [simp]:
  "tb_count (queue_request c q b) = tb_count b + 1"
  "total (queue_request c q b) = total b + (if va_range_invalidate_supported c then 1
     else ucast (uvm_div_pow2_64 (r_size q) (ucast (smallest_page_size (r_page_sizes q)))))"
  "tb_membar (queue_request c q b) = uvm_membar_max (q_membar q) (tb_membar b)"
  "biggest (queue_request c q b) = max (biggest b) (biggest_page_size (r_page_sizes q))"
  "length (ranges (queue_request c q b)) = length (ranges b)"
  by (simp_all add: queue_request_def uvm_tlb_batch_invalidate_def Let_def)

lemma should_all_ranges [simp]:
  "tlb_batch_should_invalidate_all c (b\<lparr>ranges := rs\<rparr>) = tlb_batch_should_invalidate_all c b"
  by (simp add: tlb_batch_should_invalidate_all_def)

lemma should_all_membar [simp]:
  "tlb_batch_should_invalidate_all c (b\<lparr>tb_membar := mb\<rparr>) = tlb_batch_should_invalidate_all c b"
  by (simp add: tlb_batch_should_invalidate_all_def)

lemma should_all_iff:
  "tlb_batch_should_invalidate_all c b \<longleftrightarrow>
     \<not> va_invalidate_supported c \<or> unat (tb_count b) > unat UVM_TLB_BATCH_MAX_ENTRIES \<or>
     unat (total b) > unat (if va_range_invalidate_supported c then max_ranges c else max_pages c)"
  by (simp add: tlb_batch_should_invalidate_all_def word_less_nat_alt)

lemma ranges_queue_request:
  "\<not> tlb_batch_should_invalidate_all c (queue_request c q b) \<Longrightarrow>
   ranges (queue_request c q b) = (ranges b)[unat (tb_count b) := tlb_range.truncate q]"
  by (auto simp: queue_request_def uvm_tlb_batch_invalidate_def Let_def tlb_range.truncate_def
      split: if_splits)

lemma total_queue_request:
  assumes "unat (total b) = charge c qs" "charge c (qs @ [q]) < 2 ^ 32"
  shows "unat (total (queue_request c q b)) = charge c (qs @ [q])"
proof (cases "va_range_invalidate_supported c")
  case True
  then show ?thesis
    using assms by (simp add: charge_snoc unat_word_ariths(1))
next
  case False
  let ?p = "uvm_div_pow2_64 (r_size q) (ucast (smallest_page_size (r_page_sizes q)))"
  have "unat ?p < 2 ^ 32" using assms(2) False by (simp add: charge_snoc pages_of_def)
  then have "unat (ucast ?p :: u32) = unat ?p"
    by (simp only: unsigned_ucast_eq) (simp add: take_bit_eq_mod unsigned_take_bit_eq take_bit_nat_eq_self)
  then show ?thesis
    using assms False by (simp add: charge_snoc pages_of_def unat_word_ariths(1))
qed

lemma queue_represents:
  assumes r: "represents c qs b" and n: "length qs + 1 < 2 ^ 32" and ch: "charge c (qs @ [q]) < 2 ^ 32"
  shows "represents c (qs @ [q]) (queue_request c q b)"
proof -
  let ?b = "queue_request c q b"
  have count: "unat (tb_count ?b) = length qs + 1"
    using r n by (simp add: represents_def unat_word_ariths(1))
  have tot: "unat (total ?b) = charge c (qs @ [q])"
    using r ch by (intro total_queue_request) (auto simp: represents_def)
  have entries: "length (qs @ [q]) \<le> unat UVM_TLB_BATCH_MAX_ENTRIES \<and>
      (\<forall>i < length (qs @ [q]). ranges ?b ! i = tlb_range.truncate ((qs @ [q]) ! i))"
    if not_all: "\<not> tlb_batch_should_invalidate_all c ?b"
  proof -
    have le: "length qs + 1 \<le> unat UVM_TLB_BATCH_MAX_ENTRIES"
      using not_all count by (simp add: should_all_iff)
    have "\<not> tlb_batch_should_invalidate_all c b"
      using not_all count tot r by (auto simp: should_all_iff represents_def charge_snoc)
    then have old: "\<forall>i < length qs. ranges b ! i = tlb_range.truncate (qs ! i)"
      using r by (simp add: represents_def)
    have rs: "ranges ?b = (ranges b)[length qs := tlb_range.truncate q]"
      using ranges_queue_request [OF not_all] r by (simp add: represents_def)
    have len: "length (ranges b) = unat UVM_TLB_BATCH_MAX_ENTRIES"
      using r by (simp add: represents_def)
    show ?thesis
      using le len old by (auto simp: rs nth_append nth_list_update less_Suc_eq)
  qed
  show ?thesis
    unfolding represents_def
  proof (intro conjI impI)
    show "unat (tb_count ?b) = length (qs @ [q])" using count by simp
    show "unat (total ?b) = charge c (qs @ [q])" by (rule tot)
    show "tb_membar ?b = strongest (qs @ [q])" "biggest ?b = widest (qs @ [q])"
      "length (ranges ?b) = unat UVM_TLB_BATCH_MAX_ENTRIES"
      using r by (simp_all add: represents_def strongest_def widest_def)
  qed (use entries in auto)
qed

lemma charge_append_le: "charge c qs \<le> charge c (qs @ rs)"
  by (simp add: charge_def)

lemma queued_represents:
  assumes "length qs < 2 ^ 32" "charge c qs < 2 ^ 32"
  shows "represents c qs (queued c qs)"
  using assms
proof (induction qs rule: rev_induct)
  case Nil
  then show ?case by (simp add: queued_def begin_represents)
next
  case (snoc q qs)
  have "charge c qs < 2 ^ 32" using snoc.prems(2) charge_append_le [of c qs "[q]"] by (rule le_less_trans [rotated])
  then have "represents c qs (queued c qs)" using snoc by simp
  then show ?case using snoc.prems by (simp add: queued_def queue_represents)
qed

lemma strongest_ge: "q \<in> set qs \<Longrightarrow> q_membar q \<le> strongest qs"
proof -
  have "mb \<le> fold (\<lambda>q. uvm_membar_max (q_membar q)) qs mb \<and>
      (\<forall>q \<in> set qs. q_membar q \<le> fold (\<lambda>q. uvm_membar_max (q_membar q)) qs mb)" for mb
  proof (induction qs arbitrary: mb)
    case (Cons q qs)
    from Cons.IH [of "uvm_membar_max (q_membar q) mb"] show ?case
      by (auto simp: uvm_membar_max_def)
  qed simp
  then show "q \<in> set qs \<Longrightarrow> q_membar q \<le> strongest qs" by (simp add: strongest_def)
qed

lemma widest_ge: "q \<in> set qs \<Longrightarrow> biggest_page_size (r_page_sizes q) \<le> widest qs"
proof -
  have "w \<le> fold (\<lambda>q w. max w (biggest_page_size (r_page_sizes q))) qs w \<and>
      (\<forall>q \<in> set qs. biggest_page_size (r_page_sizes q) \<le> fold (\<lambda>q w. max w (biggest_page_size (r_page_sizes q))) qs w)" for w
  proof (induction qs arbitrary: w)
    case (Cons q qs)
    from Cons.IH [of "max w (biggest_page_size (r_page_sizes q))"] show ?case by auto
  qed simp
  then show "q \<in> set qs \<Longrightarrow> biggest_page_size (r_page_sizes q) \<le> widest qs" by (simp add: widest_def)
qed

section \<open>What the end of a batch pushes\<close>

text \<open>
  The invalidations of a list of requests one by one, with the membar after the last.
\<close>

definition one_by_one :: "tlb_caps \<Rightarrow> tlb_request list \<Rightarrow> uvm_membar \<Rightarrow> push" where
  "one_by_one c qs membar =
     map (\<lambda>q. per_va_cmd c (tlb_range.truncate q) UVM_MEMBAR_NONE) (butlast qs) @
     [per_va_cmd c (tlb_range.truncate (last qs)) membar]"

lemma one_by_one_nth:
  assumes "qs \<noteq> []"
  shows "one_by_one c qs mb =
    map (\<lambda>i. per_va_cmd c (tlb_range.truncate (qs ! i)) (if i = length qs - 1 then mb else UVM_MEMBAR_NONE))
      [0..<length qs]"
proof (rule nth_equalityI)
  show "length (one_by_one c qs mb) = length (map (\<lambda>i. per_va_cmd c (tlb_range.truncate (qs ! i))
      (if i = length qs - 1 then mb else UVM_MEMBAR_NONE)) [0..<length qs])"
    using assms by (simp add: one_by_one_def)
  fix i assume "i < length (one_by_one c qs mb)"
  then have "i < length qs" using assms by (simp add: one_by_one_def)
  then show "one_by_one c qs mb ! i = map (\<lambda>i. per_va_cmd c (tlb_range.truncate (qs ! i))
      (if i = length qs - 1 then mb else UVM_MEMBAR_NONE)) [0..<length qs] ! i"
    using assms by (auto simp: one_by_one_def nth_append nth_butlast last_conv_nth)
qed

lemma tlb_end_eq:
  fixes tlb_membar :: uvm_membar
  assumes r: "represents c qs b" and ne: "qs \<noteq> []"
  defines "mb \<equiv> uvm_membar_max tlb_membar (strongest qs)"
  shows "uvm_tlb_batch_end c b p tlb_membar =
    (if tlb_batch_should_invalidate_all c b
     then p @ [Tlb_Invalidate_All (pdb_addr c) (page_table_depth c (widest qs)) mb]
     else p @ one_by_one c qs mb)"
proof -
  have n: "unat (tb_count b) = length qs" using r by (simp add: represents_def)
  then have pos: "tb_count b \<noteq> 0" using ne by auto
  then have n1: "unat (tb_count b - 1) = length qs - 1" using n by (simp add: unat_minus_one)
  show ?thesis
  proof (cases "tlb_batch_should_invalidate_all c b")
    case True
    then show ?thesis
      using r pos by (simp add: uvm_tlb_batch_end_def Let_def tlb_batch_flush_invalidate_all_def represents_def mb_def)
  next
    case False
    have "map (\<lambda>i. per_va_cmd c (ranges b ! i) (if i = length qs - 1 then mb else UVM_MEMBAR_NONE)) [0..<length qs]
        = one_by_one c qs mb"
      using False r by (simp add: one_by_one_nth [OF ne] represents_def)
    then show ?thesis
      using False r pos n n1
      by (simp add: uvm_tlb_batch_end_def Let_def tlb_batch_flush_invalidate_per_va_def represents_def mb_def
          cong: if_cong del: One_nat_def)
  qed
qed

text \<open>
  C36. A TLB batch invalidates everything that was queued. Ending a batch of requests pushes
  either one invalidation of the whole TLB, at the depth of the largest page size of any
  request, or, for at most four requests, an invalidation of each requested range in order, and
  the last command carries a membar at least as strong as every one asked for. This holds as
  long as the 32-bit totals do not wrap.
\<close>

theorem tlb_batch_complete:
  assumes "qs \<noteq> []" "length qs < 2 ^ 32" "charge c qs < 2 ^ 32"
  shows "\<exists>mb. tlb_membar \<le> mb \<and> (\<forall>i < length qs. q_membar (qs ! i) \<le> mb) \<and>
    (uvm_tlb_batch_end c (queued c qs) p tlb_membar = p @ one_by_one c qs mb \<and> length qs \<le> 4 \<or>
     (\<exists>w. (\<forall>i < length qs. biggest_page_size (r_page_sizes (qs ! i)) \<le> w) \<and>
        uvm_tlb_batch_end c (queued c qs) p tlb_membar =
          p @ [Tlb_Invalidate_All (pdb_addr c) (page_table_depth c w) mb]))"
proof (intro exI [of _ "uvm_membar_max tlb_membar (strongest qs)"] conjI)
  note r = queued_represents [OF assms(2,3)]
  show "tlb_membar \<le> uvm_membar_max tlb_membar (strongest qs)" by (simp add: uvm_membar_max_def)
  show "\<forall>i < length qs. q_membar (qs ! i) \<le> uvm_membar_max tlb_membar (strongest qs)"
    by (simp add: uvm_membar_max_def strongest_ge le_max_iff_disj)
  show "uvm_tlb_batch_end c (queued c qs) p tlb_membar =
        p @ one_by_one c qs (uvm_membar_max tlb_membar (strongest qs)) \<and> length qs \<le> 4 \<or>
     (\<exists>w. (\<forall>i < length qs. biggest_page_size (r_page_sizes (qs ! i)) \<le> w) \<and>
        uvm_tlb_batch_end c (queued c qs) p tlb_membar =
          p @ [Tlb_Invalidate_All (pdb_addr c) (page_table_depth c w) (uvm_membar_max tlb_membar (strongest qs))])"
    using r widest_ge [of _ qs] nth_mem [of _ qs]
    by (auto simp: tlb_end_eq [OF r assms(1)] represents_def UVM_TLB_BATCH_MAX_ENTRIES_def
        intro!: exI [of _ "widest qs"])
qed

text \<open>The limits of a Pascal GPU.\<close>

definition pascal_caps :: tlb_caps where
  "pascal_caps = \<lparr>va_invalidate_supported = True, va_range_invalidate_supported = False,
     max_ranges = 0, max_pages = 32, page_table_depth = (\<lambda>sz. if sz = 4096 then 4 else 3),
     pdb_addr = \<lparr>address = 0, aperture = UVM_APERTURE_VID\<rparr>\<rparr>"

definition request :: "u64 \<Rightarrow> u64 \<Rightarrow> tlb_request" where
  "request start sz = \<lparr>r_start = start, r_size = sz, r_page_sizes = 4096, q_membar = UVM_MEMBAR_GPU\<rparr>"

lemma page_size_4k: "smallest_page_size 4096 = 4096" "biggest_page_size 4096 = 4096"
  by (code_simp)+

lemma pages_4k: "uvm_div_pow2_64 sz 4096 = drop_bit 12 sz"
proof -
  have "last (set_bits (4096 :: u64)) = 12" by code_simp
  then show ?thesis by (simp add: uvm_div_pow2_64_def)
qed

theorem tlb_batch_complete_witness:
  "\<exists>mb. UVM_MEMBAR_GPU \<le> mb \<and>
     (uvm_tlb_batch_end pascal_caps (queued pascal_caps [request 4096 4096, request 65536 8192]) [] UVM_MEMBAR_NONE
        = one_by_one pascal_caps [request 4096 4096, request 65536 8192] mb \<or>
      (\<exists>w. uvm_tlb_batch_end pascal_caps (queued pascal_caps [request 4096 4096, request 65536 8192]) [] UVM_MEMBAR_NONE
         = [Tlb_Invalidate_All (pdb_addr pascal_caps) (page_table_depth pascal_caps w) mb]))"
proof -
  let ?qs = "[request 4096 4096, request 65536 8192]"
  have "pages_of (request 4096 4096) = 1" "pages_of (request 65536 8192) = 2"
    by (simp_all add: pages_of_def request_def page_size_4k pages_4k)
  then have "charge pascal_caps ?qs < 2 ^ 32" by (simp add: charge_def pascal_caps_def)
  then show ?thesis
    using tlb_batch_complete [of ?qs pascal_caps UVM_MEMBAR_NONE "[]"]
    by (fastforce simp: request_def)
qed

text \<open>
  The 32-bit count of pages wraps. On a GPU without range invalidation, a first range of
  \<open>2 ^ 32 - 1\<close> small pages is not stored, because the batch expects to invalidate the whole TLB;
  a second range of two pages makes the total wrap to one, and the batch ends with the
  invalidations of an empty range and of the second range: the first range stays in the TLB.
\<close>

theorem tlb_batch_wraps:
  "let qs = [request 0x200000000000 0xFFFFFFFF000, request 0x100000 8192]; b = queued pascal_caps qs in
     tlb_batch_should_invalidate_all pascal_caps (queued pascal_caps (take 1 qs)) \<and>
     uvm_tlb_batch_end pascal_caps b [] UVM_MEMBAR_NONE =
       [per_va_cmd pascal_caps \<lparr>r_start = 0, r_size = 0, r_page_sizes = 0\<rparr> UVM_MEMBAR_NONE,
        per_va_cmd pascal_caps \<lparr>r_start = 0x100000, r_size = 8192, r_page_sizes = 4096\<rparr> UVM_MEMBAR_GPU]"
proof -
  have d: "drop_bit 12 (0xFFFFFFFF000 :: u64) = 0xFFFFFFFF" "drop_bit 12 (8192 :: u64) = 2"
    "(ucast (0xFFFFFFFF :: u64) :: u32) = 0xFFFFFFFF" "(ucast (2 :: u64) :: u32) = 2"
    "(ucast (4096 :: u32) :: u64) = 4096"
    by code_simp+
  let ?q1 = "request 0x200000000000 0xFFFFFFFF000" and ?q2 = "request 0x100000 8192"
  let ?e0 = "\<lparr>r_start = 0, r_size = 0, r_page_sizes = 0\<rparr> :: tlb_range"
  let ?e2 = "\<lparr>r_start = 0x100000, r_size = 8192, r_page_sizes = 4096\<rparr> :: tlb_range"
  have b0: "uvm_tlb_batch_begin = \<lparr>total = 0, ranges = [?e0, ?e0, ?e0, ?e0], tb_count = 0, biggest = 0, tb_membar = UVM_MEMBAR_NONE\<rparr>"
    by (simp add: uvm_tlb_batch_begin_def UVM_TLB_BATCH_MAX_ENTRIES_def) (simp add: numeral_eq_Suc)
  have b1: "queue_request pascal_caps ?q1 uvm_tlb_batch_begin =
      \<lparr>total = 0xFFFFFFFF, ranges = [?e0, ?e0, ?e0, ?e0], tb_count = 1, biggest = 4096, tb_membar = UVM_MEMBAR_GPU\<rparr>"
    and all1: "tlb_batch_should_invalidate_all pascal_caps
      \<lparr>total = 0xFFFFFFFF, ranges = [?e0, ?e0, ?e0, ?e0], tb_count = 1, biggest = 4096, tb_membar = UVM_MEMBAR_GPU\<rparr>"
    by (simp_all add: b0 queue_request_def uvm_tlb_batch_invalidate_def Let_def request_def pascal_caps_def
        tlb_batch_should_invalidate_all_def UVM_TLB_BATCH_MAX_ENTRIES_def page_size_4k pages_4k d)
  have b2: "queue_request pascal_caps ?q2
      \<lparr>total = 0xFFFFFFFF, ranges = [?e0, ?e0, ?e0, ?e0], tb_count = 1, biggest = 4096, tb_membar = UVM_MEMBAR_GPU\<rparr> =
      \<lparr>total = 1, ranges = [?e0, ?e2, ?e0, ?e0], tb_count = 2, biggest = 4096, tb_membar = UVM_MEMBAR_GPU\<rparr>"
    by (simp add: queue_request_def uvm_tlb_batch_invalidate_def Let_def request_def pascal_caps_def
        tlb_batch_should_invalidate_all_def UVM_TLB_BATCH_MAX_ENTRIES_def page_size_4k pages_4k d uvm_membar_max_def)
  have q: "queued pascal_caps (take 1 [?q1, ?q2]) = queue_request pascal_caps ?q1 uvm_tlb_batch_begin"
    "queued pascal_caps [?q1, ?q2] = queue_request pascal_caps ?q2 (queue_request pascal_caps ?q1 uvm_tlb_batch_begin)"
    by (simp_all add: queued_def)
  have "[0..<2] = [0, 1 :: nat]" by (simp add: upt_rec)
  moreover have "\<not> tlb_batch_should_invalidate_all pascal_caps
      \<lparr>total = 1, ranges = [?e0, ?e2, ?e0, ?e0], tb_count = 2, biggest = 4096, tb_membar = UVM_MEMBAR_GPU\<rparr>"
    by (simp add: tlb_batch_should_invalidate_all_def pascal_caps_def UVM_TLB_BATCH_MAX_ENTRIES_def)
  ultimately have "uvm_tlb_batch_end pascal_caps
      \<lparr>total = 1, ranges = [?e0, ?e2, ?e0, ?e0], tb_count = 2, biggest = 4096, tb_membar = UVM_MEMBAR_GPU\<rparr>
      [] UVM_MEMBAR_NONE = [per_va_cmd pascal_caps ?e0 UVM_MEMBAR_NONE, per_va_cmd pascal_caps ?e2 UVM_MEMBAR_GPU]"
    by (simp add: uvm_tlb_batch_end_def tlb_batch_flush_invalidate_per_va_def)
  then show ?thesis
    using all1 by (simp only: Let_def q b1 b2)
qed

end
