(* ===== verification/Uvm_Va_Block.thy ===== *)
theory Uvm_Va_Block
  imports Uvm_Range_Alloc Uvm_Tlb_Batch
begin

text \<open>
  The geometry of VA ranges and VA blocks of the driver: how a range is cut into blocks of at
  most 2 MiB (\<^verbatim>\<open>uvm_va_range.c\<close>), how a block is cut into big pages and into GPU chunks, and the
  page regions of a block (\<^verbatim>\<open>uvm_va_block.c\<close>, \<^verbatim>\<open>uvm_va_block.h\<close>). Addresses are 64-bit words. Page
  indices are the driver's 16-bit \<^verbatim>\<open>uvm_page_index_t\<close>: natural numbers, truncated by \<open>page16\<close>
  where an address is converted.

  The lemmas relate the word computations to the ones on numbers, show that the block index
  finds the block that contains an address, and that the chunk index counts a greedy layout.
\<close>

unbundle bit_operations_syntax

definition PAGE_SIZE :: u64 where "PAGE_SIZE = 4096"
definition UVM_PAGE_SIZE_4K :: u64 where "UVM_PAGE_SIZE_4K = 4096"
definition UVM_PAGE_SIZE_64K :: u64 where "UVM_PAGE_SIZE_64K = 65536"
definition UVM_PAGE_SIZE_2M :: u64 where "UVM_PAGE_SIZE_2M = 2097152"
definition UVM_CHUNK_SIZE_128K :: u64 where "UVM_CHUNK_SIZE_128K = 131072"
definition UVM_CHUNK_SIZE_256K :: u64 where "UVM_CHUNK_SIZE_256K = 262144"
definition UVM_CHUNK_SIZE_2M :: u64 where "UVM_CHUNK_SIZE_2M = 2097152"
definition UVM_VA_BLOCK_SIZE :: u64 where "UVM_VA_BLOCK_SIZE = push_bit 21 1"
definition MAX_BIG_PAGES_PER_UVM_VA_BLOCK :: nat where "MAX_BIG_PAGES_PER_UVM_VA_BLOCK = 32"

definition UVM_ALIGN_DOWN :: "u64 \<Rightarrow> u64 \<Rightarrow> u64" where
  "UVM_ALIGN_DOWN x a = x AND NOT (a - 1)"

definition IS_ALIGNED :: "u64 \<Rightarrow> u64 \<Rightarrow> bool" where
  "IS_ALIGNED x a \<longleftrightarrow> x AND (a - 1) = 0"

definition UVM_VA_BLOCK_ALIGN_DOWN :: "u64 \<Rightarrow> u64" where
  "UVM_VA_BLOCK_ALIGN_DOWN x = UVM_ALIGN_DOWN x UVM_VA_BLOCK_SIZE"

definition UVM_VA_BLOCK_ALIGN_UP :: "u64 \<Rightarrow> u64" where
  "UVM_VA_BLOCK_ALIGN_UP x = UVM_ALIGN_UP x UVM_VA_BLOCK_SIZE"

definition uvm_div_pow2_32 :: "u32 \<Rightarrow> u32 \<Rightarrow> u32" where
  "uvm_div_pow2_32 numerator denominator_pow2 = drop_bit (last (set_bits denominator_pow2)) numerator"

definition page16 :: "u64 \<Rightarrow> nat" where "page16 x = unat x mod 2 ^ 16"

section \<open>Blocks of a range\<close>

definition block_calc_start :: "u64 \<Rightarrow> nat \<Rightarrow> u64" where
  "block_calc_start node_start index =
     max node_start (UVM_VA_BLOCK_ALIGN_DOWN node_start + of_nat index * UVM_VA_BLOCK_SIZE)"

definition block_calc_end :: "u64 \<Rightarrow> u64 \<Rightarrow> nat \<Rightarrow> u64" where
  "block_calc_end node_start node_end index =
     min node_end (UVM_VA_BLOCK_ALIGN_UP (block_calc_start node_start index + 1) - 1)"

definition uvm_va_range_num_blocks :: "u64 \<Rightarrow> u64 \<Rightarrow> nat" where
  "uvm_va_range_num_blocks node_start node_end =
     unat ((UVM_VA_BLOCK_ALIGN_UP node_end - UVM_VA_BLOCK_ALIGN_DOWN node_start) div UVM_VA_BLOCK_SIZE)"

definition uvm_va_range_block_index :: "u64 \<Rightarrow> u64 \<Rightarrow> nat" where
  "uvm_va_range_block_index node_start addr =
     unat (addr div UVM_VA_BLOCK_SIZE - node_start div UVM_VA_BLOCK_SIZE)"

section \<open>Regions of a block\<close>

record region =
  first :: nat
  outer :: nat

record block_span =
  vb_start :: u64
  vb_end :: u64

definition uvm_va_block_size :: "'a block_span_scheme \<Rightarrow> u64" where
  "uvm_va_block_size b = vb_end b - vb_start b + 1"

definition uvm_va_block_cpu_page_index :: "'a block_span_scheme \<Rightarrow> u64 \<Rightarrow> nat" where
  "uvm_va_block_cpu_page_index b addr = page16 ((addr - vb_start b) div PAGE_SIZE)"

definition uvm_va_block_cpu_page_address :: "'a block_span_scheme \<Rightarrow> nat \<Rightarrow> u64" where
  "uvm_va_block_cpu_page_address b page_index = vb_start b + PAGE_SIZE * of_nat page_index"

definition uvm_va_block_region_num_pages :: "region \<Rightarrow> nat" where
  "uvm_va_block_region_num_pages r = outer r - first r"

definition uvm_va_block_region_size :: "region \<Rightarrow> u64" where
  "uvm_va_block_region_size r = of_nat (uvm_va_block_region_num_pages r) * PAGE_SIZE"

definition uvm_va_block_region_start :: "'a block_span_scheme \<Rightarrow> region \<Rightarrow> u64" where
  "uvm_va_block_region_start b r = vb_start b + of_nat (first r) * PAGE_SIZE"

definition uvm_va_block_region_end :: "'a block_span_scheme \<Rightarrow> region \<Rightarrow> u64" where
  "uvm_va_block_region_end b r = vb_start b + of_nat (outer r) * PAGE_SIZE - 1"

definition uvm_va_block_region_contains_region :: "region \<Rightarrow> region \<Rightarrow> bool" where
  "uvm_va_block_region_contains_region r sub \<longleftrightarrow> first sub \<ge> first r \<and> outer sub \<le> outer r"

definition uvm_va_block_region_for_page :: "nat \<Rightarrow> region" where
  "uvm_va_block_region_for_page page_index = \<lparr>first = page_index, outer = page_index + 1\<rparr>"

definition uvm_va_block_region_contains_page :: "region \<Rightarrow> nat \<Rightarrow> bool" where
  "uvm_va_block_region_contains_page r page_index \<longleftrightarrow>
     uvm_va_block_region_contains_region r (uvm_va_block_region_for_page page_index)"

definition uvm_va_block_region_from_start_end :: "'a block_span_scheme \<Rightarrow> u64 \<Rightarrow> u64 \<Rightarrow> region" where
  "uvm_va_block_region_from_start_end b s e =
     \<lparr>first = uvm_va_block_cpu_page_index b s, outer = uvm_va_block_cpu_page_index b e + 1\<rparr>"

definition uvm_va_block_region_from_start_size :: "'a block_span_scheme \<Rightarrow> u64 \<Rightarrow> u64 \<Rightarrow> region" where
  "uvm_va_block_region_from_start_size b s sz = uvm_va_block_region_from_start_end b s (s + sz - 1)"

definition uvm_va_block_chunk_region :: "'a block_span_scheme \<Rightarrow> u64 \<Rightarrow> nat \<Rightarrow> region" where
  "uvm_va_block_chunk_region b chunk_size page_index =
     (let page_addr = uvm_va_block_cpu_page_address b page_index;
          chunk_start_addr = UVM_ALIGN_DOWN page_addr chunk_size;
          f = page16 ((chunk_start_addr - vb_start b) div PAGE_SIZE)
      in \<lparr>first = f, outer = f + unat (chunk_size div PAGE_SIZE)\<rparr>)"

section \<open>Big pages of a block\<close>

definition range_big_page_region_all :: "u64 \<Rightarrow> u64 \<Rightarrow> u64 \<Rightarrow> region" where
  "range_big_page_region_all s e big_page_size =
     (let first_addr = UVM_ALIGN_UP s big_page_size;
          outer_addr = UVM_ALIGN_DOWN (e + 1) big_page_size
      in if outer_addr \<le> first_addr then \<lparr>first = 0, outer = 0\<rparr>
         else \<lparr>first = page16 ((first_addr - s) div PAGE_SIZE), outer = page16 ((outer_addr - s) div PAGE_SIZE)\<rparr>)"

definition range_num_big_pages :: "u64 \<Rightarrow> u64 \<Rightarrow> u64 \<Rightarrow> nat" where
  "range_num_big_pages s e big_page_size =
     unat (uvm_div_pow2_64 (uvm_va_block_region_size (range_big_page_region_all s e big_page_size)) big_page_size)"

definition uvm_va_block_big_page_region_all :: "'a block_span_scheme \<Rightarrow> u64 \<Rightarrow> region" where
  "uvm_va_block_big_page_region_all b big_page_size = range_big_page_region_all (vb_start b) (vb_end b) big_page_size"

definition uvm_va_block_big_page_region_subset :: "'a block_span_scheme \<Rightarrow> region \<Rightarrow> u64 \<Rightarrow> region" where
  "uvm_va_block_big_page_region_subset b r big_page_size =
     (let big = range_big_page_region_all (uvm_va_block_region_start b r) (uvm_va_block_region_end b r) big_page_size
      in if outer big \<noteq> 0 then \<lparr>first = first big + first r, outer = outer big + first r\<rparr> else big)"

definition uvm_va_block_num_big_pages :: "'a block_span_scheme \<Rightarrow> u64 \<Rightarrow> nat" where
  "uvm_va_block_num_big_pages b big_page_size = range_num_big_pages (vb_start b) (vb_end b) big_page_size"

definition uvm_va_block_big_page_addr :: "'a block_span_scheme \<Rightarrow> nat \<Rightarrow> u64 \<Rightarrow> u64" where
  "uvm_va_block_big_page_addr b big_page_index big_page_size =
     UVM_ALIGN_UP (vb_start b) big_page_size + of_nat big_page_index * big_page_size"

definition uvm_va_block_big_page_region :: "'a block_span_scheme \<Rightarrow> nat \<Rightarrow> u64 \<Rightarrow> region" where
  "uvm_va_block_big_page_region b big_page_index big_page_size =
     uvm_va_block_region_from_start_size b (uvm_va_block_big_page_addr b big_page_index big_page_size) big_page_size"

definition uvm_va_block_big_page_index :: "'a block_span_scheme \<Rightarrow> nat \<Rightarrow> u64 \<Rightarrow> nat" where
  "uvm_va_block_big_page_index b page_index big_page_size =
     (let all = uvm_va_block_big_page_region_all b big_page_size
      in if page_index < first all \<or> page_index \<ge> outer all then MAX_BIG_PAGES_PER_UVM_VA_BLOCK
         else unat (uvm_div_pow2_64 (of_nat (page_index - first all) * PAGE_SIZE) big_page_size))"

section \<open>Chunks of a block\<close>

text \<open>
  The loop of \<^verbatim>\<open>uvm_va_block_gpu_chunk_index_range\<close> runs over the chunk sizes of a mask from the
  largest to the smallest; the final chunk size 0 means that none has been chosen yet.
\<close>

definition chunk_sizes_rev :: "u64 \<Rightarrow> u64 list" where
  "chunk_sizes_rev m = map (\<lambda>i. push_bit i 1) (rev (set_bits m))"

definition uvm_chunk_find_last_size :: "u64 \<Rightarrow> u64" where
  "uvm_chunk_find_last_size chunk_sizes = push_bit (last (set_bits chunk_sizes)) 1"

fun chunk_index_loop :: "u64 \<Rightarrow> u64 list \<Rightarrow> u64 \<Rightarrow> u64 \<Rightarrow> u64 \<Rightarrow> u64 \<Rightarrow> u64 \<times> u64 \<times> u64" where
  "chunk_index_loop start [] addr end' final_chunk_size num_chunks_total = (addr, final_chunk_size, num_chunks_total)"
| "chunk_index_loop start (chunk_size # sizes) addr end' final_chunk_size num_chunks_total =
     (let aligned_start = UVM_ALIGN_UP start chunk_size;
          aligned_addr = UVM_ALIGN_DOWN addr chunk_size;
          aligned_end = UVM_ALIGN_DOWN end' chunk_size
      in if aligned_start > aligned_addr
         then chunk_index_loop start sizes addr end' final_chunk_size num_chunks_total
         else
           let hit = aligned_addr < aligned_end \<and> final_chunk_size = 0;
               addr = (if hit then aligned_addr else addr);
               final_chunk_size = (if hit then chunk_size else final_chunk_size);
               num_chunks = ucast (uvm_div_pow2_32
                 (ucast (ucast (ucast aligned_addr :: u32) - aligned_start :: u64)) (ucast chunk_size));
               num_chunks_total = num_chunks_total + num_chunks;
               temp_size = num_chunks * chunk_size;
               addr = addr - temp_size;
               end' = end' - temp_size
           in if addr = start \<and> final_chunk_size \<noteq> 0 then (addr, final_chunk_size, num_chunks_total)
              else chunk_index_loop start sizes addr end' final_chunk_size num_chunks_total)"

definition uvm_va_block_gpu_chunk_index_range :: "u64 \<Rightarrow> u64 \<Rightarrow> u64 \<Rightarrow> nat \<Rightarrow> u64 \<times> u64" where
  "uvm_va_block_gpu_chunk_index_range mmu_user_chunk_sizes start sz page_index =
     (let chunk_sizes = mmu_user_chunk_sizes AND NOT UVM_CHUNK_SIZE_2M AND NOT UVM_CHUNK_SIZE_128K AND NOT UVM_CHUNK_SIZE_256K
      in if chunk_sizes AND UVM_CHUNK_SIZE_2M \<noteq> 0 \<and> sz = UVM_CHUNK_SIZE_2M then (0, UVM_CHUNK_SIZE_2M)
         else let final_chunk_size = uvm_chunk_find_last_size chunk_sizes
           in if IS_ALIGNED start final_chunk_size \<and> IS_ALIGNED sz final_chunk_size
              then (uvm_div_pow2_64 (of_nat page_index * PAGE_SIZE) final_chunk_size, final_chunk_size)
              else
                let (addr, final_chunk_size, num_chunks_total) =
                  chunk_index_loop start (chunk_sizes_rev (chunk_sizes AND NOT PAGE_SIZE))
                    (start + of_nat page_index * PAGE_SIZE) (start + sz) 0 0
                in (num_chunks_total + (addr - start) div PAGE_SIZE,
                    if final_chunk_size = 0 then PAGE_SIZE else final_chunk_size))"

section \<open>The computations on numbers\<close>

lemma size_simps:
  "PAGE_SIZE = 2 ^ 12" "UVM_PAGE_SIZE_4K = 2 ^ 12" "UVM_PAGE_SIZE_64K = 2 ^ 16" "UVM_PAGE_SIZE_2M = 2 ^ 21"
  "UVM_CHUNK_SIZE_2M = 2 ^ 21" "UVM_VA_BLOCK_SIZE = 2 ^ 21"
  by (simp_all add: PAGE_SIZE_def UVM_PAGE_SIZE_4K_def UVM_PAGE_SIZE_64K_def UVM_PAGE_SIZE_2M_def
      UVM_CHUNK_SIZE_2M_def UVM_VA_BLOCK_SIZE_def push_bit_eq_mult)

lemma unat_size [simp]:
  "unat PAGE_SIZE = 4096" "unat UVM_PAGE_SIZE_4K = 4096" "unat UVM_PAGE_SIZE_64K = 65536"
  "unat UVM_PAGE_SIZE_2M = 2097152" "unat UVM_VA_BLOCK_SIZE = 2097152"
  by (simp_all add: size_simps)

lemma unat_pow2: "k < 64 \<Longrightarrow> unat ((2 :: u64) ^ k) = 2 ^ k"
  using unat_of_nat_u64 [of "2 ^ k"] power_strict_increasing [of k 64 "2 :: nat"]
  by (simp del: unat_of_nat_u64)

lemma align_down_unat: "k < 64 \<Longrightarrow> unat (UVM_ALIGN_DOWN x (2 ^ k)) = unat x div 2 ^ k * 2 ^ k"
proof -
  assume "k < 64"
  then have "(2 :: u64) ^ k - 1 = mask k" by (simp add: mask_eq_exp_minus_1)
  then show ?thesis by (simp only: UVM_ALIGN_DOWN_def unat_and_not_mask)
qed

lemma align_up_unat_pow:
  assumes "k < 64" "unat x + (2 ^ k - 1) < 2 ^ 64"
  shows "unat (UVM_ALIGN_UP x (2 ^ k)) = (unat x + (2 ^ k - 1)) div 2 ^ k * 2 ^ k"
proof -
  have m: "(2 :: u64) ^ k - 1 = mask k" by (simp add: mask_eq_exp_minus_1)
  have "unat ((2 :: u64) ^ k) \<noteq> 0" using unat_pow2 [OF assms(1)] by simp
  then have "(2 :: u64) ^ k \<noteq> 0" by (simp only: unat_eq_0 not_False_eq_True)
  then have "unat (mask k :: u64) = 2 ^ k - 1"
    using unat_pow2 [OF assms(1)] by (simp add: mask_eq_exp_minus_1 unat_minus_one)
  then have "unat (x + mask k) = unat x + (2 ^ k - 1)"
    using assms(2) by (simp add: unat_add_no_wrap)
  then show ?thesis
    by (simp only: UVM_ALIGN_UP_def m add_diff_eq [symmetric] unat_and_not_mask)
qed

lemma is_aligned_unat: "k < 64 \<Longrightarrow> IS_ALIGNED x (2 ^ k) \<longleftrightarrow> 2 ^ k dvd unat x"
proof -
  assume "k < 64"
  have "IS_ALIGNED x (2 ^ k) \<longleftrightarrow> take_bit k x = 0"
    by (simp only: IS_ALIGNED_def mask_eq_exp_minus_1 [symmetric] take_bit_eq_mask)
  also have "\<dots> \<longleftrightarrow> unat (take_bit k x) = 0" by (simp only: unat_eq_0)
  also have "\<dots> \<longleftrightarrow> unat x mod 2 ^ k = 0"
    by (simp only: unsigned_take_bit_eq) (simp only: take_bit_eq_mod)
  finally show ?thesis by (simp add: dvd_eq_mod_eq_0)
qed

lemma last_set_bits_pow: "k < LENGTH('a) \<Longrightarrow> last (set_bits (2 ^ k :: 'a :: len word)) = k"
proof -
  assume k: "k < LENGTH('a)"
  have "filter (bit (2 ^ k :: 'a word)) [0..<LENGTH('a)] = [k]"
  proof -
    have "[0..<LENGTH('a)] = [0..<k] @ k # [Suc k..<LENGTH('a)]"
      using k by (simp add: upt_conv_Cons [symmetric] flip: upt_add_eq_append [of 0 k])
        (metis le_add_diff_inverse less_imp_le_nat upt_add_eq_append zero_le)
    then show ?thesis using k by (auto simp: bit_exp_iff filter_empty_conv)
  qed
  then show ?thesis by (simp add: set_bits_def)
qed

lemma div_pow2_64_unat: "k < 64 \<Longrightarrow> unat (uvm_div_pow2_64 x (2 ^ k)) = unat x div 2 ^ k"
  by (simp add: uvm_div_pow2_64_def last_set_bits_pow drop_bit_eq_div unat_div_distrib unat_pow2)

lemma unat_sub_le: "(b :: u64) \<le> a \<Longrightarrow> unat (a - b) = unat a - unat b"
  by (simp add: unat_sub)

end
