(* ===== verification/Uvm_Geometry.thy ===== *)
theory Uvm_Geometry
  imports Uvm_Va_Block
begin

text \<open>
  What the geometry of VA blocks computes. The chunk index of a page counts the chunks of a
  layout that is defined without any index arithmetic: from left to right, each chunk has the
  largest size that is naturally aligned and fits. For blocks that consist of whole big pages,
  the big page index, the chunk index and the regions coincide.
\<close>

unbundle bit_operations_syntax

section \<open>The chunk layout\<close>

text \<open>
  The sizes are tried in the order of the list; a size that is not positive or does not fit ends
  the layout, which does not happen for page-aligned blocks when the page size is among the sizes.
\<close>

definition chunk_at :: "nat list \<Rightarrow> nat \<Rightarrow> nat \<Rightarrow> nat option" where
  "chunk_at sizes a e = List.find (\<lambda>c. 0 < c \<and> c dvd a \<and> a + c \<le> e) sizes"

lemma chunk_at_pos: "chunk_at sizes a e = Some c \<Longrightarrow> 0 < c \<and> c dvd a \<and> a + c \<le> e"
  by (auto simp: chunk_at_def find_Some_iff)

function layout :: "nat list \<Rightarrow> nat \<Rightarrow> nat \<Rightarrow> (nat \<times> nat) list" where
  "layout sizes a e = (case chunk_at sizes a e of None \<Rightarrow> [] | Some c \<Rightarrow> (a, c) # layout sizes (a + c) e)"
  by auto

termination layout
  by (relation "measure (\<lambda>(sizes, a, e). e - a)") (auto dest: chunk_at_pos)

declare layout.simps [simp del]

abbreviation kb_sizes :: "nat list" where "kb_sizes \<equiv> [65536, 4096]"

lemma chunk_at_kb:
  "chunk_at kb_sizes a e =
     (if 65536 dvd a \<and> a + 65536 \<le> e then Some 65536 else if 4096 dvd a \<and> a + 4096 \<le> e then Some 4096 else None)"
  by (auto simp: chunk_at_def)

lemma layout_steps:
  assumes "\<And>i. i < n \<Longrightarrow> chunk_at sizes (a + c * i) e = Some c"
  shows "layout sizes a e = map (\<lambda>i. (a + c * i, c)) [0..<n] @ layout sizes (a + c * n) e"
  using assms
proof (induction n)
  case (Suc n)
  have "layout sizes (a + c * n) e = (a + c * n, c) # layout sizes (a + c * n + c) e"
    using Suc.prems [of n] by (simp add: layout.simps [of sizes "a + c * n"])
  then show ?case using Suc by (simp add: algebra_simps)
qed simp

lemma layout_small:
  assumes "4096 dvd a" "a + 4096 * n \<le> e" "\<And>i. i < n \<Longrightarrow> 65536 dvd a + 4096 * i \<Longrightarrow> e < a + 4096 * i + 65536"
  shows "layout kb_sizes a e = map (\<lambda>i. (a + 4096 * i, 4096)) [0..<n] @ layout kb_sizes (a + 4096 * n) e"
proof (rule layout_steps)
  fix i assume i: "i < n"
  then have "a + 4096 * i + 4096 \<le> e" using assms(2) by simp
  then show "chunk_at kb_sizes (a + 4096 * i) e = Some 4096"
    using assms(1) assms(3) [OF i] by (auto simp: chunk_at_kb)
qed

lemma layout_big:
  assumes "65536 dvd a" "a + 65536 * n \<le> e"
  shows "layout kb_sizes a e = map (\<lambda>i. (a + 65536 * i, 65536)) [0..<n] @ layout kb_sizes (a + 65536 * n) e"
proof (rule layout_steps)
  fix i assume "i < n"
  then have "a + 65536 * i + 65536 \<le> e" using assms(2) by simp
  then show "chunk_at kb_sizes (a + 65536 * i) e = Some 65536"
    using assms(1) by (auto simp: chunk_at_kb)
qed

text \<open>
  \<open>chunk_of s e x\<close> is the position and the size of the chunk that contains address \<open>x\<close>,
  by cases: before the first big boundary, among the big chunks, behind the last one.
\<close>

definition chunk_of :: "nat \<Rightarrow> nat \<Rightarrow> nat \<Rightarrow> nat \<times> nat" where
  "chunk_of s e x =
     (let u = (s + 65535) div 65536 * 65536; d = e div 65536 * 65536; a = x div 65536 * 65536
      in if a < u then ((x - s) div 4096, 4096)
         else if a < d then ((u - s) div 4096 + (a - u) div 65536, 65536)
         else ((u - s) div 4096 + (a - u) div 65536 + (x - a) div 4096, 4096))"

lemma multiple_less: "c dvd x \<Longrightarrow> c dvd y \<Longrightarrow> x < y \<Longrightarrow> x + c \<le> (y :: nat)"
  by (metis add.commute dvd_diff_nat dvd_imp_le le_diff_conv le_diff_conv2 less_imp_le_nat zero_less_diff)

lemma chunk_of_layout:
  assumes s: "4096 dvd s" and e: "4096 dvd e" and x: "s \<le> x" "x < e" "4096 dvd x"
  defines "L \<equiv> layout kb_sizes s e"
  shows "fst (chunk_of s e x) < length L \<and>
    (\<exists>a. L ! fst (chunk_of s e x) = (a, snd (chunk_of s e x)) \<and> a \<le> x \<and> x < a + snd (chunk_of s e x))"
proof -
  define u d a where "u = (s + 65535) div 65536 * 65536" and "d = e div 65536 * 65536" and "a = x div 65536 * 65536"
  have co: "chunk_of s e x =
      (if a < u then ((x - s) div 4096, 4096)
       else if a < d then ((u - s) div 4096 + (a - u) div 65536, 65536)
       else ((u - s) div 4096 + (a - u) div 65536 + (x - a) div 4096, 4096))"
    by (simp add: chunk_of_def Let_def u_def d_def a_def)
  have dv: "65536 dvd u" "65536 dvd d" "65536 dvd a" by (simp_all add: u_def d_def a_def)
  have su: "s \<le> u" and us: "u < s + 65536" and ax: "a \<le> x" and xa: "x < a + 65536" and de: "d \<le> e" and ed: "e < d + 65536"
    unfolding u_def d_def a_def by linarith+
  have d4: "4096 dvd u" "4096 dvd d" "4096 dvd a" using dv dvd_trans [of 4096 65536] by auto
  obtain ns where ns: "u - s = 4096 * ns" using d4(1) s by (metis dvd_diff_nat dvdE)
  have none: "e < s + 4096 * i + 65536" if "65536 dvd s + 4096 * i" "s + 4096 * i < u" for i
    using multiple_less [OF that(1) dv(1) that(2)] su us that by linarith
  show ?thesis
  proof (cases "a < u")
    case True
    have "x < u" using True dv xa multiple_less [of 65536 a u] by linarith
    define n where "n = (min u e - s) div 4096"
    have n: "s + 4096 * n = min u e"
      using d4(1) e s su x by (simp add: n_def min_def dvd_diff_nat)
    have "L = map (\<lambda>i. (s + 4096 * i, 4096)) [0..<n] @ layout kb_sizes (s + 4096 * n) e"
      unfolding L_def
    proof (rule layout_small [OF s])
      show "s + 4096 * n \<le> e" using n by simp
      fix i assume "i < n" "65536 dvd s + 4096 * i"
      then show "e < s + 4096 * i + 65536" using none n by simp
    qed
    moreover obtain k where k: "x - s = 4096 * k" using x s by (metis dvd_diff_nat dvdE)
    moreover have "k < n" using k n x \<open>x < u\<close> by linarith
    moreover have "s + 4096 * k = x" using k x by linarith
    ultimately show ?thesis using True by (simp add: co nth_append)
  next
    case False
    then have ua: "u \<le> a" by simp
    have ue: "u < e" using ua ax x by linarith
    have L1: "L = map (\<lambda>i. (s + 4096 * i, 4096)) [0..<ns] @ layout kb_sizes u e"
    proof -
      have "s + 4096 * ns = u" using ns su by linarith
      then show ?thesis
        unfolding L_def using layout_small [OF s, of ns e] none ue by (simp add: less_imp_le_nat)
    qed
    have ud: "u \<le> d"
      using dv ue ed multiple_less [of 65536 d u] by (cases "u \<le> d") auto
    obtain nb where nb: "d - u = 65536 * nb" using dv by (metis dvd_diff_nat dvdE)
    obtain na where na: "a - u = 65536 * na" using dv by (metis dvd_diff_nat dvdE)
    have "u + 65536 * nb = d" using nb ud by linarith
    then have L2: "layout kb_sizes u e = map (\<lambda>i. (u + 65536 * i, 65536)) [0..<nb] @ layout kb_sizes d e"
      using layout_big [OF dv(1), of nb e] de by simp
    show ?thesis
    proof (cases "a < d")
      case True
      then have "na < nb" using na nb ua by linarith
      moreover have "u + 65536 * na = a" using na ua by linarith
      ultimately show ?thesis
        using False True ax xa by (simp add: co ns na L1 L2 nth_append)
    next
      case nd: False
      then have ad: "a = d" using ax x ed dv de multiple_less [of 65536 d a] by linarith
      have "na = nb" using na nb ad by simp
      obtain k where k: "x - a = 4096 * k" using x d4(3) by (metis dvd_diff_nat dvdE)
      define n where "n = (e - d) div 4096"
      have n: "d + 4096 * n = e" using e d4(2) de by (simp add: n_def dvd_diff_nat)
      have "layout kb_sizes d e = map (\<lambda>i. (d + 4096 * i, 4096)) [0..<n] @ layout kb_sizes (d + 4096 * n) e"
        using d4(2) n ed by (intro layout_small) auto
      moreover have "k < n" "d + 4096 * k = x" using k n x ad ax by linarith+
      ultimately show ?thesis
        using False nd \<open>na = nb\<close> by (simp add: co ns na k L1 L2 nth_append)
    qed
  qed
qed

section \<open>The chunk index counts the layout\<close>

text \<open>
  The masks of chunk sizes of which 64 KiB and 4 KiB remain once the driver has removed the sizes it
  does not want: the ones of Pascal and later GPUs, with or without the sizes added for handles.
\<close>

definition kb_mask :: "u64 \<Rightarrow> bool" where
  "kb_mask m \<longleftrightarrow> m AND NOT UVM_CHUNK_SIZE_2M AND NOT UVM_CHUNK_SIZE_128K AND NOT UVM_CHUNK_SIZE_256K = 69632"

definition span_ok :: "u64 \<Rightarrow> u64 \<Rightarrow> bool" where
  "span_ok start sz \<longleftrightarrow> 4096 dvd unat start \<and> 4096 dvd unat sz \<and> 0 < sz \<and>
     unat start + unat sz \<le> 2 ^ 57 \<and> (unat start + unat sz - 1) div 2 ^ 21 = unat start div 2 ^ 21"

lemma span_okD:
  assumes "span_ok start sz"
  shows "4096 dvd unat start" "4096 dvd unat sz" "0 < unat sz" "unat start + unat sz \<le> 144115188075855872" "unat sz \<le> 2097152"
proof -
  show "4096 dvd unat start" "4096 dvd unat sz" "unat start + unat sz \<le> 144115188075855872"
    using assms by (simp_all add: span_ok_def)
  show p: "0 < unat sz" using assms by (simp add: span_ok_def word_less_nat_alt)
  have "(unat start + unat sz - 1) div 2097152 = unat start div 2097152" using assms by (simp add: span_ok_def)
  then show "unat sz \<le> 2097152" using p by linarith
qed

lemma kb_mask_facts:
  "(69632 :: u64) AND UVM_CHUNK_SIZE_2M = 0" "uvm_chunk_find_last_size 69632 = 65536"
  "chunk_sizes_rev (69632 AND NOT PAGE_SIZE) = [65536]"
  by code_simp+

lemma trunc_sub: "(ucast (ucast (ucast (a :: u64) :: u32) - b :: u64) :: u32) = ucast (a - b)"
proof -
  have "uint (ucast (ucast (ucast a :: u32) - b :: u64) :: u32) = uint (ucast (a - b) :: u32)"
    by (simp add: uint_word_ariths unsigned_ucast_eq take_bit_eq_mod uint_mod_distrib mod_mod_cancel mod_diff_left_eq)
  then show ?thesis by (simp only: word_uint_eq_iff)
qed

lemma num_chunks_unat:
  assumes "b \<le> a" "unat a - unat b < 2 ^ 32"
  shows "unat (ucast (uvm_div_pow2_32 (ucast (ucast (ucast (a :: u64) :: u32) - b :: u64)) (ucast (65536 :: u64))) :: u64) =
    (unat a - unat b) div 65536"
proof -
  have d: "unat (a - b) = unat a - unat b" using assms(1) by (rule unat_sub_le)
  have "unat (ucast (a - b) :: u32) = unat a - unat b"
    using assms(2) by (simp only: unsigned_ucast_eq d [symmetric]) (simp add: take_bit_nat_eq_self d)
  moreover have "last (set_bits (ucast (65536 :: u64) :: u32)) = 16" by code_simp
  ultimately have "unat (uvm_div_pow2_32 (ucast (a - b)) (ucast (65536 :: u64))) = (unat a - unat b) div 65536"
    by (simp add: uvm_div_pow2_32_def drop_bit_eq_div unat_div_distrib)
  moreover have "unat (ucast w :: u64) = unat w" for w :: u32
  proof -
    have "unat w < 2 ^ LENGTH(32)" by (rule unsigned_less)
    then have "unat w < 2 ^ 64" by simp
    then show ?thesis by (simp only: unsigned_ucast_eq) (simp add: take_bit_nat_eq_self)
  qed
  ultimately show ?thesis by (simp only: trunc_sub)
qed

lemma chunk_index_range_eq:
  assumes m: "kb_mask m" and ok: "span_ok start sz" and p: "4096 * p < unat sz"
  shows "map_prod unat unat (uvm_va_block_gpu_chunk_index_range m start sz p) =
    chunk_of (unat start) (unat start + unat sz) (unat start + 4096 * p)"
proof -
  note okD = span_okD [OF ok]
  define S Z where "S = unat start" and "Z = unat sz"
  have SZ: "4096 dvd S" "4096 dvd Z" "0 < Z" "S + Z \<le> 144115188075855872" "Z \<le> 2097152" "4096 * p < Z"
    using okD p by (simp_all add: S_def Z_def)
  have pb: "unat (of_nat p * PAGE_SIZE :: u64) = 4096 * p"
  proof -
    have "unat (of_nat p :: u64) = p" using SZ by simp
    then have "unat (of_nat p * PAGE_SIZE :: u64) = p * 4096" using SZ by (subst unat_mult_no_wrap) simp_all
    then show ?thesis by simp
  qed
  have e64: "(65536 :: u64) = 2 ^ 16" by simp
  have al: "IS_ALIGNED x 65536 \<longleftrightarrow> 65536 dvd unat x" for x
    using is_aligned_unat [of 16 x] by simp
  show ?thesis
  proof (cases "65536 dvd S \<and> 65536 dvd Z")
    case True
    then have "IS_ALIGNED start 65536" "IS_ALIGNED sz 65536" by (simp_all add: al S_def Z_def)
    then have "uvm_va_block_gpu_chunk_index_range m start sz p = (uvm_div_pow2_64 (of_nat p * PAGE_SIZE) 65536, 65536)"
      using m by (simp add: uvm_va_block_gpu_chunk_index_range_def kb_mask_def Let_def kb_mask_facts)
    moreover have "unat (uvm_div_pow2_64 (of_nat p * PAGE_SIZE) 65536) = 4096 * p div 65536"
      using div_pow2_64_unat [of 16 "of_nat p * PAGE_SIZE"] pb by simp
    moreover have "chunk_of S (S + Z) (S + 4096 * p) = (4096 * p div 65536, 65536)"
    proof -
      obtain q r where qr: "S = 65536 * q" "Z = 65536 * r" using True by (auto elim!: dvdE)
      then show ?thesis using SZ by (auto simp: chunk_of_def Let_def)
    qed
    ultimately show ?thesis by (simp add: S_def Z_def)
  next
    case False
    then have nf: "\<not> (IS_ALIGNED start 65536 \<and> IS_ALIGNED sz 65536)" by (simp add: al S_def Z_def)
    define u d a where "u = UVM_ALIGN_UP start 65536" and "d = UVM_ALIGN_DOWN (start + sz) 65536"
      and "a = UVM_ALIGN_DOWN (start + of_nat p * PAGE_SIZE) 65536"
    have x: "unat (start + of_nat p * PAGE_SIZE) = S + 4096 * p"
      using SZ by (subst unat_add_no_wrap) (simp_all add: pb S_def)
    have e: "unat (start + sz) = S + Z" using SZ by (subst unat_add_no_wrap) (simp_all add: S_def Z_def)
    have uu: "unat u = (S + 65535) div 65536 * 65536"
      using align_up_unat_pow [of 16 start] SZ by (simp add: u_def S_def)
    have du: "unat d = (S + Z) div 65536 * 65536" using align_down_unat [of 16 "start + sz"] by (simp add: d_def e)
    have au: "unat a = (S + 4096 * p) div 65536 * 65536"
      using align_down_unat [of 16 "start + of_nat p * PAGE_SIZE"] by (simp add: a_def x)
    have res: "uvm_va_block_gpu_chunk_index_range m start sz p =
        (let (addr, f, n) = chunk_index_loop start [65536] (start + of_nat p * PAGE_SIZE) (start + sz) 0 0
         in (n + (addr - start) div PAGE_SIZE, if f = 0 then PAGE_SIZE else f))"
      using m nf by (auto simp: uvm_va_block_gpu_chunk_index_range_def kb_mask_def Let_def kb_mask_facts)
    have small: "unat ((w - start) div PAGE_SIZE) = (unat w - S) div 4096" if "S \<le> unat w" for w
      using that by (simp add: unat_div_distrib unat_sub_le word_le_nat_alt S_def)
    show ?thesis
    proof (cases "a < u")
      case True
      then have "uvm_va_block_gpu_chunk_index_range m start sz p =
          ((start + of_nat p * PAGE_SIZE - start) div PAGE_SIZE, PAGE_SIZE)"
        by (simp add: res Let_def u_def a_def)
      moreover have "unat a < unat u" using True by (simp add: word_less_nat_alt)
      ultimately show ?thesis
        using small [of "start + of_nat p * PAGE_SIZE"] x uu au
        by (simp add: chunk_of_def Let_def S_def [symmetric] Z_def [symmetric])
    next
      case ua: False
      then have le: "u \<le> a" by simp
      define n where "n = (ucast (uvm_div_pow2_32 (ucast (ucast (ucast a :: u32) - u :: u64)) (ucast (65536 :: u64))) :: u64)"
      have "S \<le> unat u" "unat a \<le> S + 4096 * p" unfolding uu au by linarith+
      then have lt: "unat a - unat u < 2 ^ 32" using SZ by simp
      have n: "unat n = (unat a - unat u) div 65536" unfolding n_def by (rule num_chunks_unat [OF le lt])
      have le': "unat u \<le> unat a" using le by (simp add: word_le_nat_alt)
      have tn: "unat (n * 65536) = unat a - unat u"
      proof -
        have "unat n * 65536 < 2 ^ 64" using lt n by simp
        then have "unat (n * 65536) = unat n * 65536" by (subst unat_mult_no_wrap) simp_all
        then show ?thesis using n uu au le' by simp
      qed
      have loop: "chunk_index_loop start [65536] (start + of_nat p * PAGE_SIZE) (start + sz) 0 0 =
          (if a < d then (a - n * 65536, 65536, n) else (start + of_nat p * PAGE_SIZE - n * 65536, 0, n))"
        using ua by (simp add: Let_def u_def [symmetric] a_def [symmetric] d_def [symmetric] n_def)
      have us: "S \<le> unat u" unfolding uu by linarith
      show ?thesis
      proof (cases "a < d")
        case True
        have an: "unat (a - n * 65536) = unat u"
          using tn le' by (subst unat_sub_le) (simp_all add: word_le_nat_alt)
        have "uvm_va_block_gpu_chunk_index_range m start sz p = (n + (a - n * 65536 - start) div PAGE_SIZE, 65536)"
          using True by (simp add: res loop del: chunk_index_loop.simps)
        moreover have "unat (n + (a - n * 65536 - start) div PAGE_SIZE) = (unat u - S) div 4096 + (unat a - unat u) div 65536"
          using small [of "a - n * 65536"] an us n lt uu SZ
          by (subst unat_add_no_wrap) (simp_all, linarith)
        moreover have "\<not> unat a < unat u" "unat a < unat d" using le' True by (simp_all add: word_less_nat_alt)
        ultimately show ?thesis
          by (simp add: chunk_of_def Let_def uu [symmetric] du [symmetric] au [symmetric] S_def [symmetric] Z_def [symmetric])
      next
        case nd: False
        have ax: "unat a \<le> S + 4096 * p" unfolding au by linarith
        have xn: "unat (start + of_nat p * PAGE_SIZE - n * 65536) = S + 4096 * p - (unat a - unat u)"
          using tn ax x by (subst unat_sub_le) (simp_all add: word_le_nat_alt)
        have dv: "4096 dvd unat a" "4096 dvd unat u" "4096 dvd S + 4096 * p"
          using SZ by (simp_all add: au uu)
        have "uvm_va_block_gpu_chunk_index_range m start sz p =
            (n + (start + of_nat p * PAGE_SIZE - n * 65536 - start) div PAGE_SIZE, PAGE_SIZE)"
          using nd by (simp add: res loop del: chunk_index_loop.simps)
        moreover have "unat (n + (start + of_nat p * PAGE_SIZE - n * 65536 - start) div PAGE_SIZE) =
            (unat u - S) div 4096 + (unat a - unat u) div 65536 + (S + 4096 * p - unat a) div 4096"
        proof -
          have "(S + 4096 * p - (unat a - unat u) - S) div 4096 = (unat u - S) div 4096 + (S + 4096 * p - unat a) div 4096"
          proof -
            have "S + 4096 * p - (unat a - unat u) - S = (unat u - S) + (S + 4096 * p - unat a)"
              using us ax le' by linarith
            moreover have "4096 dvd unat u - S" using dv SZ(1) by (simp add: dvd_diff_nat)
            ultimately show ?thesis by (simp only: div_plus_div_distrib_dvd_left)
          qed
          moreover have "S \<le> S + 4096 * p - (unat a - unat u)" using us ax le' by linarith
          ultimately have w: "unat ((start + of_nat p * PAGE_SIZE - n * 65536 - start) div PAGE_SIZE) =
              (unat u - S) div 4096 + (S + 4096 * p - unat a) div 4096"
            using small [of "start + of_nat p * PAGE_SIZE - n * 65536"] xn by simp
          have "(unat u - S) div 4096 \<le> S + 4096 * p" using ax le' by linarith
          moreover have "(S + 4096 * p - unat a) div 4096 \<le> S + 4096 * p" by linarith
          moreover have "unat n \<le> unat a - unat u" using n by simp
          ultimately have "unat n + ((unat u - S) div 4096 + (S + 4096 * p - unat a) div 4096) < 2 ^ 64"
            using lt SZ by simp
          then show ?thesis using w n by (simp only: unat_add_no_wrap)
        qed
        moreover have "\<not> unat a < unat u" "\<not> unat a < unat d" using le' nd by (simp_all add: word_less_nat_alt)
        ultimately show ?thesis
          by (simp add: chunk_of_def Let_def uu [symmetric] du [symmetric] au [symmetric] S_def [symmetric] Z_def [symmetric])
      qed
    qed
  qed
qed

text \<open>
  C10. The chunk index counts the chunk layout. For every page of a page-aligned block, the
  routine with its three paths and its loop over chunk sizes returns the position, in the
  greedy layout of the block into 64 KiB and 4 KiB chunks, of the chunk that contains the page,
  together with the size of that chunk.
\<close>

theorem chunk_index_counts_layout:
  assumes "kb_mask m" "span_ok start sz" "4096 * p < unat sz"
  defines "L \<equiv> layout kb_sizes (unat start) (unat start + unat sz)"
  shows "case uvm_va_block_gpu_chunk_index_range m start sz p of (i, c) \<Rightarrow>
    unat i < length L \<and> (\<exists>a. L ! unat i = (a, unat c) \<and>
      a \<le> unat start + 4096 * p \<and> unat start + 4096 * p < a + unat c)"
proof -
  note ok = span_okD [OF assms(2)]
  obtain i c where ic: "uvm_va_block_gpu_chunk_index_range m start sz p = (i, c)" by fastforce
  then have "chunk_of (unat start) (unat start + unat sz) (unat start + 4096 * p) = (unat i, unat c)"
    using chunk_index_range_eq [OF assms(1-3)] by simp
  moreover have "4096 dvd unat start + unat sz" "4096 dvd unat start + 4096 * p" using ok(1,2) by simp_all
  ultimately show ?thesis
    using chunk_of_layout [of "unat start" "unat start + unat sz" "unat start + 4096 * p"] ok(1) assms(3) ic
    by (simp add: L_def)
qed

theorem chunk_index_counts_layout_witness:
  "uvm_va_block_gpu_chunk_index_range 0x271000 0x2E000 0x23000 3 = (2, 65536) \<and>
   (\<exists>a. layout kb_sizes 0x2E000 (0x2E000 + 0x23000) ! 2 = (a, 65536) \<and> a \<le> 0x31000 \<and> 0x31000 < a + 65536)"
proof -
  have k: "kb_mask 0x271000" by code_simp
  have o: "span_ok 0x2E000 0x23000" by (simp add: span_ok_def)
  have e: "uvm_va_block_gpu_chunk_index_range 0x271000 0x2E000 0x23000 3 = (2, 65536)" by code_simp
  show ?thesis
    using chunk_index_counts_layout [OF k o, of 3] e by simp
qed

section \<open>Blocks of whole big pages\<close>

definition whole_big :: "'a block_span_scheme \<Rightarrow> bool" where
  "whole_big b \<longleftrightarrow> 65536 dvd unat (vb_start b) \<and> 65536 dvd unat (uvm_va_block_size b) \<and>
     span_ok (vb_start b) (uvm_va_block_size b) \<and> unat (vb_end b) = unat (vb_start b) + unat (uvm_va_block_size b) - 1"

lemma whole_bigD:
  assumes "whole_big b"
  obtains S n where "unat (vb_start b) = 65536 * S" "unat (uvm_va_block_size b) = 65536 * n" "0 < n" "n \<le> 32"
    "65536 * S + 65536 * n \<le> 144115188075855872" "unat (vb_end b) = 65536 * S + 65536 * n - 1"
    "unat (vb_end b + 1) = 65536 * S + 65536 * n"
proof -
  have ok: "span_ok (vb_start b) (uvm_va_block_size b)" using assms by (simp add: whole_big_def)
  obtain S n where Sn: "unat (vb_start b) = 65536 * S" "unat (uvm_va_block_size b) = 65536 * n"
    using assms by (auto simp: whole_big_def elim!: dvdE)
  note d = span_okD [OF ok]
  have e: "unat (vb_end b) = 65536 * S + 65536 * n - 1" using assms Sn by (simp add: whole_big_def)
  have n: "0 < n" "n \<le> 32" "65536 * S + 65536 * n \<le> 144115188075855872" using d Sn by simp_all
  have "unat (vb_end b + 1) = unat (vb_end b) + 1"
    using e n by (subst unat_add_no_wrap) simp_all
  then show ?thesis using that Sn n e by simp
qed

lemma page16_small: "unat x < 65536 \<Longrightarrow> page16 x = unat x"
  by (simp add: page16_def)

lemma whole_big_region_all:
  assumes "whole_big b"
  shows "uvm_va_block_big_page_region_all b UVM_PAGE_SIZE_64K =
    \<lparr>first = 0, outer = unat (uvm_va_block_size b) div 4096\<rparr>"
proof -
  obtain S n where b: "unat (vb_start b) = 65536 * S" "unat (uvm_va_block_size b) = 65536 * n" "0 < n" "n \<le> 32"
    "65536 * S + 65536 * n \<le> 144115188075855872" "unat (vb_end b) = 65536 * S + 65536 * n - 1"
    "unat (vb_end b + 1) = 65536 * S + 65536 * n"
    by (rule whole_bigD [OF assms])
  let ?u = "UVM_ALIGN_UP (vb_start b) UVM_PAGE_SIZE_64K" and ?d = "UVM_ALIGN_DOWN (vb_end b + 1) UVM_PAGE_SIZE_64K"
  have u: "unat ?u = 65536 * S"
    using align_up_unat_pow [of 16 "vb_start b"] b by (simp add: size_simps)
  have d: "unat ?d = 65536 * S + 65536 * n"
    using align_down_unat [of 16 "vb_end b + 1"] b by (simp add: size_simps)
  have ue: "?u = vb_start b" using u b by (simp add: word_unat_eq_iff)
  have "\<not> ?d \<le> ?u" using u d b by (simp add: word_le_nat_alt)
  moreover have "unat ((?d - vb_start b) div PAGE_SIZE) = 16 * n"
    using d b by (simp add: unat_div_distrib unat_sub_le word_le_nat_alt)
  ultimately show ?thesis
    using b by (simp add: uvm_va_block_big_page_region_all_def range_big_page_region_all_def Let_def ue page16_small)
qed

lemma whole_big_page_index:
  assumes "whole_big b" "4096 * p < unat (uvm_va_block_size b)"
  shows "uvm_va_block_big_page_index b p UVM_PAGE_SIZE_64K = p div 16"
proof -
  obtain S n where b: "unat (uvm_va_block_size b) = 65536 * n" "n \<le> 32" by (rule whole_bigD [OF assms(1)]) blast
  have p: "p < 16 * n" using assms(2) b(1) by simp
  have "unat (of_nat p * PAGE_SIZE :: u64) = p * 4096"
    using p b(2) by (subst unat_mult_no_wrap) simp_all
  moreover have "unat (uvm_div_pow2_64 (of_nat p * PAGE_SIZE) UVM_PAGE_SIZE_64K) = unat (of_nat p * PAGE_SIZE :: u64) div 65536"
    using div_pow2_64_unat [of 16 "of_nat p * PAGE_SIZE"] by (simp add: size_simps)
  ultimately show ?thesis
    using p b by (simp add: uvm_va_block_big_page_index_def Let_def whole_big_region_all [OF assms(1)])
qed

lemma whole_big_addr:
  assumes "whole_big b" "65536 * i < unat (uvm_va_block_size b)"
  shows "unat (uvm_va_block_big_page_addr b i UVM_PAGE_SIZE_64K) = unat (vb_start b) + 65536 * i"
proof -
  obtain S n where b: "unat (vb_start b) = 65536 * S" "unat (uvm_va_block_size b) = 65536 * n" "n \<le> 32"
    "65536 * S + 65536 * n \<le> 144115188075855872"
    by (rule whole_bigD [OF assms(1)]) blast
  have u: "unat (UVM_ALIGN_UP (vb_start b) UVM_PAGE_SIZE_64K) = 65536 * S"
    using align_up_unat_pow [of 16 "vb_start b"] b by (simp add: size_simps)
  have "unat (of_nat i * UVM_PAGE_SIZE_64K) = i * 65536"
    using assms(2) b by (subst unat_mult_no_wrap) simp_all
  then show ?thesis
    using u b assms(2) by (simp add: uvm_va_block_big_page_addr_def) (subst unat_add_no_wrap, simp_all)
qed

lemma whole_big_page_region:
  assumes "whole_big b" "65536 * i < unat (uvm_va_block_size b)"
  shows "uvm_va_block_big_page_region b i UVM_PAGE_SIZE_64K = \<lparr>first = 16 * i, outer = 16 * i + 16\<rparr>"
proof -
  obtain S n where b: "unat (vb_start b) = 65536 * S" "unat (uvm_va_block_size b) = 65536 * n" "n \<le> 32"
    "65536 * S + 65536 * n \<le> 144115188075855872"
    by (rule whole_bigD [OF assms(1)]) blast
  let ?a = "uvm_va_block_big_page_addr b i UVM_PAGE_SIZE_64K"
  have i: "i < n" using assms(2) b by simp
  have a: "unat ?a = 65536 * S + 65536 * i" using whole_big_addr [OF assms] b by simp
  have "unat (?a + (UVM_PAGE_SIZE_64K - 1)) = unat ?a + 65535"
    using a b i by (subst unat_add_no_wrap) (simp_all add: unat_sub_le size_simps)
  then have e: "unat (?a + UVM_PAGE_SIZE_64K - 1) = 65536 * S + 65536 * i + 65535" using a by (simp add: add_diff_eq)
  have "unat ((?a - vb_start b) div PAGE_SIZE) = 16 * i"
    using a b by (simp add: unat_div_distrib unat_sub_le word_le_nat_alt)
  moreover have "unat ((?a + UVM_PAGE_SIZE_64K - 1 - vb_start b) div PAGE_SIZE) = 16 * i + 15"
    using e b by (simp add: unat_div_distrib unat_sub_le word_le_nat_alt)
  ultimately show ?thesis
    using i b by (simp add: uvm_va_block_big_page_region_def uvm_va_block_region_from_start_size_def
        uvm_va_block_region_from_start_end_def uvm_va_block_cpu_page_index_def page16_small)
qed

lemma whole_big_chunk_index:
  assumes "kb_mask m" "whole_big b" "4096 * p < unat (uvm_va_block_size b)"
  shows "uvm_va_block_gpu_chunk_index_range m (vb_start b) (uvm_va_block_size b) p = (of_nat (p div 16), UVM_PAGE_SIZE_64K)"
proof -
  obtain S n where b: "unat (vb_start b) = 65536 * S" "unat (uvm_va_block_size b) = 65536 * n" "n \<le> 32"
    by (rule whole_bigD [OF assms(2)]) blast
  have ok: "span_ok (vb_start b) (uvm_va_block_size b)" using assms(2) by (simp add: whole_big_def)
  have p: "p < 16 * n" using assms(3) b by simp
  have "chunk_of (65536 * S) (65536 * S + 65536 * n) (65536 * S + 4096 * p) = (p div 16, 65536)"
    using p by (auto simp: chunk_of_def Let_def)
  then have "map_prod unat unat (uvm_va_block_gpu_chunk_index_range m (vb_start b) (uvm_va_block_size b) p) = (p div 16, 65536)"
    using chunk_index_range_eq [OF assms(1) ok assms(3)] b by simp
  moreover have "unat (of_nat (p div 16) :: u64) = p div 16" using p b by simp
  ultimately show ?thesis
    by (cases "uvm_va_block_gpu_chunk_index_range m (vb_start b) (uvm_va_block_size b) p")
      (simp add: word_unat_eq_iff)
qed

lemma whole_big_chunk_region:
  assumes "whole_big b" "4096 * p < unat (uvm_va_block_size b)"
  shows "uvm_va_block_chunk_region b UVM_PAGE_SIZE_64K p = \<lparr>first = p div 16 * 16, outer = p div 16 * 16 + 16\<rparr>"
proof -
  obtain S n where b: "unat (vb_start b) = 65536 * S" "unat (uvm_va_block_size b) = 65536 * n" "n \<le> 32"
    "65536 * S + 65536 * n \<le> 144115188075855872"
    by (rule whole_bigD [OF assms(1)]) blast
  have p: "p < 16 * n" using assms(2) b by simp
  have "unat (PAGE_SIZE * of_nat p) = 4096 * p" using p b by (subst unat_mult_no_wrap) simp_all
  then have pa: "unat (uvm_va_block_cpu_page_address b p) = 65536 * S + 4096 * p"
    using p b by (simp add: uvm_va_block_cpu_page_address_def) (subst unat_add_no_wrap, simp_all)
  then have c: "unat (UVM_ALIGN_DOWN (uvm_va_block_cpu_page_address b p) UVM_PAGE_SIZE_64K) = 65536 * S + 65536 * (p div 16)"
    using align_down_unat [of 16 "uvm_va_block_cpu_page_address b p"] by (simp add: size_simps)
  have "unat ((UVM_ALIGN_DOWN (uvm_va_block_cpu_page_address b p) UVM_PAGE_SIZE_64K - vb_start b) div PAGE_SIZE) = 16 * (p div 16)"
    using c b by (simp add: unat_div_distrib unat_sub_le word_le_nat_alt)
  moreover have "unat (UVM_PAGE_SIZE_64K div PAGE_SIZE) = 16" by (simp add: unat_div_distrib)
  ultimately show ?thesis
    using p b by (simp add: uvm_va_block_chunk_region_def Let_def page16_small)
qed

section \<open>Blocks of a range\<close>

text \<open>
  The block at \<open>uvm_va_range_block_index\<close> contains the address, and its bounds on numbers.
\<close>

lemma block_index_unat:
  assumes "node_start \<le> addr"
  shows "uvm_va_range_block_index node_start addr = unat addr div 2097152 - unat node_start div 2097152"
proof -
  have "unat node_start div 2097152 \<le> unat addr div 2097152"
    using assms by (simp add: word_le_nat_alt div_le_mono)
  then show ?thesis
    by (simp add: uvm_va_range_block_index_def unat_sub_le word_le_nat_alt unat_div_distrib)
qed

lemma block_start_unat:
  assumes "node_start \<le> addr" "unat addr < 144115188075855872"
  shows "unat (block_calc_start node_start (uvm_va_range_block_index node_start addr)) =
    max (unat node_start) (unat addr div 2097152 * 2097152)"
proof -
  let ?i = "uvm_va_range_block_index node_start addr"
  have le: "unat node_start div 2097152 \<le> unat addr div 2097152"
    using assms by (simp add: word_le_nat_alt div_le_mono)
  have i: "?i = unat addr div 2097152 - unat node_start div 2097152" by (rule block_index_unat [OF assms(1)])
  have m: "unat (of_nat ?i * UVM_VA_BLOCK_SIZE) = ?i * 2097152"
    using assms(2) i by (subst unat_mult_no_wrap) simp_all
  have d: "unat (UVM_VA_BLOCK_ALIGN_DOWN node_start) = unat node_start div 2097152 * 2097152"
    using align_down_unat [of 21 node_start] by (simp add: UVM_VA_BLOCK_ALIGN_DOWN_def size_simps)
  have "unat node_start div 2097152 * 2097152 + ?i * 2097152 = unat addr div 2097152 * 2097152"
    using le i by (simp add: diff_mult_distrib)
  then have "unat (UVM_VA_BLOCK_ALIGN_DOWN node_start + of_nat ?i * UVM_VA_BLOCK_SIZE) = unat addr div 2097152 * 2097152"
    using assms(2) by (subst unat_add_no_wrap) (simp_all add: m d)
  then show ?thesis by (simp add: block_calc_start_def max_def word_le_nat_alt)
qed

lemma block_end_unat:
  assumes "node_start \<le> addr" "addr \<le> node_end" "unat node_end < 144115188075855872"
  shows "unat (block_calc_end node_start node_end (uvm_va_range_block_index node_start addr)) =
    min (unat node_end) (unat addr div 2097152 * 2097152 + 2097151)"
proof -
  let ?s = "block_calc_start node_start (uvm_va_range_block_index node_start addr)"
  have ab: "unat addr < 144115188075855872" "unat node_start \<le> unat addr" "unat addr \<le> unat node_end"
    using assms by (simp_all add: word_le_nat_alt)
  have s: "unat ?s = max (unat node_start) (unat addr div 2097152 * 2097152)" by (rule block_start_unat [OF assms(1) ab(1)])
  have sa: "unat addr div 2097152 * 2097152 \<le> unat ?s" "unat ?s \<le> unat addr" using s ab by auto
  have s1: "unat (?s + 1) = unat ?s + 1" using sa ab by (subst unat_add_no_wrap) simp_all
  have "unat (UVM_VA_BLOCK_ALIGN_UP (?s + 1)) = (unat ?s + 1 + 2097151) div 2097152 * 2097152"
    using align_up_unat_pow [of 21 "?s + 1"] sa ab by (simp add: UVM_VA_BLOCK_ALIGN_UP_def size_simps s1)
  also have "(unat ?s + 1 + 2097151) div 2097152 = unat addr div 2097152 + 1" using sa by linarith
  finally have u: "unat (UVM_VA_BLOCK_ALIGN_UP (?s + 1)) = unat addr div 2097152 * 2097152 + 2097152" by simp
  then have "unat (UVM_VA_BLOCK_ALIGN_UP (?s + 1)) \<noteq> 0" by simp
  then have "UVM_VA_BLOCK_ALIGN_UP (?s + 1) \<noteq> 0" by (simp only: unat_eq_0 not_False_eq_True)
  then have "unat (UVM_VA_BLOCK_ALIGN_UP (?s + 1) - 1) = unat addr div 2097152 * 2097152 + 2097151"
    by (simp add: unat_minus_one u)
  then show ?thesis by (simp add: block_calc_end_def min_def word_le_nat_alt)
qed

lemma block_contains:
  assumes "node_start \<le> addr" "addr \<le> node_end" "unat node_end < 144115188075855872"
  defines "i \<equiv> uvm_va_range_block_index node_start addr"
  shows "block_calc_start node_start i \<le> addr" "addr \<le> block_calc_end node_start node_end i"
proof -
  have ab: "unat addr < 144115188075855872" "unat node_start \<le> unat addr" "unat addr \<le> unat node_end"
    using assms by (simp_all add: word_le_nat_alt)
  show "block_calc_start node_start i \<le> addr"
    using block_start_unat [OF assms(1) ab(1)] ab by (simp add: word_le_nat_alt i_def)
  show "addr \<le> block_calc_end node_start node_end i"
    unfolding word_le_nat_alt i_def block_end_unat [OF assms(1-3)] using ab by linarith
qed

end
