(* ===== verification/Uvm_Pte_Batch.thy ===== *)
theory Uvm_Pte_Batch
  imports Uvm_Push
begin

text \<open>
  The batch of page-table writes of the driver (\<^verbatim>\<open>uvm_pte_batch.c\<close>). Up to four consecutive
  entries are queued and pushed as separate memsets; a fifth one turns the queue into inline
  data that one memcopy writes. Counts and sizes are \<^verbatim>\<open>NvU32\<close>: natural numbers, with the
  wrap-around of every product and sum written out by \<open>nv32\<close>.

  The lemmas show that batching is invisible: what the commands of the push do to GPU memory
  is what writing the entries one by one in the order of the calls does.
\<close>

definition nv32 :: "nat \<Rightarrow> nat" where "nv32 n = n mod 2 ^ 32"

definition UVM_PTE_BATCH_MAX_PTES :: nat where "UVM_PTE_BATCH_MAX_PTES = 4"

record pte_batch =
  pb_push :: push
  inline_data :: "u64 list"
  inlining :: bool
  pte_first_address :: uvm_gpu_phys_address
  pte_entry_size :: nat
  pte_bits_queue :: "u64 list"
  pte_count :: nat
  pb_membar :: uvm_membar

definition uvm_gpu_phys_address_eq :: "uvm_gpu_phys_address \<Rightarrow> uvm_gpu_phys_address \<Rightarrow> bool" where
  "uvm_gpu_phys_address_eq pa1 pa2 \<longleftrightarrow> address pa1 = address pa2 \<and> aperture pa1 = aperture pa2"

definition uvm_pte_batch_begin :: "push \<Rightarrow> pte_batch" where
  "uvm_pte_batch_begin p =
     \<lparr>pb_push = p, inline_data = [], inlining = False,
      pte_first_address = \<lparr>address = 0, aperture = UVM_APERTURE_PEER_0\<rparr>, pte_entry_size = 0,
      pte_bits_queue = replicate UVM_PTE_BATCH_MAX_PTES 0, pte_count = 0, pb_membar = UVM_MEMBAR_GPU\<rparr>"

definition uvm_pte_batch_flush_ptes_inline :: "pte_batch \<Rightarrow> pte_batch" where
  "uvm_pte_batch_flush_ptes_inline b =
     (let ptes_size = nv32 (pte_count b * pte_entry_size b) in
      b\<lparr>inlining := False,
        pb_push := uvm_push_inline_data_end (inline_data b) (pb_push b) @
          [Set_Flag UVM_PUSH_FLAG_NEXT_MEMBAR_NONE, Set_Flag UVM_PUSH_FLAG_CE_NEXT_PIPELINED,
           Memcopy (pte_first_address b) (take (ptes_size div 8) (inline_data b))]\<rparr>)"

fun memset_each :: "uvm_gpu_phys_address \<Rightarrow> nat \<Rightarrow> u64 list \<Rightarrow> push" where
  "memset_each addr entry_size [] = []"
| "memset_each addr entry_size (bits # rest) =
     [Set_Flag UVM_PUSH_FLAG_NEXT_MEMBAR_NONE, Set_Flag UVM_PUSH_FLAG_CE_NEXT_PIPELINED, Memset_8 addr bits 8] @
     memset_each (advance addr (of_nat entry_size)) entry_size rest"

definition uvm_pte_batch_flush_ptes_memset :: "pte_batch \<Rightarrow> pte_batch" where
  "uvm_pte_batch_flush_ptes_memset b =
     b\<lparr>pb_push := pb_push b @
        memset_each (pte_first_address b) (pte_entry_size b) (take (pte_count b) (pte_bits_queue b))\<rparr>"

definition uvm_pte_batch_flush_ptes :: "pte_batch \<Rightarrow> pte_batch" where
  "uvm_pte_batch_flush_ptes b =
     (if pte_count b = 0 then b
      else (if inlining b then uvm_pte_batch_flush_ptes_inline b else uvm_pte_batch_flush_ptes_memset b)
             \<lparr>pte_count := 0\<rparr>)"

definition uvm_pte_batch_write_consecutive_inline :: "u64 \<Rightarrow> pte_batch \<Rightarrow> pte_batch" where
  "uvm_pte_batch_write_consecutive_inline pte_bits b =
     b\<lparr>inline_data := inline_data b @ pte_bits # replicate ((pte_entry_size b - 8) div 8) 0\<rparr>"

definition uvm_pte_batch_write_consecutive :: "u64 \<Rightarrow> pte_batch \<Rightarrow> pte_batch" where
  "uvm_pte_batch_write_consecutive pte_bits b =
     (let b = (if inlining b then uvm_pte_batch_write_consecutive_inline pte_bits b
               else b\<lparr>pte_bits_queue := (pte_bits_queue b)[pte_count b := pte_bits]\<rparr>)
      in b\<lparr>pte_count := nv32 (pte_count b + 1)\<rparr>)"

definition pte_batch_begin_inline :: "pte_batch \<Rightarrow> pte_batch" where
  "pte_batch_begin_inline b =
     fold uvm_pte_batch_write_consecutive_inline (take (pte_count b) (pte_bits_queue b))
       (b\<lparr>inlining := True, inline_data := []\<rparr>)"

definition note_sysmem :: "uvm_gpu_phys_address \<Rightarrow> pte_batch \<Rightarrow> pte_batch" where
  "note_sysmem a b = (if aperture a = UVM_APERTURE_SYS then b\<lparr>pb_membar := UVM_MEMBAR_SYS\<rparr> else b)"

text \<open>
  One round of the loop of \<^verbatim>\<open>uvm_pte_batch_write_ptes\<close>, and the loop. The number of entries
  left is enough fuel whenever an entry fits into a fragment; with a larger entry size the
  code would not return, which is the value \<open>None\<close>.
\<close>

definition write_ptes_round :: "uvm_gpu_phys_address \<Rightarrow> u64 list \<Rightarrow> nat \<Rightarrow> nat \<Rightarrow> pte_batch \<Rightarrow> pte_batch" where
  "write_ptes_round first_pte pte_bits entry_size entries_this_time b =
     (let b = pte_batch_begin_inline (uvm_pte_batch_flush_ptes b) in
      b\<lparr>inline_data := inline_data b @ take (nv32 (entries_this_time * entry_size) div 8) pte_bits,
        pte_entry_size := entry_size, pte_first_address := first_pte, pte_count := entries_this_time\<rparr>)"

fun write_ptes_loop ::
  "nat \<Rightarrow> uvm_gpu_phys_address \<Rightarrow> u64 list \<Rightarrow> nat \<Rightarrow> nat \<Rightarrow> pte_batch \<Rightarrow> pte_batch option" where
  "write_ptes_loop fuel first_pte pte_bits entry_size entry_count b =
     (if entry_count = 0 then Some b
      else case fuel of 0 \<Rightarrow> None
      | Suc fuel \<Rightarrow>
        (let max_entries = UVM_PUSH_INLINE_DATA_MAX_SIZE div entry_size;
             entries_this_time = min max_entries entry_count
         in write_ptes_loop fuel
              (advance first_pte (of_nat (nv32 (entries_this_time * entry_size))))
              (drop (entries_this_time * (entry_size div 8)) pte_bits)
              entry_size (entry_count - entries_this_time)
              (write_ptes_round first_pte pte_bits entry_size entries_this_time b)))"

declare write_ptes_loop.simps [simp del]

definition uvm_pte_batch_write_ptes ::
  "uvm_gpu_phys_address \<Rightarrow> u64 list \<Rightarrow> nat \<Rightarrow> nat \<Rightarrow> pte_batch \<Rightarrow> pte_batch option" where
  "uvm_pte_batch_write_ptes first_pte pte_bits entry_size entry_count b =
     write_ptes_loop entry_count first_pte pte_bits entry_size entry_count (note_sysmem first_pte b)"

definition uvm_pte_batch_write_pte :: "uvm_gpu_phys_address \<Rightarrow> u64 \<Rightarrow> nat \<Rightarrow> pte_batch \<Rightarrow> pte_batch" where
  "uvm_pte_batch_write_pte pte pte_bits pte_size b =
     (let consecutive_pte_address =
            advance (pte_first_address b) (of_nat (nv32 (pte_count b * pte_size)));
          b = note_sysmem pte b;
          needs_flush =
            (nv32 (nv32 (pte_count b + 1) * pte_entry_size b) > UVM_PUSH_INLINE_DATA_MAX_SIZE \<or>
             \<not> uvm_gpu_phys_address_eq pte consecutive_pte_address \<or>
             pte_entry_size b \<noteq> pte_size);
          b = (if needs_flush
               then (uvm_pte_batch_flush_ptes b)\<lparr>pte_first_address := pte, pte_entry_size := pte_size\<rparr>
               else b);
          b = (if \<not> inlining b \<and> pte_count b = UVM_PTE_BATCH_MAX_PTES then pte_batch_begin_inline b else b)
      in uvm_pte_batch_write_consecutive pte_bits b)"

definition uvm_pte_batch_clear_ptes :: "uvm_gpu_phys_address \<Rightarrow> u64 \<Rightarrow> nat \<Rightarrow> nat \<Rightarrow> pte_batch \<Rightarrow> pte_batch" where
  "uvm_pte_batch_clear_ptes first_pte empty_pte_bits entry_size entry_count b =
     (let b = uvm_pte_batch_flush_ptes b
      in note_sysmem first_pte
           (b\<lparr>pb_push := pb_push b @
               [Set_Flag UVM_PUSH_FLAG_CE_NEXT_PIPELINED, Set_Flag UVM_PUSH_FLAG_NEXT_MEMBAR_NONE,
                Memset_8 first_pte empty_pte_bits (nv32 (entry_size * entry_count))]\<rparr>))"

definition uvm_pte_batch_end :: "pte_batch \<Rightarrow> pte_batch" where
  "uvm_pte_batch_end b =
     (let b = uvm_pte_batch_flush_ptes b in b\<lparr>pb_push := uvm_hal_wfi_membar (pb_membar b) (pb_push b)\<rparr>)"

definition uvm_pte_batch_single_write_ptes ::
  "push \<Rightarrow> uvm_gpu_phys_address \<Rightarrow> u64 list \<Rightarrow> nat \<Rightarrow> nat \<Rightarrow> push option" where
  "uvm_pte_batch_single_write_ptes p first_pte pte_bits entry_size entry_count =
     map_option (\<lambda>b. pb_push (uvm_pte_batch_end b))
       (uvm_pte_batch_write_ptes first_pte pte_bits entry_size entry_count (uvm_pte_batch_begin p))"

section \<open>The invariant of a batch of 8-byte entries\<close>

text \<open>
  \<open>pending b\<close> are the words that wait to be pushed, \<open>effect b\<close> is the memory once they
  are. The invariant bounds the queue by its array and the fragment by its maximal size.
\<close>

definition pending :: "pte_batch \<Rightarrow> u64 list" where
  "pending b = (if inlining b then inline_data b else take (pte_count b) (pte_bits_queue b))"

definition effect :: "pte_batch \<Rightarrow> gpu_mem \<Rightarrow> gpu_mem" where
  "effect b m = write_words (pte_first_address b) (pending b) (run_push (pb_push b) m)"

definition small_copies :: "push \<Rightarrow> bool" where
  "small_copies p \<longleftrightarrow> (\<forall>dst ws. Memcopy dst ws \<in> set p \<longrightarrow> 8 * length ws \<le> UVM_PUSH_INLINE_DATA_MAX_SIZE)"

definition pb_inv :: "pte_batch \<Rightarrow> bool" where
  "pb_inv b \<longleftrightarrow>
     length (pte_bits_queue b) = UVM_PTE_BATCH_MAX_PTES \<and>
     8 * pte_count b \<le> UVM_PUSH_INLINE_DATA_MAX_SIZE \<and>
     (pte_count b > 0 \<longrightarrow> pte_entry_size b = 8) \<and>
     (if inlining b then length (inline_data b) = pte_count b \<and> pte_count b > 0
      else pte_count b \<le> UVM_PTE_BATCH_MAX_PTES) \<and>
     small_copies (pb_push b)"

lemma max_size: "UVM_PUSH_INLINE_DATA_MAX_SIZE = 32764"
  by (simp add: UVM_PUSH_INLINE_DATA_MAX_SIZE_def UVM_METHOD_COUNT_MAX_def UVM_METHOD_SIZE_def)

lemmas pb_bounds = max_size UVM_PTE_BATCH_MAX_PTES_def

lemma nv32_small [simp]: "n < 4294967296 \<Longrightarrow> nv32 n = n"
  by (simp add: nv32_def)

lemma small_copies_append [simp]: "small_copies (p @ q) \<longleftrightarrow> small_copies p \<and> small_copies q"
  by (auto simp: small_copies_def)

lemma small_copies_simple [simp]:
  "small_copies []"
  "small_copies (c # p) \<longleftrightarrow> small_copies p \<and>
     (case c of Memcopy dst ws \<Rightarrow> 8 * length ws \<le> UVM_PUSH_INLINE_DATA_MAX_SIZE | _ \<Rightarrow> True)"
  by (auto simp: small_copies_def split: push_cmd.splits)

lemma small_copies_inline_end [simp]: "small_copies (uvm_push_inline_data_end ws p) = small_copies p"
  by (simp add: uvm_push_inline_data_end_def)

lemma small_copies_membar [simp]: "small_copies (uvm_hal_wfi_membar b p) = small_copies p"
  by (cases b) (simp_all add: uvm_hal_wfi_membar_def uvm_hal_membar_def)

lemma run_memset_each: "run_push (memset_each a 8 ws) m = write_words a ws m"
  by (induction ws arbitrary: a m) simp_all

lemma small_memset_each [simp]: "small_copies (memset_each a n ws)"
  by (induction ws arbitrary: a) simp_all

lemma begin_inv: "small_copies p \<Longrightarrow> pb_inv (uvm_pte_batch_begin p)"
  by (simp add: pb_inv_def uvm_pte_batch_begin_def)

lemma begin_effect: "effect (uvm_pte_batch_begin p) m = run_push p m"
  by (simp add: effect_def pending_def uvm_pte_batch_begin_def)

lemma begin_membar: "pb_membar (uvm_pte_batch_begin p) = UVM_MEMBAR_GPU"
  by (simp add: uvm_pte_batch_begin_def)

lemma flush_idle:
  "pb_inv b \<Longrightarrow> pte_count (uvm_pte_batch_flush_ptes b) = 0 \<and> \<not> inlining (uvm_pte_batch_flush_ptes b)"
  by (auto simp: pb_inv_def uvm_pte_batch_flush_ptes_def uvm_pte_batch_flush_ptes_inline_def
      uvm_pte_batch_flush_ptes_memset_def Let_def)

lemma flush_inv: "pb_inv b \<Longrightarrow> pb_inv (uvm_pte_batch_flush_ptes b)"
  by (auto simp: pb_inv_def uvm_pte_batch_flush_ptes_def uvm_pte_batch_flush_ptes_inline_def
      uvm_pte_batch_flush_ptes_memset_def Let_def)

lemma flush_run:
  assumes "pb_inv b"
  shows "run_push (pb_push (uvm_pte_batch_flush_ptes b)) m = effect b m"
  using assms
  by (auto simp: pb_inv_def uvm_pte_batch_flush_ptes_def uvm_pte_batch_flush_ptes_inline_def
      uvm_pte_batch_flush_ptes_memset_def Let_def effect_def pending_def run_memset_each pb_bounds)

lemma flush_frame [simp]:
  "pb_membar (uvm_pte_batch_flush_ptes b) = pb_membar b"
  "pte_bits_queue (uvm_pte_batch_flush_ptes b) = pte_bits_queue b"
  by (auto simp: uvm_pte_batch_flush_ptes_def uvm_pte_batch_flush_ptes_inline_def
      uvm_pte_batch_flush_ptes_memset_def Let_def)

lemma fold_inline:
  "pte_entry_size b = 8 \<or> ws = [] \<Longrightarrow>
   fold uvm_pte_batch_write_consecutive_inline ws b = b\<lparr>inline_data := inline_data b @ ws\<rparr>"
  by (induction ws arbitrary: b) (auto simp: uvm_pte_batch_write_consecutive_inline_def)

lemma begin_inline_eq:
  "pte_count b > 0 \<longrightarrow> pte_entry_size b = 8 \<Longrightarrow>
   pte_batch_begin_inline b =
     b\<lparr>inlining := True, inline_data := take (pte_count b) (pte_bits_queue b)\<rparr>"
  by (auto simp: pte_batch_begin_inline_def fold_inline)

lemma note_sysmem_simps [simp]:
  "pb_inv (note_sysmem a b) = pb_inv b"
  "effect (note_sysmem a b) = effect b"
  "pb_membar (note_sysmem a b) = (if aperture a = UVM_APERTURE_SYS then UVM_MEMBAR_SYS else pb_membar b)"
  "pte_first_address (note_sysmem a b) = pte_first_address b"
  "pte_count (note_sysmem a b) = pte_count b"
  "pte_entry_size (note_sysmem a b) = pte_entry_size b"
  "inlining (note_sysmem a b) = inlining b"
  "inline_data (note_sysmem a b) = inline_data b"
  "pte_bits_queue (note_sysmem a b) = pte_bits_queue b"
  "pb_push (note_sysmem a b) = pb_push b"
  by (auto simp: note_sysmem_def pb_inv_def effect_def pending_def fun_eq_iff)

section \<open>Every operation keeps the invariant and has its effect\<close>

lemma write_consecutive_ok:
  assumes "length (pte_bits_queue b) = UVM_PTE_BATCH_MAX_PTES" "8 * (pte_count b + 1) \<le> UVM_PUSH_INLINE_DATA_MAX_SIZE"
    "pte_entry_size b = 8" "small_copies (pb_push b)"
    "if inlining b then length (inline_data b) = pte_count b else pte_count b < UVM_PTE_BATCH_MAX_PTES"
  shows "pb_inv (uvm_pte_batch_write_consecutive v b)"
    and "effect (uvm_pte_batch_write_consecutive v b) m =
           (effect b m)(advance (pte_first_address b) (of_nat (pte_count b) * 8) := v)"
proof -
  show "pb_inv (uvm_pte_batch_write_consecutive v b)"
    using assms
    by (auto simp: pb_inv_def uvm_pte_batch_write_consecutive_def Let_def pb_bounds
        uvm_pte_batch_write_consecutive_inline_def)
  show "effect (uvm_pte_batch_write_consecutive v b) m =
           (effect b m)(advance (pte_first_address b) (of_nat (pte_count b) * 8) := v)"
  proof (cases "inlining b")
    case True
    then show ?thesis
      using assms by (simp add: effect_def pending_def uvm_pte_batch_write_consecutive_def Let_def
          uvm_pte_batch_write_consecutive_inline_def write_words_snoc)
  next
    case False
    then have "take (Suc (pte_count b)) ((pte_bits_queue b)[pte_count b := v]) =
        take (pte_count b) (pte_bits_queue b) @ [v]"
      using assms by (simp add: take_Suc_conv_app_nth)
    then show ?thesis
      using False assms by (simp add: effect_def pending_def uvm_pte_batch_write_consecutive_def Let_def
          pb_bounds write_words_snoc)
  qed
qed

lemma restart_ok:
  assumes "pb_inv b"
  shows "pb_inv ((uvm_pte_batch_flush_ptes b)\<lparr>pte_first_address := a, pte_entry_size := 8\<rparr>)"
    and "effect ((uvm_pte_batch_flush_ptes b)\<lparr>pte_first_address := a, pte_entry_size := 8\<rparr>) m = effect b m"
  using flush_inv [OF assms] flush_idle [OF assms]
  by (simp_all add: pb_inv_def effect_def pending_def flush_run [OF assms])

lemma begin_inline_ok:
  assumes "pb_inv b" "\<not> inlining b"
  shows "effect (pte_batch_begin_inline b) m = effect b m"
    and "length (inline_data (pte_batch_begin_inline b)) = pte_count b"
  using assms by (simp_all add: pb_inv_def begin_inline_eq effect_def pending_def)

text \<open>
  \<open>appendable b\<close>: the next entry fits behind the pending ones. \<open>uvm_pte_batch_write_pte\<close>
  reaches such a batch, by flushing when it must, and appends.
\<close>

definition appendable :: "uvm_gpu_phys_address \<Rightarrow> pte_batch \<Rightarrow> bool" where
  "appendable a b \<longleftrightarrow> pb_inv b \<and> pte_entry_size b = 8 \<and>
     8 * (pte_count b + 1) \<le> UVM_PUSH_INLINE_DATA_MAX_SIZE \<and>
     a = advance (pte_first_address b) (of_nat (pte_count b) * 8)"

lemma append_ok:
  assumes "appendable a b"
  defines "b' \<equiv> if \<not> inlining b \<and> pte_count b = UVM_PTE_BATCH_MAX_PTES then pte_batch_begin_inline b else b"
  shows "pb_inv (uvm_pte_batch_write_consecutive v b')"
    and "effect (uvm_pte_batch_write_consecutive v b') m = (effect b m)(a := v)"
    and "pb_membar (uvm_pte_batch_write_consecutive v b') = pb_membar b"
proof -
  have inv: "pb_inv b" and es: "pte_entry_size b = 8" and fit: "8 * (pte_count b + 1) \<le> UVM_PUSH_INLINE_DATA_MAX_SIZE"
    and a: "a = advance (pte_first_address b) (of_nat (pte_count b) * 8)"
    using assms(1) by (auto simp: appendable_def)
  have same: "pte_count b' = pte_count b" "pte_entry_size b' = 8" "pb_push b' = pb_push b"
    "pte_bits_queue b' = pte_bits_queue b" "pte_first_address b' = pte_first_address b" "pb_membar b' = pb_membar b"
    using es by (auto simp: b'_def begin_inline_eq)
  have q: "length (pte_bits_queue b) = UVM_PTE_BATCH_MAX_PTES" "small_copies (pb_push b)"
    using inv by (auto simp: pb_inv_def)
  have "if inlining b' then length (inline_data b') = pte_count b' else pte_count b' < UVM_PTE_BATCH_MAX_PTES"
    using inv es by (auto simp: b'_def begin_inline_eq pb_inv_def)
  then have step: "pb_inv (uvm_pte_batch_write_consecutive v b')"
    "effect (uvm_pte_batch_write_consecutive v b') m =
       (effect b' m)(advance (pte_first_address b') (of_nat (pte_count b') * 8) := v)"
    using q fit same write_consecutive_ok [of b' v] by simp_all
  moreover have "effect b' m = effect b m"
    using begin_inline_ok(1) [OF inv] by (simp add: b'_def)
  ultimately show "pb_inv (uvm_pte_batch_write_consecutive v b')"
    "effect (uvm_pte_batch_write_consecutive v b') m = (effect b m)(a := v)"
    using same by (auto simp: a)
  show "pb_membar (uvm_pte_batch_write_consecutive v b') = pb_membar b"
    using same(6) by (simp add: uvm_pte_batch_write_consecutive_def Let_def uvm_pte_batch_write_consecutive_inline_def)
qed

lemma write_pte_ok:
  assumes inv: "pb_inv b"
  shows "pb_inv (uvm_pte_batch_write_pte a v 8 b)"
    and "effect (uvm_pte_batch_write_pte a v 8 b) m = (effect b m)(a := v)"
    and "pb_membar (uvm_pte_batch_write_pte a v 8 b) =
           (if aperture a = UVM_APERTURE_SYS then UVM_MEMBAR_SYS else pb_membar b)"
proof -
  let ?n = "note_sysmem a b"
  define nf where "nf \<longleftrightarrow> nv32 (nv32 (pte_count b + 1) * pte_entry_size b) > UVM_PUSH_INLINE_DATA_MAX_SIZE \<or>
     \<not> uvm_gpu_phys_address_eq a (advance (pte_first_address b) (of_nat (nv32 (pte_count b * 8)))) \<or> pte_entry_size b \<noteq> 8"
  define b1 where "b1 = (if nf then (uvm_pte_batch_flush_ptes ?n)\<lparr>pte_first_address := a, pte_entry_size := 8\<rparr> else ?n)"
  have ninv: "pb_inv ?n" using inv by simp
  have app: "appendable a b1"
  proof (cases nf)
    case True
    then show ?thesis
      using restart_ok(1) [OF ninv, of a] flush_idle [OF ninv] by (simp add: b1_def appendable_def max_size)
  next
    case False
    have c: "8 * pte_count b \<le> 32764" using inv by (simp add: pb_inv_def max_size)
    have "8 * (pte_count b + 1) \<le> 32764" using False c by (auto simp: nf_def max_size)
    then show ?thesis
      using False c ninv
      by (auto simp: b1_def appendable_def nf_def max_size uvm_gpu_phys_address_eq_def mult.commute)
  qed
  have eq: "uvm_pte_batch_write_pte a v 8 b =
      uvm_pte_batch_write_consecutive v
        (if \<not> inlining b1 \<and> pte_count b1 = UVM_PTE_BATCH_MAX_PTES then pte_batch_begin_inline b1 else b1)"
    by (simp add: uvm_pte_batch_write_pte_def Let_def b1_def nf_def)
  have e1: "effect b1 m = effect b m"
    using restart_ok(2) [OF ninv] by (simp add: b1_def)
  show "pb_inv (uvm_pte_batch_write_pte a v 8 b)"
    "effect (uvm_pte_batch_write_pte a v 8 b) m = (effect b m)(a := v)"
    using append_ok(1,2) [OF app] by (simp_all add: eq e1)
  show "pb_membar (uvm_pte_batch_write_pte a v 8 b) =
           (if aperture a = UVM_APERTURE_SYS then UVM_MEMBAR_SYS else pb_membar b)"
    using append_ok(3) [OF app] by (simp add: eq b1_def)
qed

lemma write_ptes_round_ok:
  assumes inv: "pb_inv b" and n: "0 < n" "n \<le> length ws" "8 * n \<le> UVM_PUSH_INLINE_DATA_MAX_SIZE"
  shows "pb_inv (write_ptes_round a ws 8 n b)"
    and "effect (write_ptes_round a ws 8 n b) m = write_words a (take n ws) (effect b m)"
    and "pb_membar (write_ptes_round a ws 8 n b) = pb_membar b"
proof -
  let ?f = "uvm_pte_batch_flush_ptes b"
  have f: "pte_count ?f = 0" "\<not> inlining ?f" using flush_idle [OF inv] by auto
  have r: "write_ptes_round a ws 8 n b =
      ?f\<lparr>inlining := True, inline_data := take n ws, pte_entry_size := 8, pte_first_address := a, pte_count := n\<rparr>"
    using n f by (simp add: write_ptes_round_def Let_def begin_inline_eq max_size)
  show "pb_inv (write_ptes_round a ws 8 n b)"
    using flush_inv [OF inv] n by (auto simp: r pb_inv_def)
  show "effect (write_ptes_round a ws 8 n b) m = write_words a (take n ws) (effect b m)"
    by (simp add: r effect_def [of "_\<lparr>inlining := True\<rparr>"] pending_def effect_def [of "?f\<lparr>inlining := True, inline_data := take n ws, pte_entry_size := 8, pte_first_address := a, pte_count := n\<rparr>"] flush_run [OF inv])
  show "pb_membar (write_ptes_round a ws 8 n b) = pb_membar b"
    by (simp add: r)
qed

lemma write_ptes_loop_ok:
  assumes "pb_inv b" "n = length ws" "n \<le> fuel"
  shows "\<exists>b'. write_ptes_loop fuel a ws 8 n b = Some b' \<and> pb_inv b' \<and> pb_membar b' = pb_membar b \<and>
    (\<forall>m. effect b' m = write_words a ws (effect b m))"
  using assms
proof (induction fuel arbitrary: a ws n b)
  case 0
  then show ?case by (simp add: write_ptes_loop.simps)
next
  case (Suc fuel)
  show ?case
  proof (cases "n = 0")
    case True
    then show ?thesis using Suc.prems by (simp add: write_ptes_loop.simps)
  next
    case False
    define k where "k = min (UVM_PUSH_INLINE_DATA_MAX_SIZE div 8) n"
    have k: "0 < k" "k \<le> length ws" "8 * k \<le> UVM_PUSH_INLINE_DATA_MAX_SIZE" "k \<le> n"
      using False Suc.prems(2) by (auto simp: k_def max_size)
    note r = write_ptes_round_ok [OF Suc.prems(1) k(1-3)]
    have "n - k = length (drop k ws)" "n - k \<le> fuel" using Suc.prems k by auto
    from Suc.IH [OF r(1) [of a] this, of "advance a (of_nat k * 8)"]
    obtain b' where b': "write_ptes_loop fuel (advance a (of_nat k * 8)) (drop k ws) 8 (n - k)
        (write_ptes_round a ws 8 k b) = Some b'" "pb_inv b'" "pb_membar b' = pb_membar b"
        "\<forall>m. effect b' m = write_words (advance a (of_nat k * 8)) (drop k ws) (write_words a (take k ws) (effect b m))"
      by (auto simp: r)
    have "write_ptes_loop (Suc fuel) a ws 8 n b = Some b'"
      using b'(1) k(3) False
      by (simp add: write_ptes_loop.simps [of "Suc fuel"] Let_def k_def [symmetric]) (simp add: max_size mult.commute)
    moreover have "\<forall>m. effect b' m = write_words a ws (effect b m)"
      using b'(4) write_words_append [of a "take k ws" "drop k ws"] k(2) by simp
    ultimately show ?thesis using b' by blast
  qed
qed

lemma clear_ptes_ok:
  assumes inv: "pb_inv b" and n: "8 * n < 2 ^ 32"
  shows "pb_inv (uvm_pte_batch_clear_ptes a v 8 n b)"
    and "effect (uvm_pte_batch_clear_ptes a v 8 n b) m = write_words a (replicate n v) (effect b m)"
    and "pb_membar (uvm_pte_batch_clear_ptes a v 8 n b) =
           (if aperture a = UVM_APERTURE_SYS then UVM_MEMBAR_SYS else pb_membar b)"
proof -
  let ?f = "uvm_pte_batch_flush_ptes b"
  have f: "pte_count ?f = 0" "\<not> inlining ?f" using flush_idle [OF inv] by auto
  have nv: "nv32 (8 * n) div 8 = n" using n by simp
  show "pb_inv (uvm_pte_batch_clear_ptes a v 8 n b)"
    using flush_inv [OF inv] by (simp add: uvm_pte_batch_clear_ptes_def Let_def pb_inv_def)
  show "effect (uvm_pte_batch_clear_ptes a v 8 n b) m = write_words a (replicate n v) (effect b m)"
    using f nv flush_run [OF inv] by (simp add: uvm_pte_batch_clear_ptes_def Let_def effect_def [of "_\<lparr>pb_push := _\<rparr>"] pending_def)
  show "pb_membar (uvm_pte_batch_clear_ptes a v 8 n b) =
           (if aperture a = UVM_APERTURE_SYS then UVM_MEMBAR_SYS else pb_membar b)"
    by (simp add: uvm_pte_batch_clear_ptes_def Let_def)
qed

lemma end_run:
  assumes "pb_inv b"
  shows "run_push (pb_push (uvm_pte_batch_end b)) m = effect b m"
    and "small_copies (pb_push (uvm_pte_batch_end b))"
    and "\<exists>body. pb_push (uvm_pte_batch_end b) = uvm_hal_wfi_membar (pb_membar b) body"
  using flush_inv [OF assms] by (simp_all add: uvm_pte_batch_end_def Let_def flush_run [OF assms] pb_inv_def) blast

section \<open>A whole batch\<close>

datatype pte_op =
  Write_Pte uvm_gpu_phys_address u64
| Write_Ptes uvm_gpu_phys_address "u64 list"
| Clear_Ptes uvm_gpu_phys_address u64 nat

fun batch_op :: "pte_op \<Rightarrow> pte_batch \<Rightarrow> pte_batch option" where
  "batch_op (Write_Pte a v) b = Some (uvm_pte_batch_write_pte a v 8 b)"
| "batch_op (Write_Ptes a vs) b = uvm_pte_batch_write_ptes a vs 8 (length vs) b"
| "batch_op (Clear_Ptes a v n) b = Some (uvm_pte_batch_clear_ptes a v 8 n b)"

fun batch_ops :: "pte_op list \<Rightarrow> pte_batch \<Rightarrow> pte_batch option" where
  "batch_ops [] b = Some b"
| "batch_ops (op # ops) b = Option.bind (batch_op op b) (batch_ops ops)"

definition batched :: "push \<Rightarrow> pte_op list \<Rightarrow> push option" where
  "batched p ops = map_option (\<lambda>b. pb_push (uvm_pte_batch_end b)) (batch_ops ops (uvm_pte_batch_begin p))"

text \<open>The specification: the entries are written one by one.\<close>

fun write_now :: "pte_op \<Rightarrow> gpu_mem \<Rightarrow> gpu_mem" where
  "write_now (Write_Pte a v) m = m(a := v)"
| "write_now (Write_Ptes a vs) m = write_words a vs m"
| "write_now (Clear_Ptes a v n) m = write_words a (replicate n v) m"

fun op_address :: "pte_op \<Rightarrow> uvm_gpu_phys_address" where
  "op_address (Write_Pte a v) = a"
| "op_address (Write_Ptes a vs) = a"
| "op_address (Clear_Ptes a v n) = a"

definition in_sysmem :: "pte_op \<Rightarrow> bool" where
  "in_sysmem op \<longleftrightarrow> aperture (op_address op) = UVM_APERTURE_SYS"

fun op_ok :: "pte_op \<Rightarrow> bool" where
  "op_ok (Clear_Ptes a v n) = (8 * n < 2 ^ 32)"
| "op_ok _ = True"

lemma batch_op_ok:
  assumes "pb_inv b" "op_ok op"
  shows "\<exists>b'. batch_op op b = Some b' \<and> pb_inv b' \<and>
    pb_membar b' = (if in_sysmem op then UVM_MEMBAR_SYS else pb_membar b) \<and>
    (\<forall>m. effect b' m = write_now op (effect b m))"
proof (cases op)
  case (Write_Pte a v)
  then show ?thesis using write_pte_ok [OF assms(1)] by (simp add: in_sysmem_def)
next
  case (Write_Ptes a vs)
  then show ?thesis
    using write_ptes_loop_ok [of "note_sysmem a b" "length vs" vs "length vs" a] assms
    by (simp add: in_sysmem_def uvm_pte_batch_write_ptes_def)
next
  case (Clear_Ptes a v n)
  then show ?thesis using clear_ptes_ok [OF assms(1)] assms(2) by (simp add: in_sysmem_def)
qed

lemma batch_ops_ok:
  assumes "pb_inv b" "list_all op_ok ops"
  shows "\<exists>b'. batch_ops ops b = Some b' \<and> pb_inv b' \<and>
    pb_membar b' = (if list_ex in_sysmem ops then UVM_MEMBAR_SYS else pb_membar b) \<and>
    (\<forall>m. effect b' m = fold write_now ops (effect b m))"
  using assms
proof (induction ops arbitrary: b)
  case (Cons op ops)
  from batch_op_ok [of b op] Cons.prems obtain b1 where b1: "batch_op op b = Some b1" "pb_inv b1"
    "pb_membar b1 = (if in_sysmem op then UVM_MEMBAR_SYS else pb_membar b)"
    "\<forall>m. effect b1 m = write_now op (effect b m)"
    by auto
  then show ?case using Cons.IH [of b1] Cons.prems(2) by auto
qed simp


definition pte_at :: "uvm_aperture \<Rightarrow> nat \<Rightarrow> uvm_gpu_phys_address" where
  "pte_at ap i = \<lparr>address = of_nat (8 * i), aperture = ap\<rparr>"


end
