(* ===== verification/Uvm_Block_Pte.thy ===== *)
theory Uvm_Block_Pte
  imports Uvm_Geometry Uvm_Pte_Batch
begin

text \<open>
  The page tables of a VA block on one GPU (\<^verbatim>\<open>uvm_va_block.c\<close>, \<^verbatim>\<open>uvm_mmu.h\<close>): the state the driver keeps
  for the block, where the entries are, which physical memory a page has, and the routines
  that write big entries and turn the 2 MiB entry into a directory entry. What the hardware layer
  decides (entry formats and sizes, chunk sizes, TLB limits) is the parameter \<open>mmu_hal\<close>.

  Memory is resident on the GPU that maps it, the only case the handlers use: the CPU and peer
  branches of the address computation are left out. Dereferencing a null pointer and indexing
  out of an array are faults.
\<close>

unbundle bit_operations_syntax

datatype kfault = Null_Deref | Out_Of_Bounds | Wild_Pointer | Divide_Error

definition deref :: "'a option \<Rightarrow> kfault + 'a" where
  "deref p = (case p of None \<Rightarrow> Inl Null_Deref | Some x \<Rightarrow> Inr x)"

definition at_index :: "'a list \<Rightarrow> nat \<Rightarrow> kfault + 'a" where
  "at_index xs i = (if i < length xs then Inr (xs ! i) else Inl Out_Of_Bounds)"

fun sbind :: "kfault + 'a \<Rightarrow> ('a \<Rightarrow> kfault + 'b) \<Rightarrow> kfault + 'b" where
  "sbind (Inl e) f = Inl e"
| "sbind (Inr a) f = f a"

lemma deref_simps [simp]: "deref None = Inl Null_Deref" "deref (Some x) = Inr x"
  by (simp_all add: deref_def)

lemma at_index_simp [simp]: "i < length xs \<Longrightarrow> at_index xs i = Inr (xs ! i)"
  by (simp add: at_index_def)

section \<open>State\<close>

type_synonym chunk_ptr = nat
type_synonym block_ptr = nat

record gpu_chunk =
  ch_address :: u64
  allocated_chunks :: "chunk_ptr option list"
  ch_va_block :: "block_ptr option"

datatype uvm_prot = UVM_PROT_NONE | UVM_PROT_READ_ONLY | UVM_PROT_READ_WRITE | UVM_PROT_READ_WRITE_ATOMIC

record page_table_range =
  pt_table :: "uvm_gpu_phys_address option"
  start_index :: u32
  entry_count :: u32
  pt_page_size :: u32

record gpu_state =
  gs_chunks :: "chunk_ptr option list"
  page_table_range_2m :: page_table_range
  page_table_range_big :: page_table_range
  page_table_range_4k :: page_table_range
  activated_big :: bool
  activated_4k :: bool
  pte_is_2m :: bool
  big_ptes :: u64
  pte_bits_read :: "nat \<Rightarrow> bool"
  pte_bits_write :: "nat \<Rightarrow> bool"
  pte_bits_atomic :: "nat \<Rightarrow> bool"

record va_block = block_span +
  vb_gpu :: "gpu_state option"

record mmu_hal =
  make_pte :: "uvm_aperture \<Rightarrow> u64 \<Rightarrow> uvm_prot \<Rightarrow> u64 \<Rightarrow> u64"
  make_pde :: "uvm_gpu_phys_address option list \<Rightarrow> u64 list"
  entry_size :: "u32 \<Rightarrow> nat"
  caps :: tlb_caps
  big_page_size :: u64
  mmu_user_chunk_sizes :: u64

definition UVM_MMU_PTE_FLAGS_CACHED :: u64 where "UVM_MMU_PTE_FLAGS_CACHED = 1"

section \<open>Entries and addresses\<close>

definition uvm_mmu_pte_size :: "mmu_hal \<Rightarrow> u32 \<Rightarrow> nat" where
  "uvm_mmu_pte_size hal page_size = entry_size hal (page_table_depth (caps hal) page_size)"

definition uvm_page_table_range_entry_address ::
  "mmu_hal \<Rightarrow> page_table_range \<Rightarrow> nat \<Rightarrow> kfault + uvm_gpu_phys_address" where
  "uvm_page_table_range_entry_address hal r entry_index =
     sbind (deref (pt_table r)) (\<lambda>entry.
       Inr (advance entry ((ucast (start_index r) + of_nat entry_index) *
         of_nat (uvm_mmu_pte_size hal (pt_page_size r)))))"

definition uvm_page_table_range_aperture :: "page_table_range \<Rightarrow> kfault + uvm_aperture" where
  "uvm_page_table_range_aperture r = sbind (deref (pt_table r)) (\<lambda>t. Inr (aperture t))"

definition block_page_prot_gpu :: "gpu_state option \<Rightarrow> nat \<Rightarrow> uvm_prot" where
  "block_page_prot_gpu gpu_state page_index =
     (case gpu_state of None \<Rightarrow> UVM_PROT_NONE
      | Some gs \<Rightarrow>
        if pte_bits_atomic gs page_index then UVM_PROT_READ_WRITE_ATOMIC
        else if pte_bits_write gs page_index then UVM_PROT_READ_WRITE
        else if pte_bits_read gs page_index then UVM_PROT_READ_ONLY
        else UVM_PROT_NONE)"

definition block_gpu_chunk_index :: "mmu_hal \<Rightarrow> 'a block_span_scheme \<Rightarrow> nat \<Rightarrow> nat \<times> u64" where
  "block_gpu_chunk_index hal b page_index =
     (case uvm_va_block_gpu_chunk_index_range (mmu_user_chunk_sizes hal) (vb_start b) (uvm_va_block_size b) page_index of
        (index, chunk_size) \<Rightarrow> (unat index, chunk_size))"

definition block_phys_contig_region :: "mmu_hal \<Rightarrow> 'a block_span_scheme \<Rightarrow> nat \<Rightarrow> region" where
  "block_phys_contig_region hal b page_index =
     uvm_va_block_chunk_region b (snd (block_gpu_chunk_index hal b page_index)) page_index"

definition block_phys_page_chunk ::
  "mmu_hal \<Rightarrow> 'a block_span_scheme \<Rightarrow> gpu_state \<Rightarrow> nat \<Rightarrow> kfault + chunk_ptr \<times> u64" where
  "block_phys_page_chunk hal b gs page_index =
     (case block_gpu_chunk_index hal b page_index of (chunk_index, chunk_size) \<Rightarrow>
        sbind (at_index (gs_chunks gs) chunk_index) (\<lambda>c.
        sbind (deref c) (\<lambda>c.
          Inr (c, of_nat (page_index - first (uvm_va_block_chunk_region b chunk_size page_index)) * PAGE_SIZE))))"

definition block_phys_page_address ::
  "mmu_hal \<Rightarrow> (chunk_ptr \<Rightarrow> gpu_chunk) \<Rightarrow> 'a block_span_scheme \<Rightarrow> gpu_state \<Rightarrow> nat \<Rightarrow> kfault + uvm_gpu_phys_address" where
  "block_phys_page_address hal store b gs page_index =
     sbind (block_phys_page_chunk hal b gs page_index) (\<lambda>(c, chunk_offset).
       Inr \<lparr>address = ch_address (store c) + chunk_offset, aperture = UVM_APERTURE_VID\<rparr>)"

section \<open>Writing entries\<close>

definition big_bits :: "u64 \<Rightarrow> nat list" where
  "big_bits m = filter (bit m) [0..<MAX_BIG_PAGES_PER_UVM_VA_BLOCK]"

text \<open>
  One entry of \<^verbatim>\<open>block_gpu_pte_write_big\<close>. The contiguous region and its address are computed again
  when the big page lies behind the region of the previous ones.
\<close>

definition write_big_pte ::
  "mmu_hal \<Rightarrow> (chunk_ptr \<Rightarrow> gpu_chunk) \<Rightarrow> 'a block_span_scheme \<Rightarrow> gpu_state \<Rightarrow> uvm_prot \<Rightarrow> nat \<Rightarrow>
   (region \<times> uvm_gpu_phys_address) \<Rightarrow> pte_batch \<Rightarrow> tlb_batch \<Rightarrow>
   kfault + (region \<times> uvm_gpu_phys_address) \<times> pte_batch \<times> tlb_batch" where
  "write_big_pte hal store b gs new_prot big_page_index contig pte_batch tlb_batch =
     (let bps = big_page_size hal;
          big_region = uvm_va_block_big_page_region b big_page_index bps
      in sbind (if first big_region \<ge> outer (fst contig)
                then let contig_region = block_phys_contig_region hal b (first big_region)
                     in sbind (block_phys_page_address hal store b gs (first contig_region)) (\<lambda>contig_addr.
                          Inr (contig_region, contig_addr))
                else Inr contig) (\<lambda>(contig_region, contig_addr).
         sbind (uvm_page_table_range_entry_address hal (page_table_range_big gs) big_page_index) (\<lambda>pte_addr.
           let page_address = address contig_addr + of_nat (first big_region - first contig_region) * PAGE_SIZE;
               pte_val = make_pte hal (aperture contig_addr) page_address new_prot UVM_MMU_PTE_FLAGS_CACHED
           in Inr ((contig_region, contig_addr),
                uvm_pte_batch_write_pte pte_addr pte_val (uvm_mmu_pte_size hal (ucast bps)) pte_batch,
                uvm_tlb_batch_invalidate (caps hal) (uvm_va_block_region_start b big_region) bps (ucast bps)
                  UVM_MEMBAR_NONE tlb_batch))))"

fun write_big_loop ::
  "mmu_hal \<Rightarrow> (chunk_ptr \<Rightarrow> gpu_chunk) \<Rightarrow> 'a block_span_scheme \<Rightarrow> gpu_state \<Rightarrow> uvm_prot \<Rightarrow> nat list \<Rightarrow>
   (region \<times> uvm_gpu_phys_address) \<Rightarrow> pte_batch \<Rightarrow> tlb_batch \<Rightarrow> kfault + pte_batch \<times> tlb_batch" where
  "write_big_loop hal store b gs new_prot [] contig pte_batch tlb_batch = Inr (pte_batch, tlb_batch)"
| "write_big_loop hal store b gs new_prot (i # is) contig pte_batch tlb_batch =
     sbind (write_big_pte hal store b gs new_prot i contig pte_batch tlb_batch) (\<lambda>(contig, pte_batch, tlb_batch).
       write_big_loop hal store b gs new_prot is contig pte_batch tlb_batch)"

definition block_gpu_pte_write_big ::
  "mmu_hal \<Rightarrow> (chunk_ptr \<Rightarrow> gpu_chunk) \<Rightarrow> 'a block_span_scheme \<Rightarrow> gpu_state \<Rightarrow> uvm_prot \<Rightarrow> u64 \<Rightarrow>
   pte_batch \<Rightarrow> tlb_batch \<Rightarrow> kfault + pte_batch \<times> tlb_batch" where
  "block_gpu_pte_write_big hal store b gs new_prot big_ptes_mask =
     write_big_loop hal store b gs new_prot (big_bits big_ptes_mask)
       (\<lparr>first = 0, outer = 0\<rparr>, \<lparr>address = 0, aperture = UVM_APERTURE_PEER_0\<rparr>)"

definition block_gpu_pte_clear_big ::
  "mmu_hal \<Rightarrow> 'a block_span_scheme \<Rightarrow> gpu_state \<Rightarrow> u64 option \<Rightarrow> u64 \<Rightarrow> pte_batch \<Rightarrow> tlb_batch option \<Rightarrow>
   kfault + pte_batch \<times> tlb_batch option" where
  "block_gpu_pte_clear_big hal b gs big_ptes_mask pte_clear_val pte_batch tlb_batch =
     (let bps = big_page_size hal;
          pte_size = uvm_mmu_pte_size hal (ucast bps);
          big_ptes_to_clear = (case big_ptes_mask of Some m \<Rightarrow> big_bits m
            | None \<Rightarrow> [0..<min (uvm_va_block_num_big_pages b bps) MAX_BIG_PAGES_PER_UVM_VA_BLOCK])
      in fold (\<lambda>i r. sbind r (\<lambda>(pte_batch, tlb_batch).
           sbind (uvm_page_table_range_entry_address hal (page_table_range_big gs) i) (\<lambda>pte_addr.
             Inr (uvm_pte_batch_clear_ptes pte_addr pte_clear_val pte_size 1 pte_batch,
                  map_option (uvm_tlb_batch_invalidate (caps hal) (uvm_va_block_big_page_addr b i bps) bps (ucast bps)
                    UVM_MEMBAR_NONE) tlb_batch))))
           big_ptes_to_clear (Inr (pte_batch, tlb_batch)))"

definition block_gpu_pte_clear_2m ::
  "mmu_hal \<Rightarrow> 'a block_span_scheme \<Rightarrow> gpu_state \<Rightarrow> pte_batch \<Rightarrow> tlb_batch \<Rightarrow> kfault + pte_batch \<times> tlb_batch" where
  "block_gpu_pte_clear_2m hal b gs pte_batch tlb_batch =
     sbind (uvm_page_table_range_entry_address hal (page_table_range_2m gs) 0) (\<lambda>pte_addr.
       Inr (uvm_pte_batch_clear_ptes pte_addr 0 (uvm_mmu_pte_size hal (ucast UVM_PAGE_SIZE_2M)) 1 pte_batch,
            uvm_tlb_batch_invalidate (caps hal) (vb_start b) UVM_PAGE_SIZE_2M (ucast UVM_PAGE_SIZE_2M)
              UVM_MEMBAR_NONE tlb_batch))"

text \<open>
  Writing one directory entry (\<^verbatim>\<open>pde_fill_gpu\<close> for one entry). An entry of two words goes through
  inline data; a pending membar flag is taken off before the data and set again for the copy.
\<close>

definition pde_fill_gpu ::
  "mmu_hal \<Rightarrow> nat \<Rightarrow> uvm_gpu_phys_address \<Rightarrow> uvm_gpu_phys_address option list \<Rightarrow> uvm_push_flag list \<Rightarrow> push \<Rightarrow> push" where
  "pde_fill_gpu hal esize pde_entry_addr phys_addr flags p =
     (let pde_data = make_pde hal phys_addr
      in if esize = 8 then p @ map Set_Flag flags @ [Memset_8 pde_entry_addr (hd pde_data) 8]
         else uvm_push_inline_data_end (take 2 pde_data) p @ map Set_Flag flags @ [Memcopy pde_entry_addr (take 2 pde_data)])"

definition uvm_page_tree_write_pde ::
  "mmu_hal \<Rightarrow> gpu_state \<Rightarrow> uvm_push_flag list \<Rightarrow> push \<Rightarrow> kfault + push" where
  "uvm_page_tree_write_pde hal gs flags p =
     sbind (uvm_page_table_range_entry_address hal (page_table_range_2m gs) 0) (\<lambda>a.
       Inr (pde_fill_gpu hal (uvm_mmu_pte_size hal (pt_page_size (page_table_range_2m gs))) a
         [pt_table (page_table_range_big gs), pt_table (page_table_range_4k gs)] flags p))"

definition block_gpu_write_pde ::
  "mmu_hal \<Rightarrow> 'a block_span_scheme \<Rightarrow> gpu_state \<Rightarrow> push \<Rightarrow> tlb_batch \<Rightarrow> kfault + gpu_state \<times> push \<times> tlb_batch" where
  "block_gpu_write_pde hal b gs p tlb_batch =
     sbind (uvm_page_table_range_aperture (page_table_range_2m gs)) (\<lambda>ap.
     sbind (uvm_page_tree_write_pde hal gs (if ap = UVM_APERTURE_VID then [UVM_PUSH_FLAG_NEXT_MEMBAR_GPU] else []) p) (\<lambda>p.
       Inr (gs\<lparr>activated_big := activated_big gs \<or> pt_table (page_table_range_big gs) \<noteq> None,
              activated_4k := activated_4k gs \<or> pt_table (page_table_range_4k gs) \<noteq> None\<rparr>,
            p @ [Wait_For_Idle],
            uvm_tlb_batch_invalidate (caps hal) (vb_start b) UVM_PAGE_SIZE_2M (ucast UVM_PAGE_SIZE_2M)
              UVM_MEMBAR_NONE tlb_batch)))"

definition block_gpu_pte_finish_split_2m ::
  "mmu_hal \<Rightarrow> 'a block_span_scheme \<Rightarrow> gpu_state \<Rightarrow> pte_batch \<Rightarrow> uvm_membar \<Rightarrow> kfault + gpu_state \<times> push" where
  "block_gpu_pte_finish_split_2m hal b gs pte_batch tlb_membar =
     sbind (if block_page_prot_gpu (Some gs) 0 = UVM_PROT_NONE then Inr (pb_push (uvm_pte_batch_end pte_batch))
            else sbind (block_gpu_pte_clear_2m hal b gs pte_batch uvm_tlb_batch_begin) (\<lambda>(pte_batch, tlb_batch).
              Inr (uvm_tlb_batch_end (caps hal) tlb_batch (pb_push (uvm_pte_batch_end pte_batch)) tlb_membar))) (\<lambda>p.
     sbind (block_gpu_write_pde hal b gs p uvm_tlb_batch_begin) (\<lambda>(gs, p, tlb_batch).
       Inr (gs, uvm_tlb_batch_end (caps hal) tlb_batch p UVM_MEMBAR_NONE)))"

end
