(* ===== verification/Uvm_Vattn.thy ===== *)
theory Uvm_Vattn
  imports Uvm_Block_Pte
begin

text \<open>
  The four ioctl handlers that vAttention adds to the driver: getting a handle of physical
  memory, mapping it at a virtual address, freeing it (\<^verbatim>\<open>uvm_pmm_gpu.c\<close>, \<^verbatim>\<open>uvm_va_block.c\<close>) and cleaning up
  a virtual range (\<^verbatim>\<open>uvm_va_range.c\<close>). The state \<open>sys\<close> holds the VA ranges with their blocks, the chunk
  objects with the root chunk array, and the pushes submitted to the GPU.

  The handlers call the physical memory manager, the kernel's allocators and the page-table
  allocation; these are the fields of the parameter \<open>drv\<close>, and \<open>'p\<close> is the private state of the memory
  manager. Assertions are compiled out of release builds and do not appear.
\<close>

unbundle bit_operations_syntax

definition lift_fault :: "kfault + 'a \<Rightarrow> 's \<Rightarrow> (kfault, 's, 'a) outcome" where
  "lift_fault r s = (case r of Inl e \<Rightarrow> Fail e s | Inr a \<Rightarrow> Ret a s)"

lemma lift_fault_simps [simp]: "lift_fault (Inl e) s = Fail e s" "lift_fault (Inr a) s = Ret a s"
  by (simp_all add: lift_fault_def)

record 'p sys =
  va_range_tree :: range_tree
  range_blocks :: "node_ptr \<Rightarrow> block_ptr option list"
  blocks :: "block_ptr \<Rightarrow> va_block"
  chunk_store :: "chunk_ptr \<Rightarrow> gpu_chunk"
  root_chunks :: "chunk_ptr list"
  gpu_uuid :: nat
  pushes :: "push list"
  pmm_private :: 'p

record 'p drv =
  hal :: mmu_hal
  uvm_pmm_gpu_alloc_user :: "u64 \<Rightarrow> 'p sys \<Rightarrow> NV_STATUS \<times> chunk_ptr \<times> 'p sys"
  uvm_pmm_gpu_split_chunk :: "chunk_ptr \<Rightarrow> u64 \<Rightarrow> 'p sys \<Rightarrow> NV_STATUS \<times> chunk_ptr list \<times> 'p sys"
  uvm_pmm_gpu_free :: "chunk_ptr \<Rightarrow> 'p sys \<Rightarrow> 'p sys"
  va_block_alloc :: "'p sys \<Rightarrow> block_ptr option"
  gpu_state_alloc :: "'p sys \<Rightarrow> bool"
  block_context_alloc :: "'p sys \<Rightarrow> bool"
  push_begin :: "'p sys \<Rightarrow> NV_STATUS"
  block_alloc_ptes :: "'p sys \<Rightarrow> gpu_state \<Rightarrow> gpu_state"
  remove_gpu_va_space :: "block_ptr \<Rightarrow> 'p sys \<Rightarrow> 'p sys"

type_synonym ('p, 'a) handler = "(kfault, 'p sys, 'a) outcome"

section \<open>Handles of physical memory\<close>

definition update_chunk :: "chunk_ptr \<Rightarrow> (gpu_chunk \<Rightarrow> gpu_chunk) \<Rightarrow> 'p sys \<Rightarrow> 'p sys" where
  "update_chunk c f s = s\<lparr>chunk_store := (chunk_store s)(c := f (chunk_store s c))\<rparr>"

definition get_gpu_by_uuid :: "nat \<Rightarrow> 'p sys \<Rightarrow> ('p, unit) handler" where
  "get_gpu_by_uuid uuid s = (if uuid = gpu_uuid s then Ret () s else Fail Null_Deref s)"

definition root_chunk_from_address :: "u64 \<Rightarrow> 'p sys \<Rightarrow> ('p, chunk_ptr) handler" where
  "root_chunk_from_address addr s = lift_fault (at_index (root_chunks s) (unat (addr div UVM_CHUNK_SIZE_2M))) s"

definition uvm_pmm_get_root_chunk_from_address :: "u64 \<Rightarrow> 'p sys \<Rightarrow> ('p, chunk_ptr) handler" where
  "uvm_pmm_get_root_chunk_from_address = root_chunk_from_address"

definition get_offset_index :: "u64 \<Rightarrow> u64 \<Rightarrow> u64 \<Rightarrow> u64" where
  "get_offset_index base addr sz = (addr - base) div sz"

definition offset_index :: "u64 \<Rightarrow> u64 \<Rightarrow> u64 \<Rightarrow> 'p sys \<Rightarrow> ('p, nat) handler" where
  "offset_index base addr sz s =
     (if sz = 0 then Fail Divide_Error s else Ret (unat (get_offset_index base addr sz)) s)"

definition set_allocated_chunk :: "chunk_ptr \<Rightarrow> nat \<Rightarrow> chunk_ptr \<Rightarrow> 'p sys \<Rightarrow> ('p, unit) handler" where
  "set_allocated_chunk c i sub s =
     (if i < length (allocated_chunks (chunk_store s c))
      then Ret () (update_chunk c (\<lambda>ch. ch\<lparr>allocated_chunks := (allocated_chunks ch)[i := Some sub]\<rparr>) s)
      else Fail Out_Of_Bounds s)"

definition set_allocated_chunks :: "chunk_ptr \<Rightarrow> chunk_ptr list \<Rightarrow> 'p sys \<Rightarrow> ('p, unit) handler" where
  "set_allocated_chunks c subs s = for_each (\<lambda>i. set_allocated_chunk c i (subs ! i)) [0..<length subs] s"

definition uvm_api_get_mem_handle :: "'p drv \<Rightarrow> u64 \<Rightarrow> nat \<Rightarrow> 'p sys \<Rightarrow> ('p, NV_STATUS \<times> u64 option) handler" where
  "uvm_api_get_mem_handle d handle_size uuid s =
     obind (get_gpu_by_uuid uuid s) (\<lambda>_ s.
     case uvm_pmm_gpu_alloc_user d handle_size s of (status, chunk, s) \<Rightarrow>
       if status \<noteq> NV_OK then Ret (status, None) s
       else obind (root_chunk_from_address (ch_address (chunk_store s chunk)) s) (\<lambda>root_chunk s.
         obind (offset_index (ch_address (chunk_store s root_chunk)) (ch_address (chunk_store s chunk)) handle_size s) (\<lambda>index s.
         obind (set_allocated_chunk root_chunk index chunk s) (\<lambda>_ s.
           if handle_size = UVM_PAGE_SIZE_64K
           then obind (set_allocated_chunk chunk 0 chunk s) (\<lambda>_ s. Ret (NV_OK, Some (ch_address (chunk_store s chunk))) s)
           else case uvm_pmm_gpu_split_chunk d chunk UVM_PAGE_SIZE_64K s of (status, subs, s) \<Rightarrow>
             if status \<noteq> NV_OK then Ret (status, None) s
             else obind (set_allocated_chunks chunk subs s) (\<lambda>_ s.
               Ret (NV_OK, Some (ch_address (chunk_store s chunk))) s)))))"

text \<open>The chunk object of a handle, as mapping and freeing look it up.\<close>

definition chunk_of_handle :: "u64 \<Rightarrow> u64 \<Rightarrow> 'p sys \<Rightarrow> ('p, chunk_ptr) handler" where
  "chunk_of_handle handle handle_size s =
     obind (uvm_pmm_get_root_chunk_from_address handle s) (\<lambda>root_chunk s.
     obind (offset_index (ch_address (chunk_store s root_chunk)) handle handle_size s) (\<lambda>handle_index s.
     obind (lift_fault (at_index (allocated_chunks (chunk_store s root_chunk)) handle_index) s) (\<lambda>gpu_chunk s.
       lift_fault (deref gpu_chunk) s)))"

definition free_one :: "'p drv \<Rightarrow> chunk_ptr \<Rightarrow> nat \<Rightarrow> 'p sys \<Rightarrow> ('p, unit) handler" where
  "free_one d gpu_chunk i s =
     obind (lift_fault (at_index (allocated_chunks (chunk_store s gpu_chunk)) i) s) (\<lambda>sub s.
     obind (lift_fault (deref sub) s) (\<lambda>sub s.
       Ret () (uvm_pmm_gpu_free d sub (update_chunk sub (\<lambda>ch. ch\<lparr>ch_va_block := None\<rparr>) s))))"

definition uvm_api_free_mem_handle :: "'p drv \<Rightarrow> u64 \<Rightarrow> u64 \<Rightarrow> nat \<Rightarrow> 'p sys \<Rightarrow> ('p, NV_STATUS) handler" where
  "uvm_api_free_mem_handle d handle handle_size uuid s =
     (let num_big_pages = unat (handle_size div UVM_PAGE_SIZE_64K) in
      obind (get_gpu_by_uuid uuid s) (\<lambda>_ s.
      obind (chunk_of_handle handle handle_size s) (\<lambda>gpu_chunk s.
      obind (for_each (free_one d gpu_chunk) [0..<num_big_pages]
               (update_chunk gpu_chunk (\<lambda>ch. ch\<lparr>ch_va_block := None\<rparr>) s)) (\<lambda>_ s.
        Ret NV_OK s))))"

section \<open>Blocks\<close>

definition uvm_va_range_block_create :: "'p drv \<Rightarrow> node_ptr \<Rightarrow> nat \<Rightarrow> 'p sys \<Rightarrow> ('p, NV_STATUS \<times> block_ptr option) handler" where
  "uvm_va_range_block_create d vr index s =
     obind (lift_fault (at_index (range_blocks s vr) index) s) (\<lambda>block s.
       case block of
         Some blk \<Rightarrow> Ret (NV_OK, Some blk) s
       | None \<Rightarrow>
         (case va_block_alloc d s of
            None \<Rightarrow> Ret (NV_ERR_NO_MEMORY, None) s
          | Some blk \<Rightarrow>
            Ret (NV_OK, Some blk) (s\<lparr>
              blocks := (blocks s)(blk := \<lparr>
                vb_start = block_calc_start (n_start (va_range_tree s) vr) index,
                vb_end = block_calc_end (n_start (va_range_tree s) vr) (n_end (va_range_tree s) vr) index,
                vb_gpu = None\<rparr>),
              range_blocks := (range_blocks s)(vr := (range_blocks s vr)[index := Some blk])\<rparr>)))"

definition no_range :: page_table_range where
  "no_range = \<lparr>pt_table = None, start_index = 0, entry_count = 0, pt_page_size = 0\<rparr>"

definition fresh_gpu_state :: gpu_state where
  "fresh_gpu_state =
     \<lparr>gs_chunks = replicate 32 None, page_table_range_2m = no_range, page_table_range_big = no_range,
      page_table_range_4k = no_range, activated_big = False, activated_4k = False, pte_is_2m = False,
      big_ptes = 0, pte_bits_read = (\<lambda>_. False), pte_bits_write = (\<lambda>_. False), pte_bits_atomic = (\<lambda>_. False)\<rparr>"

definition set_gpu_state :: "block_ptr \<Rightarrow> gpu_state option \<Rightarrow> 'p sys \<Rightarrow> 'p sys" where
  "set_gpu_state blk gs s = s\<lparr>blocks := (blocks s)(blk := (blocks s blk)\<lparr>vb_gpu := gs\<rparr>)\<rparr>"

definition block_gpu_state_get_alloc :: "'p drv \<Rightarrow> block_ptr \<Rightarrow> 'p sys \<Rightarrow> ('p, gpu_state option) handler" where
  "block_gpu_state_get_alloc d blk s =
     (case vb_gpu (blocks s blk) of
        Some gs \<Rightarrow> Ret (Some gs) s
      | None \<Rightarrow> if gpu_state_alloc d s then Ret (Some fresh_gpu_state) (set_gpu_state blk (Some fresh_gpu_state) s)
               else Ret None (set_gpu_state blk None s))"

definition uvm_va_block_clear_gpu_state :: "'p drv \<Rightarrow> block_ptr \<Rightarrow> 'p sys \<Rightarrow> 'p sys" where
  "uvm_va_block_clear_gpu_state d blk s =
     (if vb_gpu (blocks s blk) = None then s else set_gpu_state blk None (remove_gpu_va_space d blk s))"

section \<open>Mapping a handle\<close>

record map_state =
  ms_gs :: gpu_state
  ms_store :: "chunk_ptr \<Rightarrow> gpu_chunk"
  ms_membar :: uvm_membar
  ms_mask :: u64

definition map_page ::
  "va_block \<Rightarrow> block_ptr \<Rightarrow> u64 \<Rightarrow> chunk_ptr \<Rightarrow> nat \<Rightarrow> map_state \<Rightarrow> kfault + map_state" where
  "map_page b blk start_address gpu_chunk i m =
     (let page_index_4k = page16 (get_offset_index (vb_start b) (start_address + of_nat i * UVM_PAGE_SIZE_64K) UVM_PAGE_SIZE_4K);
          page_index_big = uvm_va_block_big_page_index b page_index_4k UVM_PAGE_SIZE_64K
      in sbind (at_index (gs_chunks (ms_gs m)) page_index_big) (\<lambda>old.
         sbind (at_index (allocated_chunks (ms_store m gpu_chunk)) i) (\<lambda>sub.
         sbind (deref sub) (\<lambda>subc.
           Inr (m\<lparr>ms_membar := (if old \<noteq> None then UVM_MEMBAR_GPU else UVM_MEMBAR_NONE),
                  ms_gs := (ms_gs m)\<lparr>gs_chunks := (gs_chunks (ms_gs m))[page_index_big := sub]\<rparr>,
                  ms_mask := ms_mask m OR scast (push_bit page_index_big (1 :: i32)),
                  ms_store := (ms_store m)(subc := (ms_store m subc)\<lparr>ch_va_block := Some blk\<rparr>)\<rparr>)))))"

fun map_pages ::
  "va_block \<Rightarrow> block_ptr \<Rightarrow> u64 \<Rightarrow> chunk_ptr \<Rightarrow> nat list \<Rightarrow> map_state \<Rightarrow> kfault + map_state" where
  "map_pages b blk start_address gpu_chunk [] m = Inr m"
| "map_pages b blk start_address gpu_chunk (i # is) m =
     sbind (map_page b blk start_address gpu_chunk i m) (map_pages b blk start_address gpu_chunk is)"

text \<open>
  The last step of mapping: the push that writes the entries. The TLB batch is ended before the
  batch of page-table writes is.
\<close>

definition map_push :: "mmu_hal \<Rightarrow> (chunk_ptr \<Rightarrow> gpu_chunk) \<Rightarrow> va_block \<Rightarrow> gpu_state \<Rightarrow> u64 \<Rightarrow> uvm_membar \<Rightarrow>
  kfault + gpu_state \<times> push" where
  "map_push h store b gs new_big_ptes tlb_membar =
     sbind (block_gpu_pte_write_big h store b gs (block_page_prot_gpu (Some gs) 0) new_big_ptes
              (uvm_pte_batch_begin []) uvm_tlb_batch_begin) (\<lambda>(pte_batch, tlb_batch).
       let pte_batch = pte_batch\<lparr>pb_push := uvm_tlb_batch_end (caps h) tlb_batch (pb_push pte_batch) tlb_membar\<rparr>
       in block_gpu_pte_finish_split_2m h b gs pte_batch UVM_MEMBAR_NONE)"

definition uvm_api_map_handle :: "'p drv \<Rightarrow> u64 \<Rightarrow> u64 \<Rightarrow> u64 \<Rightarrow> nat \<Rightarrow> 'p sys \<Rightarrow> ('p, NV_STATUS) handler" where
  "uvm_api_map_handle d start_address handle handle_size uuid s =
     (let end_address = start_address + handle_size - 1;
          num_big_pages = unat (handle_size div UVM_PAGE_SIZE_64K)
      in obind (lift_fault (deref (uvm_range_tree_iter_first (va_range_tree s) start_address end_address)) s) (\<lambda>va_range s.
         obind (uvm_va_range_block_create d va_range
                  (unat (get_offset_index (n_start (va_range_tree s) va_range) start_address UVM_VA_BLOCK_SIZE)) s) (\<lambda>(_, va_block) s.
         obind (lift_fault (case va_block of None \<Rightarrow> Inl Wild_Pointer | Some blk \<Rightarrow> Inr blk) s) (\<lambda>blk s.
         obind (get_gpu_by_uuid uuid s) (\<lambda>_ s.
         obind (chunk_of_handle handle handle_size s) (\<lambda>gpu_chunk s.
         obind (block_gpu_state_get_alloc d blk s) (\<lambda>gpu_state s.
         obind (lift_fault (deref gpu_state) s) (\<lambda>gs s.
         obind (lift_fault (map_pages (blocks s blk) blk start_address gpu_chunk [0..<num_big_pages]
                  \<lparr>ms_gs = gs, ms_store = chunk_store s, ms_membar = UVM_MEMBAR_NONE, ms_mask = 0\<rparr>) s) (\<lambda>m s.
           let gs = (if pt_table (page_table_range_2m (ms_gs m)) = None then block_alloc_ptes d s (ms_gs m) else ms_gs m);
               s = update_chunk gpu_chunk (\<lambda>ch. ch\<lparr>ch_va_block := Some blk\<rparr>)
                     (set_gpu_state blk (Some gs) (s\<lparr>chunk_store := ms_store m\<rparr>))
           in if \<not> block_context_alloc d s then Fail Null_Deref s
              else if push_begin d s \<noteq> NV_OK then Ret (push_begin d s) s
              else obind (lift_fault (map_push (hal d) (chunk_store s) (blocks s blk) gs (ms_mask m) (ms_membar m)) s) (\<lambda>(gs, p) s.
                Ret NV_OK (set_gpu_state blk (Some (gs\<lparr>pte_is_2m := False, big_ptes := big_ptes gs OR ms_mask m\<rparr>))
                  (s\<lparr>pushes := pushes s @ [p]\<rparr>))))))))))))"

section \<open>Cleaning up a range\<close>

definition populated_blocks :: "node_ptr \<Rightarrow> 'p sys \<Rightarrow> block_ptr list" where
  "populated_blocks vr s = map the (filter (\<lambda>b. b \<noteq> None) (range_blocks s vr))"

definition clear_one :: "'p drv \<Rightarrow> nat \<Rightarrow> block_ptr \<Rightarrow> 'p sys \<Rightarrow> ('p, unit) handler" where
  "clear_one d uuid blk s = obind (get_gpu_by_uuid uuid s) (\<lambda>_ s. Ret () (uvm_va_block_clear_gpu_state d blk s))"

definition uvm_api_cleanup_va_range :: "'p drv \<Rightarrow> u64 \<Rightarrow> u64 \<Rightarrow> nat \<Rightarrow> 'p sys \<Rightarrow> ('p, NV_STATUS) handler" where
  "uvm_api_cleanup_va_range d start_address sz uuid s =
     obind (lift_fault (deref (uvm_range_tree_iter_first (va_range_tree s) start_address (start_address + sz - 1))) s) (\<lambda>va_range s.
     obind (for_each (clear_one d uuid) (populated_blocks va_range s) s) (\<lambda>_ s. Ret NV_OK s))"

end
