(* ===== verification/Uvm_Map.thy ===== *)
theory Uvm_Map
  imports Uvm_Vattn
begin

text \<open>
  What mapping a handle does. The target of a mapping lies in one VA block of whole big pages when
  the VA range starts at a block boundary; there, the handler's page indices, chunk indices and
  entry addresses agree, the push writes exactly the entries of the mapped pages, and the order of
  its commands is known.
\<close>

unbundle bit_operations_syntax

section \<open>The block of a mapping\<close>

definition range_ok :: "u64 \<Rightarrow> u64 \<Rightarrow> bool" where
  "range_ok node_start node_end \<longleftrightarrow> 2097152 dvd unat node_start \<and> 65536 dvd unat node_end + 1 \<and> unat node_end < 2 ^ 57"

definition handle_size_ok :: "u64 \<Rightarrow> bool" where
  "handle_size_ok sz \<longleftrightarrow> sz = 65536 \<or> sz = 131072 \<or> sz = 262144"

definition big_pages :: "u64 \<Rightarrow> nat" where
  "big_pages sz = unat sz div 65536"

definition page_slot :: "u64 \<Rightarrow> nat" where
  "page_slot a = unat a mod 2097152 div 65536"

definition target_ok :: "u64 \<Rightarrow> u64 \<Rightarrow> u64 \<Rightarrow> u64 \<Rightarrow> bool" where
  "target_ok node_start node_end a sz \<longleftrightarrow> range_ok node_start node_end \<and> handle_size_ok sz \<and>
     node_start \<le> a \<and> unat a + unat sz \<le> unat node_end + 1 \<and> unat sz dvd unat a"

lemma handle_size_cases:
  assumes "handle_size_ok sz"
  obtains "unat sz = 65536" "big_pages sz = 1" | "unat sz = 131072" "big_pages sz = 2" | "unat sz = 262144" "big_pages sz = 4"
  using assms by (auto simp: handle_size_ok_def big_pages_def)

lemma handle_size_facts:
  assumes "handle_size_ok sz"
  shows "unat sz = 65536 * big_pages sz" "0 < big_pages sz" "big_pages sz \<le> 4" "big_pages sz dvd 32"
    "unat (sz div UVM_PAGE_SIZE_64K) = big_pages sz" "sz \<noteq> 0"
  using assms by (cases rule: handle_size_cases; auto simp: unat_div_distrib big_pages_def)+

lemma slot_fits:
  assumes "handle_size_ok sz" "unat sz dvd unat a"
  shows "unat a = unat a div 2097152 * 2097152 + 65536 * page_slot a" "page_slot a + big_pages sz \<le> 32"
proof -
  have "65536 dvd unat a"
    using assms by (auto simp: handle_size_facts(1) [OF assms(1)] intro: dvd_mult_left)
  then obtain q where q: "unat a = 65536 * q" by (auto elim: dvdE)
  have slot: "page_slot a = q mod 32"
    using mult_mod_right [of 65536 q 32] by (simp add: page_slot_def q)
  show "unat a = unat a div 2097152 * 2097152 + 65536 * page_slot a"
  proof -
    have "65536 * q div 2097152 = q div 32" by simp
    moreover have "q = q div 32 * 32 + q mod 32" by simp
    ultimately show ?thesis unfolding slot q by linarith
  qed
  have "big_pages sz dvd q" using assms(2) by (simp add: handle_size_facts(1) [OF assms(1)] q)
  then have "big_pages sz dvd q mod 32" using handle_size_facts(4) [OF assms(1)] by (simp add: dvd_mod)
  then show "page_slot a + big_pages sz \<le> 32"
    unfolding slot using handle_size_facts(4) [OF assms(1)] multiple_less [of "big_pages sz" "q mod 32" 32] by simp
qed

lemma target_block:
  assumes ok: "target_ok node_start node_end a sz"
    and b: "vb_start b = block_calc_start node_start (uvm_va_range_block_index node_start a)"
      "vb_end b = block_calc_end node_start node_end (uvm_va_range_block_index node_start a)"
  shows "whole_big b" "unat (vb_start b) + 65536 * page_slot a = unat a"
    "65536 * (page_slot a + big_pages sz) \<le> unat (uvm_va_block_size b)"
proof -
  have r: "2097152 dvd unat node_start" "65536 dvd unat node_end + 1" "unat node_end < 144115188075855872"
    and h: "handle_size_ok sz" and le: "node_start \<le> a" and fit: "unat a + unat sz \<le> unat node_end + 1"
    and al: "unat sz dvd unat a"
    using ok by (simp_all add: target_ok_def range_ok_def)
  note hs = handle_size_facts [OF h] and sl = slot_fits [OF h al]
  have a: "unat a \<le> unat node_end" using fit hs by linarith
  then have ae: "a \<le> node_end" by (simp add: word_le_nat_alt)
  have s: "unat (vb_start b) = unat a div 2097152 * 2097152"
  proof -
    have "unat node_start \<le> unat a div 2097152 * 2097152"
      using r(1) le by (metis div_le_mono dvd_div_mult_self mult_le_mono1 word_le_nat_alt)
    then show ?thesis using block_start_unat [OF le] a r(3) by (simp add: b(1))
  qed
  have e: "unat (vb_end b) = min (unat node_end) (unat a div 2097152 * 2097152 + 2097151)"
    using block_end_unat [OF le ae r(3)] by (simp add: b(2))
  have se: "unat (vb_start b) \<le> unat (vb_end b)" using s e a by auto
  have z: "unat (uvm_va_block_size b) = unat (vb_end b) - unat (vb_start b) + 1"
  proof -
    have "unat (vb_end b - vb_start b) = unat (vb_end b) - unat (vb_start b)"
      using se by (simp add: unat_sub_le word_le_nat_alt)
    then show ?thesis unfolding uvm_va_block_size_def using e r(3) by (subst unat_add_no_wrap) auto
  qed
  have ez: "unat (vb_start b) + unat (uvm_va_block_size b) = unat (vb_end b) + 1" using z se by linarith
  have e1: "unat (vb_end b) + 1 = min (unat node_end + 1) (unat a div 2097152 * 2097152 + 2097152)"
    using e by (simp add: min_def)
  show wb: "whole_big b"
  proof -
    have ds: "65536 dvd unat (vb_start b)" unfolding s by (intro dvd_mult) simp
    have "65536 dvd unat a div 2097152 * 2097152 + 2097152" by (intro dvd_add dvd_mult) simp_all
    then have "65536 dvd unat (vb_end b) + 1" unfolding e1 using r(2) by (simp add: min_def)
    then have dz: "65536 dvd unat (uvm_va_block_size b)"
      using ds ez by (metis dvd_add_right_iff)
    have "4096 dvd unat (vb_start b)" "4096 dvd unat (uvm_va_block_size b)"
      using ds dz dvd_trans [of 4096 65536] by auto
    moreover have "(unat (vb_start b) + unat (uvm_va_block_size b) - 1) div 2097152 = unat (vb_start b) div 2097152"
    proof -
      have "unat (vb_start b) + unat (uvm_va_block_size b) - 1 = unat (vb_end b)" using ez by simp
      moreover have "unat (vb_end b) div 2097152 = unat a div 2097152"
        using e se s by (intro div_nat_eqI) auto
      ultimately show ?thesis by (simp add: s)
    qed
    moreover have "0 < uvm_va_block_size b" using z by (simp add: word_less_nat_alt)
    moreover have "unat (vb_start b) + unat (uvm_va_block_size b) \<le> 144115188075855872"
      using ez e r(3) by auto
    ultimately show ?thesis using ds dz ez by (simp add: whole_big_def span_ok_def)
  qed
  show "unat (vb_start b) + 65536 * page_slot a = unat a" using sl(1) s by simp
  show "65536 * (page_slot a + big_pages sz) \<le> unat (uvm_va_block_size b)"
    using ez e1 s sl fit hs(1) by (auto simp: min_def algebra_simps split: if_splits)
qed

lemma target_index:
  assumes "target_ok node_start node_end a sz"
  shows "unat (get_offset_index node_start a UVM_VA_BLOCK_SIZE) = uvm_va_range_block_index node_start a"
proof -
  have le: "node_start \<le> a" and d: "2097152 dvd unat node_start"
    using assms by (simp_all add: target_ok_def range_ok_def)
  obtain q where q: "unat node_start = 2097152 * q" using d by (auto elim: dvdE)
  have "(unat a - unat node_start) div 2097152 = unat a div 2097152 - unat node_start div 2097152"
  proof -
    have "2097152 * q \<le> unat a" using le q by (simp add: word_le_nat_alt)
    then show ?thesis unfolding q by simp
  qed
  then show ?thesis
    using le by (simp add: get_offset_index_def unat_div_distrib unat_sub_le block_index_unat)
qed

section \<open>Recording the chunks\<close>

text \<open>
  \<open>in_block b k n a\<close>: the addresses of \<open>n\<close> big pages from \<open>a\<close> on are the big pages \<open>k\<close>, \<open>k + 1\<close> and so on
  of the block \<open>b\<close>.
\<close>

definition in_block :: "'a block_span_scheme \<Rightarrow> nat \<Rightarrow> nat \<Rightarrow> u64 \<Rightarrow> bool" where
  "in_block b k n a \<longleftrightarrow> whole_big b \<and> unat (vb_start b) + 65536 * k = unat a \<and> 65536 * (k + n) \<le> unat (uvm_va_block_size b)"

lemma in_block_bounds:
  assumes "in_block b k n a"
  shows "k + n \<le> 32" "unat a + 65536 * n \<le> 144115188075855872"
proof -
  have w: "whole_big b" "unat (vb_start b) + 65536 * k = unat a" "65536 * (k + n) \<le> unat (uvm_va_block_size b)"
    using assms by (simp_all add: in_block_def)
  obtain S m where b: "unat (vb_start b) = 65536 * S" "unat (uvm_va_block_size b) = 65536 * m" "m \<le> 32"
    "65536 * S + 65536 * m \<le> 144115188075855872"
    by (rule whole_bigD [OF w(1)]) blast
  show "k + n \<le> 32" "unat a + 65536 * n \<le> 144115188075855872" using w b by simp_all
qed

lemma page_of_address:
  assumes ib: "in_block b k n a" and i: "i < n"
  shows "uvm_va_block_big_page_index b
    (page16 (get_offset_index (vb_start b) (a + of_nat i * UVM_PAGE_SIZE_64K) UVM_PAGE_SIZE_4K)) UVM_PAGE_SIZE_64K = k + i"
proof -
  note bd = in_block_bounds [OF ib]
  have w: "whole_big b" "unat (vb_start b) + 65536 * k = unat a" "65536 * (k + n) \<le> unat (uvm_va_block_size b)"
    using ib by (simp_all add: in_block_def)
  have "unat (of_nat i * UVM_PAGE_SIZE_64K) = i * 65536" using i bd by (subst unat_mult_no_wrap) simp_all
  then have x: "unat (a + of_nat i * UVM_PAGE_SIZE_64K) = unat a + 65536 * i"
    using i bd by (subst unat_add_no_wrap) simp_all
  have "unat (a + of_nat i * UVM_PAGE_SIZE_64K - vb_start b) = 65536 * (k + i)"
    using x w(2) by (subst unat_sub_le) (simp_all add: word_le_nat_alt)
  then have "unat (get_offset_index (vb_start b) (a + of_nat i * UVM_PAGE_SIZE_64K) UVM_PAGE_SIZE_4K) = 16 * (k + i)"
    by (simp add: get_offset_index_def unat_div_distrib)
  then have p: "page16 (get_offset_index (vb_start b) (a + of_nat i * UVM_PAGE_SIZE_64K) UVM_PAGE_SIZE_4K) = 16 * (k + i)"
    using i bd by (simp add: page16_def)
  have "4096 * (16 * (k + i)) < unat (uvm_va_block_size b)" using w(3) i by simp
  then show ?thesis using whole_big_page_index [OF w(1)] p by simp
qed

definition same_chunks :: "(chunk_ptr \<Rightarrow> gpu_chunk) \<Rightarrow> (chunk_ptr \<Rightarrow> gpu_chunk) \<Rightarrow> bool" where
  "same_chunks st st' \<longleftrightarrow>
     (\<forall>c. ch_address (st' c) = ch_address (st c) \<and> allocated_chunks (st' c) = allocated_chunks (st c))"

lemma same_chunks_refl [simp]: "same_chunks st st"
  by (simp add: same_chunks_def)

lemma same_chunks_trans: "same_chunks st st' \<Longrightarrow> same_chunks st' st'' \<Longrightarrow> same_chunks st st''"
  by (simp add: same_chunks_def)

definition page_bit :: "nat \<Rightarrow> u64" where
  "page_bit i = scast (push_bit i (1 :: i32))"

definition set_bits_of :: "nat list \<Rightarrow> u64 \<Rightarrow> u64" where
  "set_bits_of is m = fold (\<lambda>i m. m OR page_bit i) is m"

definition put_chunks :: "nat \<Rightarrow> chunk_ptr list \<Rightarrow> chunk_ptr option list \<Rightarrow> chunk_ptr option list" where
  "put_chunks k subs cs = fold (\<lambda>i cs. cs[k + i := Some (subs ! i)]) [0..<length subs] cs"

text \<open>
  \<open>backed st c subs\<close>: the chunk object \<open>c\<close> has been split into the chunks \<open>subs\<close>.
\<close>

definition backed :: "(chunk_ptr \<Rightarrow> gpu_chunk) \<Rightarrow> chunk_ptr \<Rightarrow> chunk_ptr list \<Rightarrow> bool" where
  "backed st c subs \<longleftrightarrow> length subs \<le> length (allocated_chunks (st c)) \<and>
     (\<forall>i < length subs. allocated_chunks (st c) ! i = Some (subs ! i))"

lemma backed_same: "same_chunks st st' \<Longrightarrow> backed st' c subs = backed st c subs"
  by (simp add: backed_def same_chunks_def)

lemma map_page_eq:
  assumes "in_block b k (length subs) a" "i < length subs" "length (gs_chunks (ms_gs m)) = 32" "backed (ms_store m) c subs"
  shows "\<exists>st. same_chunks (ms_store m) st \<and> map_page b blk a c i m = Inr
    \<lparr>ms_gs = (ms_gs m)\<lparr>gs_chunks := (gs_chunks (ms_gs m))[k + i := Some (subs ! i)]\<rparr>, ms_store = st,
     ms_membar = (if gs_chunks (ms_gs m) ! (k + i) \<noteq> None then UVM_MEMBAR_GPU else UVM_MEMBAR_NONE),
     ms_mask = ms_mask m OR page_bit (k + i)\<rparr>"
proof -
  have "k + i < 32" using in_block_bounds(1) [OF assms(1)] assms(2) by simp
  moreover have "i < length (allocated_chunks (ms_store m c))" "allocated_chunks (ms_store m c) ! i = Some (subs ! i)"
    using assms(2,4) by (auto simp: backed_def)
  moreover have "same_chunks (ms_store m) ((ms_store m)(subs ! i := (ms_store m (subs ! i))\<lparr>ch_va_block := Some blk\<rparr>))"
    by (simp add: same_chunks_def)
  ultimately show ?thesis
    using assms(3) page_of_address [OF assms(1,2)] by (auto simp: map_page_def Let_def page_bit_def)
qed

lemma map_pages_eq:
  assumes "in_block b k (length subs) a" "j \<le> length subs" "length (gs_chunks (ms_gs m)) = 32" "backed (ms_store m) c subs"
  shows "\<exists>m'. map_pages b blk a c [j..<length subs] m = Inr m' \<and> same_chunks (ms_store m) (ms_store m') \<and>
    ms_gs m' = (ms_gs m)\<lparr>gs_chunks := fold (\<lambda>i cs. cs[k + i := Some (subs ! i)]) [j..<length subs] (gs_chunks (ms_gs m))\<rparr> \<and>
    ms_mask m' = set_bits_of (map ((+) k) [j..<length subs]) (ms_mask m) \<and>
    (j < length subs \<longrightarrow> ms_membar m' =
       (if gs_chunks (ms_gs m) ! (k + length subs - 1) \<noteq> None then UVM_MEMBAR_GPU else UVM_MEMBAR_NONE))"
  using assms(2-4)
proof (induction "length subs - j" arbitrary: j m)
  case 0
  then show ?case by (simp add: set_bits_of_def)
next
  case (Suc r)
  then have j: "j < length subs" by simp
  obtain st where st: "same_chunks (ms_store m) st" "map_page b blk a c j m = Inr
    \<lparr>ms_gs = (ms_gs m)\<lparr>gs_chunks := (gs_chunks (ms_gs m))[k + j := Some (subs ! j)]\<rparr>, ms_store = st,
     ms_membar = (if gs_chunks (ms_gs m) ! (k + j) \<noteq> None then UVM_MEMBAR_GPU else UVM_MEMBAR_NONE),
     ms_mask = ms_mask m OR page_bit (k + j)\<rparr>" (is "_ = Inr ?m1")
    using map_page_eq [OF assms(1) j Suc.prems(2,3)] by blast
  have "r = length subs - Suc j" "Suc j \<le> length subs" using Suc.hyps(2) j by simp_all
  from Suc.hyps(1) [OF this, of ?m1] obtain m' where m':
    "map_pages b blk a c [Suc j..<length subs] ?m1 = Inr m'" "same_chunks st (ms_store m')"
    "ms_gs m' = (ms_gs ?m1)\<lparr>gs_chunks := fold (\<lambda>i cs. cs[k + i := Some (subs ! i)]) [Suc j..<length subs] (gs_chunks (ms_gs ?m1))\<rparr>"
    "ms_mask m' = set_bits_of (map ((+) k) [Suc j..<length subs]) (ms_mask ?m1)"
    "Suc j < length subs \<longrightarrow> ms_membar m' =
       (if gs_chunks (ms_gs ?m1) ! (k + length subs - 1) \<noteq> None then UVM_MEMBAR_GPU else UVM_MEMBAR_NONE)"
    using Suc.prems st(1) by (auto simp: backed_same)
  have "[j..<length subs] = j # [Suc j..<length subs]" using j by (simp add: upt_conv_Cons)
  moreover have "ms_membar m' = (if gs_chunks (ms_gs m) ! (k + length subs - 1) \<noteq> None then UVM_MEMBAR_GPU else UVM_MEMBAR_NONE)"
  proof (cases "Suc j < length subs")
    case True
    then show ?thesis using m'(5) by simp
  next
    case False
    then have "length subs = Suc j" using j by simp
    then show ?thesis using m'(1) by auto
  qed
  ultimately show ?case
    using st m' same_chunks_trans [OF st(1) m'(2)] by (simp add: set_bits_of_def)
qed

lemma bit_page_bit: "i < 32 \<Longrightarrow> x < 32 \<Longrightarrow> bit (page_bit i) x \<longleftrightarrow> x = i"
  by (auto simp: page_bit_def bit_simps)

lemma bit_set_bits_of:
  "\<forall>i \<in> set is. i < 32 \<Longrightarrow> x < 32 \<Longrightarrow> bit (set_bits_of is m) x \<longleftrightarrow> bit m x \<or> x \<in> set is"
  by (induction "is" arbitrary: m) (auto simp: set_bits_of_def bit_or_iff bit_page_bit)

lemma big_bits_range:
  assumes "k + n \<le> 32"
  shows "big_bits (set_bits_of (map ((+) k) [0..<n]) 0) = [k..<k + n]"
proof -
  have "map ((+) k) [0..<n] = [k..<k + n]" by (rule nth_equalityI) simp_all
  then have "bit (set_bits_of (map ((+) k) [0..<n]) 0) x \<longleftrightarrow> x \<in> {k..<k + n}" if "x < 32" for x
    using assms that by (subst bit_set_bits_of) auto
  then have "big_bits (set_bits_of (map ((+) k) [0..<n]) 0) = filter (\<lambda>x. x \<in> {k..<k + n}) [0..<32]"
    unfolding big_bits_def MAX_BIG_PAGES_PER_UVM_VA_BLOCK_def by (intro filter_cong) auto
  also have "[0..<32] = [0..<k] @ [k..<k + n] @ [k + n..<32]"
    using assms upt_add_eq_append [of 0 k "32 - k"] upt_add_eq_append [of k "k + n" "32 - (k + n)"] by simp
  also have "filter (\<lambda>x. x \<in> {k..<k + n}) \<dots> = [k..<k + n]"
    by (auto simp: filter_empty_conv filter_id_conv)
  finally show ?thesis .
qed

section \<open>Writing the entries\<close>

definition hal_ok :: "mmu_hal \<Rightarrow> bool" where
  "hal_ok h \<longleftrightarrow> kb_mask (mmu_user_chunk_sizes h) \<and> big_page_size h = UVM_PAGE_SIZE_64K \<and> uvm_mmu_pte_size h 65536 = 8"

definition tables_ok :: "gpu_state \<Rightarrow> bool" where
  "tables_ok gs \<longleftrightarrow> pt_table (page_table_range_2m gs) \<noteq> None \<and> pt_table (page_table_range_big gs) \<noteq> None \<and>
     pt_page_size (page_table_range_big gs) = 65536"

definition big_pte :: "gpu_state \<Rightarrow> nat \<Rightarrow> uvm_gpu_phys_address" where
  "big_pte gs i = advance (the (pt_table (page_table_range_big gs)))
     ((ucast (start_index (page_table_range_big gs)) + of_nat i) * 8)"

definition page_request :: "'a block_span_scheme \<Rightarrow> nat \<Rightarrow> tlb_request" where
  "page_request b i = \<lparr>r_start = vb_start b + of_nat (16 * i) * PAGE_SIZE, r_size = UVM_PAGE_SIZE_64K,
     r_page_sizes = 65536, q_membar = UVM_MEMBAR_NONE\<rparr>"

definition pte_value :: "mmu_hal \<Rightarrow> u64 \<Rightarrow> uvm_prot \<Rightarrow> u64" where
  "pte_value h addr prot = make_pte h UVM_APERTURE_VID addr prot UVM_MMU_PTE_FLAGS_CACHED"

lemma ucast_64k: "(ucast UVM_PAGE_SIZE_64K :: u32) = 65536"
  by (simp add: UVM_PAGE_SIZE_64K_def)

lemma big_pte_entry:
  assumes "hal_ok h" "tables_ok gs"
  shows "uvm_page_table_range_entry_address h (page_table_range_big gs) i = Inr (big_pte gs i)"
  using assms by (auto simp: uvm_page_table_range_entry_address_def tables_ok_def hal_ok_def big_pte_def)

lemma big_page_chunk:
  assumes "hal_ok h" "whole_big b" "65536 * i < unat (uvm_va_block_size b)" "length (gs_chunks gs) = 32"
    "gs_chunks gs ! i = Some c"
  shows "block_phys_contig_region h b (16 * i) = \<lparr>first = 16 * i, outer = 16 * i + 16\<rparr>"
    "block_phys_page_address h st b gs (16 * i) = Inr \<lparr>address = ch_address (st c), aperture = UVM_APERTURE_VID\<rparr>"
proof -
  obtain n where n: "unat (uvm_va_block_size b) = 65536 * n" "n \<le> 32" by (rule whole_bigD [OF assms(2)]) blast
  have i: "i < 32" using assms(3) n by simp
  have p: "4096 * (16 * i) < unat (uvm_va_block_size b)" using assms(3) by simp
  have "kb_mask (mmu_user_chunk_sizes h)" using assms(1) by (simp add: hal_ok_def)
  then have ci: "block_gpu_chunk_index h b (16 * i) = (i, UVM_PAGE_SIZE_64K)"
    using whole_big_chunk_index [OF _ assms(2) p] i by (simp add: block_gpu_chunk_index_def)
  have cr: "uvm_va_block_chunk_region b UVM_PAGE_SIZE_64K (16 * i) = \<lparr>first = 16 * i, outer = 16 * i + 16\<rparr>"
    using whole_big_chunk_region [OF assms(2) p] by simp
  show "block_phys_contig_region h b (16 * i) = \<lparr>first = 16 * i, outer = 16 * i + 16\<rparr>"
    by (simp add: block_phys_contig_region_def ci cr)
  show "block_phys_page_address h st b gs (16 * i) = Inr \<lparr>address = ch_address (st c), aperture = UVM_APERTURE_VID\<rparr>"
    using i assms(4,5) by (simp add: block_phys_page_address_def block_phys_page_chunk_def ci cr)
qed

lemma write_big_pte_eq:
  assumes "hal_ok h" "tables_ok gs" "whole_big b" "65536 * i < unat (uvm_va_block_size b)" "length (gs_chunks gs) = 32"
    "gs_chunks gs ! i = Some c" "outer (fst contig) \<le> 16 * i"
  shows "write_big_pte h st b gs prot i contig pb tb = Inr
    ((\<lparr>first = 16 * i, outer = 16 * i + 16\<rparr>, \<lparr>address = ch_address (st c), aperture = UVM_APERTURE_VID\<rparr>),
     uvm_pte_batch_write_pte (big_pte gs i) (pte_value h (ch_address (st c)) prot) 8 pb,
     queue_request (caps h) (page_request b i) tb)"
proof -
  have h: "big_page_size h = UVM_PAGE_SIZE_64K" "uvm_mmu_pte_size h 65536 = 8" using assms(1) by (simp_all add: hal_ok_def)
  note r = whole_big_page_region [OF assms(3,4)]
  show ?thesis
    using assms(7) by (simp add: write_big_pte_def Let_def h r big_page_chunk [OF assms(1,3-6)] ucast_64k
        big_pte_entry [OF assms(1,2)] uvm_va_block_region_start_def queue_request_def page_request_def pte_value_def)
qed

definition write_entries :: "mmu_hal \<Rightarrow> (chunk_ptr \<Rightarrow> gpu_chunk) \<Rightarrow> gpu_state \<Rightarrow> uvm_prot \<Rightarrow> nat list \<Rightarrow> pte_batch \<Rightarrow> pte_batch" where
  "write_entries h st gs prot is =
     fold (\<lambda>i. uvm_pte_batch_write_pte (big_pte gs i) (pte_value h (ch_address (st (the (gs_chunks gs ! i)))) prot) 8) is"

lemma write_big_loop_eq:
  assumes "hal_ok h" "tables_ok gs" "whole_big b" "65536 * e \<le> unat (uvm_va_block_size b)" "length (gs_chunks gs) = 32"
    "\<forall>i \<in> {j..<e}. gs_chunks gs ! i \<noteq> None" "outer (fst contig) \<le> 16 * j" "j \<le> e"
  shows "write_big_loop h st b gs prot [j..<e] contig pb tb = Inr
    (write_entries h st gs prot [j..<e] pb, fold (queue_request (caps h)) (map (page_request b) [j..<e]) tb)"
  using assms(6-8)
proof (induction "e - j" arbitrary: j contig pb tb)
  case 0
  then show ?case by (simp add: write_entries_def)
next
  case (Suc r)
  then have j: "j < e" by simp
  obtain c where c: "gs_chunks gs ! j = Some c" using Suc.prems(1) j by fastforce
  have "65536 * j < unat (uvm_va_block_size b)" using assms(4) j by simp
  note w = write_big_pte_eq [OF assms(1-3) this assms(5) c Suc.prems(2), of st prot pb tb]
  have "r = e - Suc j" "Suc j \<le> e" using Suc.hyps(2) j by simp_all
  moreover have "[j..<e] = j # [Suc j..<e]" using j by (simp add: upt_conv_Cons)
  ultimately show ?case
    using Suc.hyps(1) [of "Suc j" "(\<lparr>first = 16 * j, outer = 16 * j + 16\<rparr>, \<lparr>address = ch_address (st c), aperture = UVM_APERTURE_VID\<rparr>)"]
      Suc.prems(1) w c by (simp add: write_entries_def)
qed

lemma write_big_eq:
  assumes "hal_ok h" "tables_ok gs" "in_block b k n a" "length (gs_chunks gs) = 32" "\<forall>i < n. gs_chunks gs ! (k + i) \<noteq> None"
  shows "block_gpu_pte_write_big h st b gs prot (set_bits_of (map ((+) k) [0..<n]) 0) pb tb = Inr
    (write_entries h st gs prot [k..<k + n] pb, fold (queue_request (caps h)) (map (page_request b) [k..<k + n]) tb)"
proof -
  have w: "whole_big b" "65536 * (k + n) \<le> unat (uvm_va_block_size b)" using assms(3) by (simp_all add: in_block_def)
  have "\<forall>i \<in> {k..<k + n}. gs_chunks gs ! i \<noteq> None"
    using assms(5) by (metis atLeastLessThan_iff le_add_diff_inverse nat_add_left_cancel_less)
  then show ?thesis
    using write_big_loop_eq [OF assms(1,2) w assms(4)]
    by (simp add: block_gpu_pte_write_big_def big_bits_range [OF in_block_bounds(1) [OF assms(3)]])
qed

text \<open>What writing the entries does to memory.\<close>

definition entries_mem :: "mmu_hal \<Rightarrow> (chunk_ptr \<Rightarrow> gpu_chunk) \<Rightarrow> gpu_state \<Rightarrow> uvm_prot \<Rightarrow> nat list \<Rightarrow> gpu_mem \<Rightarrow> gpu_mem" where
  "entries_mem h st gs prot is =
     fold (\<lambda>i m. m(big_pte gs i := pte_value h (ch_address (st (the (gs_chunks gs ! i)))) prot)) is"

text \<open>
  At most four consecutive entries stay in the queue of the batch: nothing is pushed and no inline
  fragment is open.
\<close>

lemma big_pte_next: "big_pte gs (k + j) = advance (big_pte gs k) (of_nat j * 8)"
  by (simp add: big_pte_def algebra_simps)

lemma phys_address_eq: "uvm_gpu_phys_address_eq a b \<longleftrightarrow> a = b"
  by (cases a; cases b) (simp add: uvm_gpu_phys_address_eq_def)

definition entry_values :: "mmu_hal \<Rightarrow> (chunk_ptr \<Rightarrow> gpu_chunk) \<Rightarrow> gpu_state \<Rightarrow> uvm_prot \<Rightarrow> nat list \<Rightarrow> u64 list" where
  "entry_values h st gs prot is = map (\<lambda>i. pte_value h (ch_address (st (the (gs_chunks gs ! i)))) prot) is"

definition table_membar :: "gpu_state \<Rightarrow> uvm_membar" where
  "table_membar gs = (if aperture (big_pte gs 0) = UVM_APERTURE_SYS then UVM_MEMBAR_SYS else UVM_MEMBAR_GPU)"

lemma aperture_big_pte: "aperture (big_pte gs i) = aperture (big_pte gs 0)"
  by (simp add: big_pte_def)

lemma write_entries_queued:
  assumes "n \<le> 4"
  shows "let pb = write_entries h st gs prot [k..<k + n] (uvm_pte_batch_begin []) in
    pb_push pb = [] \<and> \<not> inlining pb \<and> pte_count pb = n \<and> length (pte_bits_queue pb) = 4 \<and>
    (0 < n \<longrightarrow> pte_first_address pb = big_pte gs k \<and> pte_entry_size pb = 8) \<and>
    pb_membar pb = (if n = 0 then UVM_MEMBAR_GPU else table_membar gs) \<and>
    take n (pte_bits_queue pb) = entry_values h st gs prot [k..<k + n]"
  using assms
proof (induction n)
  case 0
  then show ?case by (simp add: write_entries_def entry_values_def uvm_pte_batch_begin_def UVM_PTE_BATCH_MAX_PTES_def)
next
  case (Suc n)
  let ?v = "pte_value h (ch_address (st (the (gs_chunks gs ! (k + n))))) prot"
  define pb where "pb = write_entries h st gs prot [k..<k + n] (uvm_pte_batch_begin [])"
  have IH: "pb_push pb = []" "\<not> inlining pb" "pte_count pb = n" "length (pte_bits_queue pb) = 4"
    "0 < n \<longrightarrow> pte_first_address pb = big_pte gs k \<and> pte_entry_size pb = 8"
    "pb_membar pb = (if n = 0 then UVM_MEMBAR_GPU else table_membar gs)"
    "take n (pte_bits_queue pb) = entry_values h st gs prot [k..<k + n]"
    using Suc by (simp_all add: pb_def Let_def)
  have n: "n < 4" using Suc.prems by simp
  have step: "write_entries h st gs prot [k..<k + Suc n] (uvm_pte_batch_begin []) =
      uvm_pte_batch_write_pte (big_pte gs (k + n)) ?v 8 pb"
    by (simp add: write_entries_def pb_def)
  have tk: "take (Suc n) ((pte_bits_queue pb)[n := ?v]) = take n (pte_bits_queue pb) @ [?v]"
    using n IH(4) by (simp add: take_Suc_conv_app_nth)
  have ev: "entry_values h st gs prot [k..<k + Suc n] = entry_values h st gs prot [k..<k + n] @ [?v]"
    by (simp add: entry_values_def)
  show ?case
  proof (cases "n = 0")
    case True
    then show ?thesis
      using IH tk aperture_big_pte [of gs k] unfolding step ev
      by (auto simp: uvm_pte_batch_write_pte_def uvm_pte_batch_write_consecutive_def uvm_pte_batch_flush_ptes_def Let_def
          note_sysmem_def UVM_PTE_BATCH_MAX_PTES_def phys_address_eq table_membar_def)
  next
    case False
    have "uvm_gpu_phys_address_eq (big_pte gs (k + n)) (advance (big_pte gs k) (of_nat (nv32 (n * 8))))"
      using n by (simp add: phys_address_eq big_pte_next)
    then show ?thesis
      using False IH tk n aperture_big_pte [of gs "k + n"] unfolding step ev
      by (auto simp: uvm_pte_batch_write_pte_def uvm_pte_batch_write_consecutive_def Let_def max_size
          note_sysmem_def UVM_PTE_BATCH_MAX_PTES_def table_membar_def)
  qed
qed

section \<open>The push of a mapping\<close>

lemma tlb_end_append: "uvm_tlb_batch_end c b p mb = p @ uvm_tlb_batch_end c b [] mb"
  by (simp add: uvm_tlb_batch_end_def tlb_batch_flush_invalidate_all_def tlb_batch_flush_invalidate_per_va_def Let_def)

definition pde_address :: "mmu_hal \<Rightarrow> gpu_state \<Rightarrow> uvm_gpu_phys_address" where
  "pde_address h gs = advance (the (pt_table (page_table_range_2m gs)))
     (ucast (start_index (page_table_range_2m gs)) * of_nat (uvm_mmu_pte_size h (pt_page_size (page_table_range_2m gs))))"

definition pde_words :: "mmu_hal \<Rightarrow> gpu_state \<Rightarrow> u64 list" where
  "pde_words h gs = make_pde h [pt_table (page_table_range_big gs), pt_table (page_table_range_4k gs)]"

definition pde_cmds :: "mmu_hal \<Rightarrow> gpu_state \<Rightarrow> push" where
  "pde_cmds h gs = pde_fill_gpu h (uvm_mmu_pte_size h (pt_page_size (page_table_range_2m gs))) (pde_address h gs)
     [pt_table (page_table_range_big gs), pt_table (page_table_range_4k gs)]
     (if aperture (pde_address h gs) = UVM_APERTURE_VID then [UVM_PUSH_FLAG_NEXT_MEMBAR_GPU] else []) []"

definition pde_mem :: "mmu_hal \<Rightarrow> gpu_state \<Rightarrow> gpu_mem \<Rightarrow> gpu_mem" where
  "pde_mem h gs = write_words (pde_address h gs)
     (if uvm_mmu_pte_size h (pt_page_size (page_table_range_2m gs)) = 8 then [hd (pde_words h gs)] else take 2 (pde_words h gs))"

definition block_request :: "'a block_span_scheme \<Rightarrow> tlb_request" where
  "block_request b = \<lparr>r_start = vb_start b, r_size = UVM_PAGE_SIZE_2M, r_page_sizes = ucast UVM_PAGE_SIZE_2M,
     q_membar = UVM_MEMBAR_NONE\<rparr>"

definition tlb_cmds :: "tlb_caps \<Rightarrow> tlb_request list \<Rightarrow> uvm_membar \<Rightarrow> push" where
  "tlb_cmds c qs mb = uvm_tlb_batch_end c (queued c qs) [] mb"

definition map_layout :: "mmu_hal \<Rightarrow> (chunk_ptr \<Rightarrow> gpu_chunk) \<Rightarrow> 'a block_span_scheme \<Rightarrow> gpu_state \<Rightarrow> nat \<Rightarrow> nat \<Rightarrow> uvm_membar \<Rightarrow> push" where
  "map_layout h st b gs k n mb =
     tlb_cmds (caps h) (map (page_request b) [k..<k + n]) mb @
     memset_each (big_pte gs k) 8 (entry_values h st gs UVM_PROT_NONE [k..<k + n]) @
     [Wait_For_Idle, Membar (table_membar gs)] @
     pde_cmds h gs @ [Wait_For_Idle] @ tlb_cmds (caps h) [block_request b] UVM_MEMBAR_NONE"

definition activated :: "gpu_state \<Rightarrow> gpu_state" where
  "activated gs = gs\<lparr>activated_big := activated_big gs \<or> pt_table (page_table_range_big gs) \<noteq> None,
     activated_4k := activated_4k gs \<or> pt_table (page_table_range_4k gs) \<noteq> None\<rparr>"

lemma fill_append: "pde_fill_gpu h e a ps fs p = p @ pde_fill_gpu h e a ps fs []"
  by (simp add: pde_fill_gpu_def Let_def uvm_push_inline_data_end_def)

lemma write_pde_eq:
  assumes "pt_table (page_table_range_2m gs) \<noteq> None"
  shows "block_gpu_write_pde h b gs p tb =
    Inr (activated gs, p @ pde_cmds h gs @ [Wait_For_Idle], queue_request (caps h) (block_request b) tb)"
proof -
  obtain t where t: "pt_table (page_table_range_2m gs) = Some t" using assms by blast
  have a: "uvm_page_table_range_entry_address h (page_table_range_2m gs) 0 = Inr (pde_address h gs)"
    by (simp add: uvm_page_table_range_entry_address_def pde_address_def t)
  have "aperture t = aperture (pde_address h gs)" by (simp add: pde_address_def t)
  then show ?thesis
    unfolding block_gpu_write_pde_def uvm_page_tree_write_pde_def a pde_cmds_def
    by (subst fill_append) (simp add: t uvm_page_table_range_aperture_def activated_def queue_request_def block_request_def)
qed

lemma map_push_eq:
  assumes "hal_ok h" "tables_ok gs" "in_block b k n a" "length (gs_chunks gs) = 32" "\<forall>i < n. gs_chunks gs ! (k + i) \<noteq> None"
    "0 < n" "n \<le> 4" "block_page_prot_gpu (Some gs) 0 = UVM_PROT_NONE"
  shows "map_push h st b gs (set_bits_of (map ((+) k) [0..<n]) 0) mb = Inr (activated gs, map_layout h st b gs k n mb)"
proof -
  define pb where "pb = write_entries h st gs UVM_PROT_NONE [k..<k + n] (uvm_pte_batch_begin [])"
  have q: "pb_push pb = []" "\<not> inlining pb" "pte_count pb = n" "pte_first_address pb = big_pte gs k" "pte_entry_size pb = 8"
    "pb_membar pb = table_membar gs" "take n (pte_bits_queue pb) = entry_values h st gs UVM_PROT_NONE [k..<k + n]"
    using write_entries_queued [OF assms(7), of h st gs UVM_PROT_NONE k] assms(6) by (simp_all add: pb_def Let_def)
  have w: "block_gpu_pte_write_big h st b gs UVM_PROT_NONE (set_bits_of (map ((+) k) [0..<n]) 0) (uvm_pte_batch_begin [])
      uvm_tlb_batch_begin = Inr (pb, queued (caps h) (map (page_request b) [k..<k + n]))"
    using write_big_eq [OF assms(1-5)] by (simp add: pb_def queued_def)
  have e: "pb_push (uvm_pte_batch_end (pb\<lparr>pb_push := p\<rparr>)) =
      p @ memset_each (big_pte gs k) 8 (entry_values h st gs UVM_PROT_NONE [k..<k + n]) @
      [Wait_For_Idle, Membar (table_membar gs)]" for p
    using q assms(6) by (simp add: uvm_pte_batch_end_def uvm_pte_batch_flush_ptes_def uvm_pte_batch_flush_ptes_memset_def Let_def
        uvm_hal_wfi_membar_def uvm_hal_membar_def table_membar_def)
  have t: "pt_table (page_table_range_2m gs) \<noteq> None" using assms(2) by (simp add: tables_ok_def)
  have b: "queue_request (caps h) r uvm_tlb_batch_begin = queued (caps h) [r]" for r by (simp add: queued_def)
  show ?thesis
    unfolding map_push_def block_gpu_pte_finish_split_2m_def map_layout_def tlb_cmds_def
    by (simp add: assms(8) w q(1) e write_pde_eq [OF t] b Let_def)
       (subst tlb_end_append, simp)
qed

lemma run_tlb_cmds [simp]: "run_push (tlb_cmds c qs mb) m = m"
proof -
  have "fold run_cmd (map (\<lambda>i. per_va_cmd c (r i) (f i)) is) m = m" for r f and "is" :: "nat list"
    by (induction "is") (simp_all add: per_va_cmd_def)
  then show ?thesis
    by (simp add: tlb_cmds_def uvm_tlb_batch_end_def tlb_batch_flush_invalidate_all_def
        tlb_batch_flush_invalidate_per_va_def Let_def run_push_def)
qed

lemma run_pde_cmds: "run_push (pde_cmds h gs) m = pde_mem h gs m"
  by (simp add: pde_cmds_def pde_mem_def pde_fill_gpu_def Let_def pde_words_def)

lemma run_memsets:
  "run_push (memset_each (big_pte gs k) 8 (entry_values h st gs prot [k..<k + n])) m = entries_mem h st gs prot [k..<k + n] m"
proof -
  have "write_words (big_pte gs k) (entry_values h st gs prot [k..<k + n]) m = entries_mem h st gs prot [k..<k + n] m"
    by (induction n) (simp_all add: entry_values_def entries_mem_def write_words_snoc big_pte_next)
  then show ?thesis by (simp add: run_memset_each)
qed

lemma run_map_layout:
  "run_push (map_layout h st b gs k n mb) m = pde_mem h gs (entries_mem h st gs UVM_PROT_NONE [k..<k + n] m)"
  by (simp add: map_layout_def run_pde_cmds run_memsets)

end
