(* ===== verification/Uvm_Map_Correct.thy ===== *)
theory Uvm_Map_Correct
  imports Uvm_Map
begin

text \<open>
  The mapping handler as a whole: what a successful call leaves in the driver's state and in the
  page tables of the GPU, and in which order the GPU is told.
\<close>

unbundle bit_operations_syntax

section \<open>Before the call\<close>

definition gs_ok :: "gpu_state \<Rightarrow> bool" where
  "gs_ok gs \<longleftrightarrow> length (gs_chunks gs) = 32 \<and> block_page_prot_gpu (Some gs) 0 = UVM_PROT_NONE \<and>
     (pt_table (page_table_range_2m gs) \<noteq> None \<longrightarrow> tables_ok gs)"

definition span_of :: "'p sys \<Rightarrow> node_ptr \<Rightarrow> nat \<Rightarrow> 'a block_span_scheme \<Rightarrow> bool" where
  "span_of s vr i b \<longleftrightarrow> vb_start b = block_calc_start (n_start (va_range_tree s) vr) i \<and>
     vb_end b = block_calc_end (n_start (va_range_tree s) vr) (n_end (va_range_tree s) vr) i"

definition block_ok :: "'p sys \<Rightarrow> node_ptr \<Rightarrow> nat \<Rightarrow> bool" where
  "block_ok s vr i \<longleftrightarrow> i < length (range_blocks s vr) \<and>
     (case range_blocks s vr ! i of None \<Rightarrow> True
      | Some blk \<Rightarrow> span_of s vr i (blocks s blk) \<and> (case vb_gpu (blocks s blk) of None \<Rightarrow> True | Some gs \<Rightarrow> gs_ok gs))"

text \<open>
  What the handler relies on: the allocators do not run out of memory, a push can begin, and
  allocating page tables provides the directory entry and the table of big entries and keeps the
  rest of the state of the block.
\<close>

definition keeps_pages :: "gpu_state \<Rightarrow> gpu_state \<Rightarrow> bool" where
  "keeps_pages gs gs' \<longleftrightarrow> gs_chunks gs' = gs_chunks gs \<and> big_ptes gs' = big_ptes gs \<and>
     block_page_prot_gpu (Some gs') 0 = block_page_prot_gpu (Some gs) 0"

definition allocators_ok :: "'p drv \<Rightarrow> bool" where
  "allocators_ok d \<longleftrightarrow> (\<forall>s. va_block_alloc d s \<noteq> None \<and> gpu_state_alloc d s \<and> block_context_alloc d s \<and> push_begin d s = NV_OK) \<and>
     (\<forall>s gs. pt_table (page_table_range_2m gs) = None \<longrightarrow>
        tables_ok (block_alloc_ptes d s gs) \<and> keeps_pages gs (block_alloc_ptes d s gs))"

definition block_before :: "'p drv \<Rightarrow> 'p sys \<Rightarrow> node_ptr \<Rightarrow> nat \<Rightarrow> block_ptr" where
  "block_before d s vr i = (case range_blocks s vr ! i of None \<Rightarrow> the (va_block_alloc d s) | Some blk \<Rightarrow> blk)"

definition gs_before :: "'p sys \<Rightarrow> node_ptr \<Rightarrow> nat \<Rightarrow> gpu_state" where
  "gs_before s vr i = (case range_blocks s vr ! i of None \<Rightarrow> fresh_gpu_state
     | Some blk \<Rightarrow> (case vb_gpu (blocks s blk) of None \<Rightarrow> fresh_gpu_state | Some gs \<Rightarrow> gs))"

definition placeable :: "'p drv \<Rightarrow> u64 \<Rightarrow> u64 \<Rightarrow> 'p sys \<Rightarrow> node_ptr \<Rightarrow> bool" where
  "placeable d a sz s vr \<longleftrightarrow>
     hal_ok (hal d) \<and> allocators_ok d \<and>
     uvm_range_tree_iter_first (va_range_tree s) a (a + sz - 1) = Some vr \<and>
     target_ok (n_start (va_range_tree s) vr) (n_end (va_range_tree s) vr) a sz \<and>
     block_ok s vr (uvm_va_range_block_index (n_start (va_range_tree s) vr) a)"

definition mappable :: "'p drv \<Rightarrow> u64 \<Rightarrow> u64 \<Rightarrow> u64 \<Rightarrow> 'p sys \<Rightarrow> node_ptr \<Rightarrow> chunk_ptr \<Rightarrow> chunk_ptr list \<Rightarrow> bool" where
  "mappable d a handle sz s vr c subs \<longleftrightarrow> placeable d a sz s vr \<and>
     chunk_of_handle handle sz s = Ret c s \<and> backed (chunk_store s) c subs \<and> length subs = big_pages sz"

section \<open>Opening the block\<close>

definition frame :: "block_ptr \<Rightarrow> node_ptr \<Rightarrow> nat \<Rightarrow> 'p sys \<Rightarrow> 'p sys \<Rightarrow> bool" where
  "frame blk vr i s s' \<longleftrightarrow> va_range_tree s' = va_range_tree s \<and> root_chunks s' = root_chunks s \<and> gpu_uuid s' = gpu_uuid s \<and>
     pmm_private s' = pmm_private s \<and> (\<forall>b. b \<noteq> blk \<longrightarrow> blocks s' b = blocks s b) \<and>
     range_blocks s' = (range_blocks s)(vr := (range_blocks s vr)[i := Some blk])"

lemma fresh_ok: "gs_ok fresh_gpu_state"
  by (simp add: gs_ok_def fresh_gpu_state_def block_page_prot_gpu_def no_range_def)

lemma prot_chunks [simp]: "block_page_prot_gpu (Some (gs\<lparr>gs_chunks := cs\<rparr>)) p = block_page_prot_gpu (Some gs) p"
  by (simp add: block_page_prot_gpu_def cong: if_cong)

lemma gs_before_ok: "block_ok s vr i \<Longrightarrow> gs_ok (gs_before s vr i)"
  by (auto simp: block_ok_def gs_before_def fresh_ok split: option.splits)

lemma chunk_of_handle_same:
  assumes "chunk_of_handle h sz s = Ret c s" "chunk_store s' = chunk_store s" "root_chunks s' = root_chunks s"
  shows "chunk_of_handle h sz s' = Ret c s'"
  using assms
  by (auto simp: chunk_of_handle_def uvm_pmm_get_root_chunk_from_address_def root_chunk_from_address_def offset_index_def
      lift_fault_def obind_def split: outcome.splits sum.splits if_splits)

lemma open_block:
  assumes "block_ok s vr i" "allocators_ok d"
  obtains s1 s2 where "uvm_va_range_block_create d vr i s = Ret (NV_OK, Some (block_before d s vr i)) s1"
    "block_gpu_state_get_alloc d (block_before d s vr i) s1 = Ret (Some (gs_before s vr i)) s2"
    "frame (block_before d s vr i) vr i s s2" "chunk_store s2 = chunk_store s" "pushes s2 = pushes s"
    "chunk_store s1 = chunk_store s" "root_chunks s1 = root_chunks s" "gpu_uuid s1 = gpu_uuid s"
    "span_of s vr i (blocks s2 (block_before d s vr i))"
proof -
  let ?blk = "block_before d s vr i"
  have i: "i < length (range_blocks s vr)" using assms(1) by (simp add: block_ok_def)
  have ga: "gpu_state_alloc d t" for t using assms(2) by (simp add: allocators_ok_def)
  obtain new where new: "va_block_alloc d s = Some new" using assms(2) unfolding allocators_ok_def by fast
  define s1 where "s1 = snd (case uvm_va_range_block_create d vr i s of Ret r t \<Rightarrow> (r, t))"
  define s2 where "s2 = (if vb_gpu (blocks s1 ?blk) = None then set_gpu_state ?blk (Some fresh_gpu_state) s1 else s1)"
  have c: "uvm_va_range_block_create d vr i s = Ret (NV_OK, Some ?blk) s1 \<and>
      vb_gpu (blocks s1 ?blk) = (case range_blocks s vr ! i of None \<Rightarrow> None | Some blk \<Rightarrow> vb_gpu (blocks s blk)) \<and>
      span_of s vr i (blocks s1 ?blk) \<and> frame ?blk vr i s s1 \<and> chunk_store s1 = chunk_store s \<and> pushes s1 = pushes s"
  proof (cases "range_blocks s vr ! i")
    case None
    then show ?thesis
      using i new by (simp add: s1_def uvm_va_range_block_create_def block_before_def frame_def span_of_def)
  next
    case (Some blk)
    have "(range_blocks s vr)[i := Some blk] = range_blocks s vr" using Some by (metis list_update_id)
    then show ?thesis
      using Some i assms(1) by (simp add: s1_def uvm_va_range_block_create_def block_before_def frame_def block_ok_def)
  qed
  have g: "block_gpu_state_get_alloc d ?blk s1 = Ret (Some (gs_before s vr i)) s2"
    using c ga by (auto simp: block_gpu_state_get_alloc_def s2_def gs_before_def split: option.splits)
  show ?thesis
    using c g by (intro that [of s1 s2]) (auto simp: s2_def frame_def set_gpu_state_def span_of_def)
qed

section \<open>The whole call\<close>

lemma layout_same_chunks: "same_chunks st st' \<Longrightarrow> map_layout h st' b gs k n mb = map_layout h st b gs k n mb"
  by (simp add: map_layout_def entry_values_def same_chunks_def)

lemma layout_same_tables:
  assumes "page_table_range_2m gs' = page_table_range_2m gs" "page_table_range_big gs' = page_table_range_big gs"
    "page_table_range_4k gs' = page_table_range_4k gs" "gs_chunks gs' = gs_chunks gs" "vb_start b' = vb_start b"
  shows "map_layout h st b' gs' k n mb = map_layout h st b gs k n mb"
proof -
  have "big_pte gs' = big_pte gs" using assms by (simp add: fun_eq_iff big_pte_def)
  moreover have "pde_cmds h gs' = pde_cmds h gs" using assms by (simp add: pde_cmds_def pde_address_def)
  moreover have "page_request b' = page_request b" "block_request b' = block_request b"
    using assms by (simp_all add: fun_eq_iff page_request_def block_request_def)
  ultimately show ?thesis using assms by (simp add: map_layout_def entry_values_def table_membar_def)
qed

lemma put_chunks_length [simp]: "length (put_chunks k subs cs) = length cs"
proof -
  have "length (fold (\<lambda>i cs. cs[k + i := Some (subs ! i)]) is cs) = length cs" for "is"
    by (induction "is" arbitrary: cs) simp_all
  then show ?thesis by (simp add: put_chunks_def)
qed

lemma put_chunks_nth:
  assumes "k + length subs \<le> length cs" "j < length cs"
  shows "put_chunks k subs cs ! j = (if k \<le> j \<and> j < k + length subs then Some (subs ! (j - k)) else cs ! j)"
proof -
  have "length (fold (\<lambda>i cs. cs[k + i := Some (subs ! i)]) [0..<n] cs) = length cs \<and>
      fold (\<lambda>i cs. cs[k + i := Some (subs ! i)]) [0..<n] cs ! j = (if k \<le> j \<and> j < k + n then Some (subs ! (j - k)) else cs ! j)"
    if "n \<le> length subs" for n
    using that by (induction n) (use assms in \<open>auto simp: nth_list_update\<close>)
  then show "put_chunks k subs cs ! j = (if k \<le> j \<and> j < k + length subs then Some (subs ! (j - k)) else cs ! j)"
    by (simp add: put_chunks_def)
qed

definition last_membar :: "gpu_state \<Rightarrow> nat \<Rightarrow> nat \<Rightarrow> uvm_membar" where
  "last_membar gs k n = (if gs_chunks gs ! (k + n - 1) \<noteq> None then UVM_MEMBAR_GPU else UVM_MEMBAR_NONE)"

lemma map_handle_steps:
  assumes "uvm_range_tree_iter_first (va_range_tree s) a (a + sz - 1) = Some vr"
    "uvm_va_range_block_create d vr (unat (get_offset_index (n_start (va_range_tree s) vr) a UVM_VA_BLOCK_SIZE)) s = Ret (st, Some blk) s1"
    "gpu_uuid s1 = uuid" "chunk_of_handle handle sz s1 = Ret c s1" "block_gpu_state_get_alloc d blk s1 = Ret (Some gs0) s2"
    "map_pages (blocks s2 blk) blk a c [0..<unat (sz div UVM_PAGE_SIZE_64K)]
       \<lparr>ms_gs = gs0, ms_store = chunk_store s2, ms_membar = UVM_MEMBAR_NONE, ms_mask = 0\<rparr> = Inr m"
    "(if pt_table (page_table_range_2m (ms_gs m)) = None then block_alloc_ptes d s2 (ms_gs m) else ms_gs m) = gs"
    "update_chunk c (\<lambda>ch. ch\<lparr>ch_va_block := Some blk\<rparr>) (set_gpu_state blk (Some gs) (s2\<lparr>chunk_store := ms_store m\<rparr>)) = s3"
    "block_context_alloc d s3" "push_begin d s3 = NV_OK"
    "map_push (hal d) (chunk_store s3) (blocks s3 blk) gs (ms_mask m) (ms_membar m) = Inr (gs', p)"
  shows "uvm_api_map_handle d a handle sz uuid s = Ret NV_OK
    (set_gpu_state blk (Some (gs'\<lparr>pte_is_2m := False, big_ptes := big_ptes gs' OR ms_mask m\<rparr>)) (s3\<lparr>pushes := pushes s3 @ [p]\<rparr>))"
  unfolding uvm_api_map_handle_def Let_def by (simp add: assms get_gpu_by_uuid_def del: size_simps)

lemma map_handle_run:
  fixes a :: u64 and subs :: "chunk_ptr list" and vr :: node_ptr and d :: "'p drv" and s :: "'p sys"
  assumes m: "mappable d a handle sz s vr c subs"
  defines "i \<equiv> uvm_va_range_block_index (n_start (va_range_tree s) vr) a"
  defines "k \<equiv> page_slot a" and "n \<equiv> length subs" and "blk \<equiv> block_before d s vr i" and "gs0 \<equiv> gs_before s vr i"
  shows "\<exists>s' gs. uvm_api_map_handle d a handle sz (gpu_uuid s) s = Ret NV_OK s' \<and> frame blk vr i s s' \<and>
    same_chunks (chunk_store s) (chunk_store s') \<and> vb_gpu (blocks s' blk) = Some gs \<and> span_of s vr i (blocks s' blk) \<and>
    tables_ok gs \<and> gs_chunks gs = put_chunks k subs (gs_chunks gs0) \<and>
    big_ptes gs = big_ptes gs0 OR set_bits_of (map ((+) k) [0..<n]) 0 \<and> \<not> pte_is_2m gs \<and>
    pushes s' = pushes s @ [map_layout (hal d) (chunk_store s) (blocks s' blk) gs k n (last_membar gs0 k n)]"
proof -
  have h: "hal_ok (hal d)" and al: "allocators_ok d" and first: "uvm_range_tree_iter_first (va_range_tree s) a (a + sz - 1) = Some vr"
    and t: "target_ok (n_start (va_range_tree s) vr) (n_end (va_range_tree s) vr) a sz" and b: "block_ok s vr i"
    and ch: "chunk_of_handle handle sz s = Ret c s" and bk: "backed (chunk_store s) c subs" and n: "n = big_pages sz"
    using m by (simp_all add: mappable_def placeable_def i_def n_def)
  obtain s1 s2 where s12: "uvm_va_range_block_create d vr i s = Ret (NV_OK, Some blk) s1"
    "block_gpu_state_get_alloc d blk s1 = Ret (Some gs0) s2" "frame blk vr i s s2" "chunk_store s2 = chunk_store s"
    "pushes s2 = pushes s" "chunk_store s1 = chunk_store s" "root_chunks s1 = root_chunks s" "gpu_uuid s1 = gpu_uuid s"
    "span_of s vr i (blocks s2 blk)"
    using open_block [OF b al] unfolding blk_def gs0_def by blast
  have hs: "handle_size_ok sz" using t by (simp add: target_ok_def)
  have num: "unat (sz div UVM_PAGE_SIZE_64K) = n" "0 < n" "n \<le> 4" using handle_size_facts [OF hs] n by simp_all
  have ib: "in_block (blocks s2 blk) k n a"
    using target_block [OF t, of "blocks s2 blk"] s12(9) n by (simp add: in_block_def span_of_def i_def k_def)
  have g0: "gs_ok gs0" using gs_before_ok [OF b] by (simp add: gs0_def)
  define m0 where "m0 = \<lparr>ms_gs = gs0, ms_store = chunk_store s, ms_membar = UVM_MEMBAR_NONE, ms_mask = 0\<rparr>"
  obtain m' where m': "map_pages (blocks s2 blk) blk a c [0..<n] m0 = Inr m'" "same_chunks (chunk_store s) (ms_store m')"
    "ms_gs m' = gs0\<lparr>gs_chunks := put_chunks k subs (gs_chunks gs0)\<rparr>" "ms_mask m' = set_bits_of (map ((+) k) [0..<n]) 0"
    "ms_membar m' = last_membar gs0 k n"
    using map_pages_eq [of "blocks s2 blk" k subs a 0 m0 c blk] ib bk g0 num(2)
    by (auto simp: m0_def n_def gs_ok_def put_chunks_def last_membar_def)
  define gs where "gs = (if pt_table (page_table_range_2m (ms_gs m')) = None then block_alloc_ptes d s2 (ms_gs m') else ms_gs m')"
  have gs: "tables_ok gs" "keeps_pages (ms_gs m') gs"
    using al g0 m'(3) by (auto simp: gs_def allocators_ok_def gs_ok_def tables_ok_def keeps_pages_def)
  define s3 where "s3 = update_chunk c (\<lambda>ch. ch\<lparr>ch_va_block := Some blk\<rparr>)
    (set_gpu_state blk (Some gs) (s2\<lparr>chunk_store := ms_store m'\<rparr>))"
  have s3: "same_chunks (chunk_store s) (chunk_store s3)" "vb_start (blocks s3 blk) = vb_start (blocks s2 blk)"
    "vb_end (blocks s3 blk) = vb_end (blocks s2 blk)"
    using m'(2) by (auto simp: s3_def update_chunk_def set_gpu_state_def same_chunks_def)
  have k32: "k + n \<le> 32" using in_block_bounds(1) [OF ib] .
  have cs: "gs_chunks gs = put_chunks k subs (gs_chunks gs0)" "length (gs_chunks gs) = 32"
    "\<forall>j < n. gs_chunks gs ! (k + j) \<noteq> None"
    using gs(2) m'(3) g0 k32 num(2) put_chunks_nth [of k subs "gs_chunks gs0"]
    by (auto simp: keeps_pages_def gs_ok_def n_def)
  have ib3: "in_block (blocks s3 blk) k n a"
    using ib s3(2,3) by (simp add: in_block_def whole_big_def span_ok_def uvm_va_block_size_def)
  have prot: "block_page_prot_gpu (Some gs) 0 = UVM_PROT_NONE"
    using gs(2) m'(3) g0 by (simp add: keeps_pages_def gs_ok_def)
  note push = map_push_eq [OF h gs(1) ib3 cs(2,3) num(2,3) prot, of "chunk_store s3" "last_membar gs0 k n"]
  define gs' where "gs' = (activated gs)\<lparr>pte_is_2m := False, big_ptes := big_ptes gs OR ms_mask m'\<rparr>"
  define s' where "s' = set_gpu_state blk (Some gs') (s3\<lparr>pushes := pushes s3 @
    [map_layout (hal d) (chunk_store s3) (blocks s3 blk) gs k n (last_membar gs0 k n)]\<rparr>)"
  have run: "uvm_api_map_handle d a handle sz (gpu_uuid s) s = Ret NV_OK s'"
  proof -
    have "chunk_of_handle handle sz s1 = Ret c s1" using chunk_of_handle_same [OF ch s12(6,7)] .
    moreover have "block_context_alloc d s3" "push_begin d s3 = NV_OK" using al by (simp_all add: allocators_ok_def)
    ultimately show ?thesis
      unfolding s'_def gs'_def
      using map_handle_steps [of s a sz vr d NV_OK blk s1 "gpu_uuid s" handle c gs0 s2 m' gs s3 "activated gs"]
        s12(1,2,4,8) first target_index [OF t] num(1) m' push
      by (simp add: i_def [symmetric] m0_def gs_def s3_def activated_def)
  qed
  moreover have "frame blk vr i s s'"
    using s12(3) by (simp add: s'_def s3_def frame_def set_gpu_state_def update_chunk_def)
  moreover have "map_layout (hal d) (chunk_store s3) (blocks s3 blk) gs k n mb = map_layout (hal d) (chunk_store s) (blocks s' blk) gs' k n mb" for mb
    unfolding layout_same_chunks [OF s3(1)]
    by (rule layout_same_tables) (simp_all add: gs'_def activated_def s'_def set_gpu_state_def)
  ultimately show ?thesis
    using s3 s12(5,9) cs gs m'
    by (intro exI [of _ s'] exI [of _ gs'])
       (auto simp: s'_def gs'_def activated_def set_gpu_state_def span_of_def tables_ok_def keeps_pages_def s3_def update_chunk_def)
qed

section \<open>What a mapping writes, and in which order\<close>

text \<open>
  The chunks of the handle are recorded from the page of the target on, and nothing else changes in the
  block. Executing the push writes the entries of the mapped pages, then the directory entry.
\<close>

lemma map_handle_effect:
  assumes "mappable d a handle sz s vr c subs" "i = uvm_va_range_block_index (n_start (va_range_tree s) vr) a"
  shows "\<exists>s' gs p. uvm_api_map_handle d a handle sz (gpu_uuid s) s = Ret NV_OK s' \<and>
    frame (block_before d s vr i) vr i s s' \<and> same_chunks (chunk_store s) (chunk_store s') \<and>
    vb_gpu (blocks s' (block_before d s vr i)) = Some gs \<and>
    (\<forall>j < 32. gs_chunks gs ! j = (if page_slot a \<le> j \<and> j < page_slot a + length subs then Some (subs ! (j - page_slot a))
       else gs_chunks (gs_before s vr i) ! j) \<and>
      (bit (big_ptes gs) j \<longleftrightarrow> bit (big_ptes (gs_before s vr i)) j \<or> page_slot a \<le> j \<and> j < page_slot a + length subs)) \<and>
    pushes s' = pushes s @ [p] \<and>
    (\<forall>m. run_push p m = pde_mem (hal d) gs
       (fold (\<lambda>j m. m(big_pte gs (page_slot a + j) := pte_value (hal d) (ch_address (chunk_store s (subs ! j))) UVM_PROT_NONE))
          [0..<length subs] m))"
proof -
  let ?k = "page_slot a" and ?n = "length subs" and ?gs0 = "gs_before s vr i"
  obtain s' gs where r: "uvm_api_map_handle d a handle sz (gpu_uuid s) s = Ret NV_OK s'" "frame (block_before d s vr i) vr i s s'"
    "same_chunks (chunk_store s) (chunk_store s')"
    "vb_gpu (blocks s' (block_before d s vr i)) = Some gs" "gs_chunks gs = put_chunks ?k subs (gs_chunks ?gs0)"
    "big_ptes gs = big_ptes ?gs0 OR set_bits_of (map ((+) ?k) [0..<?n]) 0"
    "pushes s' = pushes s @ [map_layout (hal d) (chunk_store s) (blocks s' (block_before d s vr i)) gs ?k ?n (last_membar ?gs0 ?k ?n)]"
    using map_handle_run [OF assms(1)] assms(2) by blast
  have b: "block_ok s vr i" "?k + ?n \<le> 32"
    using assms slot_fits(2) [of sz a] by (auto simp: mappable_def placeable_def target_ok_def)
  have l: "length (gs_chunks ?gs0) = 32" using gs_before_ok [OF b(1)] by (simp add: gs_ok_def)
  have k: "map ((+) ?k) [0..<?n] = [?k..<?k + ?n]" by (rule nth_equalityI) simp_all
  have "bit (set_bits_of [?k..<?k + ?n] 0) j \<longleftrightarrow> ?k \<le> j \<and> j < ?k + ?n" if "j < 32" for j
    using b(2) that by (subst bit_set_bits_of) auto
  moreover have "entries_mem (hal d) (chunk_store s) gs UVM_PROT_NONE [?k..<?k + ?n] m =
      fold (\<lambda>j m. m(big_pte gs (?k + j) := pte_value (hal d) (ch_address (chunk_store s (subs ! j))) UVM_PROT_NONE)) [0..<?n] m" for m
    unfolding entries_mem_def k [symmetric] fold_map
    by (rule fold_cong) (use b(2) l in \<open>auto simp: r(5) put_chunks_nth\<close>)
  ultimately show ?thesis
    using r b(2) l by (intro exI [of _ s'] exI [of _ gs]) (auto simp: run_map_layout k bit_or_iff put_chunks_nth)
qed

lemma page_requests:
  "smallest_page_size 65536 = 65536" "biggest_page_size 65536 = 65536" "uvm_div_pow2_64 65536 65536 = 1"
  by code_simp+

lemma strongest_none: "\<forall>q \<in> set qs. q_membar q = UVM_MEMBAR_NONE \<Longrightarrow> strongest qs = UVM_MEMBAR_NONE"
proof -
  have "\<forall>q \<in> set qs. q_membar q = UVM_MEMBAR_NONE \<Longrightarrow> fold (\<lambda>q. uvm_membar_max (q_membar q)) qs mb = mb" for mb
    by (induction qs) simp_all
  then show "\<forall>q \<in> set qs. q_membar q = UVM_MEMBAR_NONE \<Longrightarrow> strongest qs = UVM_MEMBAR_NONE"
    by (simp add: strongest_def)
qed

lemma widest_pages: "0 < n \<Longrightarrow> widest (map (page_request b) [k..<k + n]) = 65536"
proof (induction n)
  case (Suc n)
  then show ?case by (cases n) (auto simp: widest_def page_request_def page_requests)
qed simp

lemma page_tlb_cmds:
  assumes "0 < n" "n \<le> 4"
  shows "tlb_cmds c (map (page_request b) [k..<k + n]) mb \<in>
    {one_by_one c (map (page_request b) [k..<k + n]) mb, [Tlb_Invalidate_All (pdb_addr c) (page_table_depth c 65536) mb]}"
proof -
  let ?qs = "map (page_request b) [k..<k + n]"
  have "pages_of (page_request b i) = 1" for i
    by (simp add: pages_of_def page_request_def page_requests UVM_PAGE_SIZE_64K_def)
  then have "charge c ?qs = n"
    by (simp add: charge_def comp_def sum_list_triv)
  then have r: "represents c ?qs (queued c ?qs)" using assms by (intro queued_represents) simp_all
  have "strongest ?qs = UVM_MEMBAR_NONE" by (rule strongest_none) (auto simp: page_request_def)
  then show ?thesis
    using tlb_end_eq [OF r, of "[]" mb] assms widest_pages [OF assms(1), of b k] by (auto simp: tlb_cmds_def)
qed

text \<open>
  C9. The order of the commands of a mapping. The push starts with the TLB invalidations of the mapped pages;
  only then come the writes of their entries, the directory entry, and one invalidation at
  2 MiB granularity. The membar after the first invalidations is decided by the last page alone: it is
  a GPU membar exactly when that page had a chunk before.
\<close>

theorem map_handle_invalidates_early:
  assumes "mappable d a handle sz s vr c subs" "i = uvm_va_range_block_index (n_start (va_range_tree s) vr) a"
  shows "\<exists>s' b gs tlbs. uvm_api_map_handle d a handle sz (gpu_uuid s) s = Ret NV_OK s' \<and>
    b = blocks s' (block_before d s vr i) \<and> vb_gpu b = Some gs \<and>
    pushes s' = pushes s @ [tlbs @
      memset_each (big_pte gs (page_slot a)) 8
        (map (\<lambda>c. pte_value (hal d) (ch_address (chunk_store s c)) UVM_PROT_NONE) subs) @
      [Wait_For_Idle, Membar (table_membar gs)] @ pde_cmds (hal d) gs @ [Wait_For_Idle] @
      tlb_cmds (caps (hal d)) [block_request b] UVM_MEMBAR_NONE] \<and>
    (tlbs = one_by_one (caps (hal d)) (map (page_request b) [page_slot a..<page_slot a + length subs])
       (last_membar (gs_before s vr i) (page_slot a) (length subs)) \<or>
     tlbs = [Tlb_Invalidate_All (pdb_addr (caps (hal d))) (page_table_depth (caps (hal d)) 65536)
       (last_membar (gs_before s vr i) (page_slot a) (length subs))])"
proof -
  let ?k = "page_slot a" and ?n = "length subs" and ?gs0 = "gs_before s vr i"
  obtain s' gs where r: "uvm_api_map_handle d a handle sz (gpu_uuid s) s = Ret NV_OK s'"
    "vb_gpu (blocks s' (block_before d s vr i)) = Some gs" "gs_chunks gs = put_chunks ?k subs (gs_chunks ?gs0)"
    "pushes s' = pushes s @ [map_layout (hal d) (chunk_store s) (blocks s' (block_before d s vr i)) gs ?k ?n (last_membar ?gs0 ?k ?n)]"
    using map_handle_run [OF assms(1)] assms(2) by blast
  have b: "block_ok s vr i" "?k + ?n \<le> 32" "0 < ?n" "?n \<le> 4"
    using assms slot_fits(2) [of sz a] handle_size_facts [of sz] by (auto simp: mappable_def placeable_def target_ok_def)
  have "length (gs_chunks ?gs0) = 32" using gs_before_ok [OF b(1)] by (simp add: gs_ok_def)
  then have "entry_values (hal d) (chunk_store s) gs UVM_PROT_NONE [?k..<?k + ?n] =
      map (\<lambda>c. pte_value (hal d) (ch_address (chunk_store s c)) UVM_PROT_NONE) subs"
    using b(2) by (intro nth_equalityI) (simp_all add: entry_values_def r(3) put_chunks_nth)
  then show ?thesis
    using r page_tlb_cmds [OF b(3,4), of "caps (hal d)" "blocks s' (block_before d s vr i)" ?k "last_membar ?gs0 ?k ?n"]
    by (auto simp: map_layout_def)
qed

section \<open>A small driver\<close>

definition demo_hal :: mmu_hal where
  "demo_hal = \<lparr>make_pte = (\<lambda>ap addr prot flags. addr + 1), make_pde = (\<lambda>ts. [3, 0]), entry_size = (\<lambda>_. 8),
     caps = pascal_caps, big_page_size = UVM_PAGE_SIZE_64K, mmu_user_chunk_sizes = 0x271000\<rparr>"

definition demo_table :: "u64 \<Rightarrow> u32 \<Rightarrow> page_table_range" where
  "demo_table addr sz = \<lparr>pt_table = Some \<lparr>address = addr, aperture = UVM_APERTURE_VID\<rparr>, start_index = 0, entry_count = 32, pt_page_size = sz\<rparr>"

definition demo_chunk :: "u64 \<Rightarrow> chunk_ptr option list \<Rightarrow> gpu_chunk" where
  "demo_chunk addr cs = \<lparr>ch_address = addr, allocated_chunks = cs, ch_va_block = None\<rparr>"

definition demo_drv :: "unit drv" where
  "demo_drv = \<lparr>hal = demo_hal, 
     uvm_pmm_gpu_alloc_user = (\<lambda>sz s. if 5 \<in> set (root_chunks s) \<or> length (root_chunks s) < 2 then (NV_ERR_NO_MEMORY, 0, s)
       else (NV_OK, 5, s\<lparr>chunk_store := (chunk_store s)(5 := demo_chunk 0x260000 (replicate 32 None))\<rparr>)),
     uvm_pmm_gpu_split_chunk = (\<lambda>c sz s. if {c, 6, 7} \<inter> set (root_chunks s) \<noteq> {} \<or> c = 6 \<or> c = 7 then (NV_ERR_NO_MEMORY, [], s)
       else (NV_OK, [6, 7], s\<lparr>chunk_store := (chunk_store s)(6 := demo_chunk (ch_address (chunk_store s c)) [],
         7 := demo_chunk (ch_address (chunk_store s c) + 0x10000) [])\<rparr>)), uvm_pmm_gpu_free = (\<lambda>c s. s), va_block_alloc = (\<lambda>_. Some 0),
     gpu_state_alloc = (\<lambda>_. True), block_context_alloc = (\<lambda>_. True), push_begin = (\<lambda>_. NV_OK),
     block_alloc_ptes = (\<lambda>_ gs. gs\<lparr>page_table_range_2m := demo_table 0x1000 0x200000, page_table_range_big := demo_table 0x2000 0x10000\<rparr>),
     remove_gpu_va_space = (\<lambda>_ s. s)\<rparr>"

text \<open>
  A VA range of two blocks from 2 MiB on, and a root chunk at 2 MiB with one handle of 128 KiB at its third slot,
  split into the chunks 3 and 4.
\<close>

definition demo_sys :: "unit sys" where
  "demo_sys = \<lparr>va_range_tree = \<lparr>nodes = (\<lambda>_. \<lparr>rn_start = 0x200000, rn_end = 0x5FFFFF\<rparr>), rb_root = Node Leaf 7 Leaf, head = [7]\<rparr>,
     range_blocks = (\<lambda>_. [None, None]), blocks = (\<lambda>_. \<lparr>vb_start = 0, vb_end = 0, vb_gpu = None\<rparr>),
     chunk_store = (\<lambda>c. if c = 0 then demo_chunk 0 (replicate 32 None)
       else if c = 1 then demo_chunk 0x200000 ((replicate 32 None)[2 := Some 2]) else if c = 2 then demo_chunk 0x240000 [Some 3, Some 4]
       else if c = 3 then demo_chunk 0x240000 [] else demo_chunk 0x250000 []),
     root_chunks = [0, 1], gpu_uuid = 0, pushes = [], pmm_private = ()\<rparr>"

lemma demo_allocators: "allocators_ok demo_drv"
  by (simp add: allocators_ok_def demo_drv_def demo_table_def tables_ok_def keeps_pages_def block_page_prot_gpu_def cong: if_cong)

lemma demo_index: "uvm_va_range_block_index (n_start (va_range_tree demo_sys) 7) 0x440000 = 1"
  by code_simp

lemma demo_mappable: "mappable demo_drv 0x440000 0x240000 0x20000 demo_sys 7 2 [3, 4]"
proof -
  have "hal_ok demo_hal" by code_simp
  moreover have "uvm_range_tree_iter_first (va_range_tree demo_sys) 0x440000 (0x440000 + 0x20000 - 1) = Some 7"
    by (simp add: uvm_range_tree_iter_first_def range_node_find_def demo_sys_def n_start_def n_end_def)
  moreover have "target_ok (n_start (va_range_tree demo_sys) 7) (n_end (va_range_tree demo_sys) 7) 0x440000 0x20000"
    by (simp add: target_ok_def range_ok_def handle_size_ok_def demo_sys_def n_start_def n_end_def)
  moreover note demo_index
  moreover have "block_ok demo_sys 7 1" by (simp add: block_ok_def demo_sys_def)
  moreover have "chunk_of_handle 0x240000 0x20000 demo_sys = Ret 2 demo_sys"
    by (simp add: chunk_of_handle_def uvm_pmm_get_root_chunk_from_address_def root_chunk_from_address_def offset_index_def
        get_offset_index_def demo_sys_def demo_chunk_def at_index_def UVM_CHUNK_SIZE_2M_def)
  moreover have "backed (chunk_store demo_sys) 2 [3, 4]"
    by (auto simp: backed_def demo_sys_def demo_chunk_def less_Suc_eq)
  ultimately show ?thesis
    using demo_allocators by (simp add: mappable_def placeable_def big_pages_def demo_drv_def)
qed

lemma demo_values:
  "page_slot 0x440000 = 4" "block_before demo_drv demo_sys 7 1 = 0" "gs_before demo_sys 7 1 = fresh_gpu_state"
  "gpu_uuid demo_sys = 0" "pushes demo_sys = []" "chunk_store demo_sys 3 = demo_chunk 0x240000 []"
  "chunk_store demo_sys 4 = demo_chunk 0x250000 []" "hal demo_drv = demo_hal"
  by (simp_all add: block_before_def gs_before_def demo_sys_def demo_drv_def page_slot_def)

theorem map_handle_invalidates_early_witness:
  "\<exists>s' gs tlbs rest. uvm_api_map_handle demo_drv 0x440000 0x240000 0x20000 0 demo_sys = Ret NV_OK s' \<and>
    pushes s' = [tlbs @ memset_each (big_pte gs 4) 8 [0x240001, 0x250001] @ rest] \<and>
    (tlbs = one_by_one pascal_caps (map (page_request (blocks s' 0)) [4, 5]) UVM_MEMBAR_NONE \<or>
     tlbs = [Tlb_Invalidate_All (pdb_addr pascal_caps) (page_table_depth pascal_caps 65536) UVM_MEMBAR_NONE])"
proof -
  have v: "pte_value demo_hal x prot = x + 1" "caps demo_hal = pascal_caps" for x prot by (simp_all add: pte_value_def demo_hal_def)
  have l: "last_membar fresh_gpu_state 4 (length [3, 4 :: nat]) = UVM_MEMBAR_NONE" by (simp add: last_membar_def fresh_gpu_state_def)
  have u: "[4..<4 + length [3, 4 :: nat]] = [4, 5 :: nat]" by (simp add: upt_rec)
  have e: "map (\<lambda>c. ch_address (chunk_store demo_sys c) + 1) [3, 4] = [0x240001, 0x250001]"
    by (simp add: demo_values demo_chunk_def)
  show ?thesis
    using map_handle_invalidates_early [OF demo_mappable demo_index [symmetric]]
    unfolding demo_values v l u e append_Nil by blast
qed

end
