(* ===== verification/Uvm_Handle.thy ===== *)
theory Uvm_Handle
  imports Uvm_Map_Correct
begin

text \<open>
  Getting and freeing handles of physical memory (\<^verbatim>\<open>uvm_pmm_gpu.c\<close>). What the handlers rely on in the
  memory manager is \<open>pmm_ok\<close>: an allocated chunk is a new object in the memory of its root chunk, splitting returns the parts in
  address order, splitting and allocating leave the tables of the root chunks alone, and a chunk object lives until the last of its parts is freed.
\<close>

definition table_ok :: "'p sys \<Rightarrow> bool" where
  "table_ok s \<longleftrightarrow> distinct (root_chunks s) \<and> length (root_chunks s) \<le> 2 ^ 43 \<and>
     (\<forall>i < length (root_chunks s). unat (ch_address (chunk_store s (root_chunks s ! i))) = i * 2097152 \<and>
        length (allocated_chunks (chunk_store s (root_chunks s ! i))) = 32)"

definition keeps_tables :: "'p sys \<Rightarrow> 'p sys \<Rightarrow> bool" where
  "keeps_tables s s' \<longleftrightarrow> root_chunks s' = root_chunks s \<and> gpu_uuid s' = gpu_uuid s \<and>
     (\<forall>r \<in> set (root_chunks s). ch_address (chunk_store s' r) = ch_address (chunk_store s r) \<and>
        allocated_chunks (chunk_store s' r) = allocated_chunks (chunk_store s r))"

definition parts_of :: "(chunk_ptr \<Rightarrow> gpu_chunk) \<Rightarrow> u64 \<Rightarrow> chunk_ptr list \<Rightarrow> bool" where
  "parts_of st h subs \<longleftrightarrow> (\<forall>i < length subs. ch_address (st (subs ! i)) = h + of_nat i * UVM_PAGE_SIZE_64K)"

definition pmm_ok :: "'p drv \<Rightarrow> u64 \<Rightarrow> bool" where
  "pmm_ok d sz \<longleftrightarrow>
     (\<forall>s c s'. uvm_pmm_gpu_alloc_user d sz s = (NV_OK, c, s') \<longrightarrow> keeps_tables s s' \<and> c \<notin> set (root_chunks s) \<and>
        unat (ch_address (chunk_store s' c)) div 2097152 < length (root_chunks s) \<and> unat sz dvd unat (ch_address (chunk_store s' c)) \<and>
        length (allocated_chunks (chunk_store s' c)) = 32) \<and>
     (\<forall>s0 s1 c s subs s'. uvm_pmm_gpu_alloc_user d sz s0 = (NV_OK, c, s1) \<and>
        uvm_pmm_gpu_split_chunk d c UVM_PAGE_SIZE_64K s = (NV_OK, subs, s') \<longrightarrow> keeps_tables s s' \<and> length subs = big_pages sz \<and>
        ch_address (chunk_store s' c) = ch_address (chunk_store s c) \<and>
        length (allocated_chunks (chunk_store s' c)) = length (allocated_chunks (chunk_store s c)) \<and>
        parts_of (chunk_store s') (ch_address (chunk_store s c)) subs) \<and>
     (\<forall>s c subs i. backed (chunk_store s) c subs \<and> length subs = big_pages sz \<and> Suc i < length subs \<longrightarrow>
        allocated_chunks (chunk_store (uvm_pmm_gpu_free d (subs ! i) s) c) = allocated_chunks (chunk_store s c))"

section \<open>The slot of a handle\<close>

definition root_of :: "u64 \<Rightarrow> 'p sys \<Rightarrow> chunk_ptr" where
  "root_of h s = root_chunks s ! (unat h div 2097152)"

definition slot_of :: "u64 \<Rightarrow> u64 \<Rightarrow> nat" where
  "slot_of sz h = unat h mod 2097152 div unat sz"

lemma root_eq:
  assumes "unat h div 2097152 < length (root_chunks s)"
  shows "root_chunk_from_address h s = Ret (root_of h s) s"
  using assms by (simp add: root_chunk_from_address_def root_of_def unat_div_distrib UVM_CHUNK_SIZE_2M_def)

lemma offset_eq:
  assumes "table_ok s" "handle_size_ok sz" "unat h div 2097152 < length (root_chunks s)"
  shows "offset_index (ch_address (chunk_store s (root_of h s))) h sz s = Ret (slot_of sz h) s" "slot_of sz h < 32"
proof -
  have a: "unat (ch_address (chunk_store s (root_of h s))) = unat h div 2097152 * 2097152"
    using assms(1,3) by (simp add: table_ok_def root_of_def)
  have "unat (h - ch_address (chunk_store s (root_of h s))) = unat h mod 2097152"
    by (subst unat_sub_le) (simp_all add: word_le_nat_alt a modulo_nat_def)
  then show "offset_index (ch_address (chunk_store s (root_of h s))) h sz s = Ret (slot_of sz h) s"
    using handle_size_facts(6) [OF assms(2)] by (simp add: offset_index_def get_offset_index_def slot_of_def unat_div_distrib)
  have m: "unat h mod 2097152 < 2097152" by simp
  from assms(2) show "slot_of sz h < 32"
    by (cases rule: handle_size_cases) (use m in \<open>auto simp: slot_of_def\<close>)
qed

lemma chunk_of_handle_eq:
  assumes "table_ok s" "handle_size_ok sz" "unat h div 2097152 < length (root_chunks s)"
  shows "chunk_of_handle h sz s = lift_fault (deref (allocated_chunks (chunk_store s (root_of h s)) ! slot_of sz h)) s"
proof -
  have "length (allocated_chunks (chunk_store s (root_of h s))) = 32" using assms(1,3) by (simp add: table_ok_def root_of_def)
  then show ?thesis
    using offset_eq [OF assms] by (simp add: chunk_of_handle_def uvm_pmm_get_root_chunk_from_address_def root_eq [OF assms(3)])
qed

lemma same_slot:
  assumes "unat h div 2097152 = unat h' div 2097152" "slot_of sz h = slot_of sz h'" "handle_size_ok sz" "unat sz dvd unat h" "unat sz dvd unat h'"
  shows "h = h'"
proof -
  have "unat sz dvd 2097152" using assms(3) by (cases rule: handle_size_cases) auto
  then have "unat sz dvd unat h mod 2097152" "unat sz dvd unat h' mod 2097152" using assms(4,5) by (simp_all add: dvd_mod)
  then have "unat h mod 2097152 = unat h' mod 2097152"
    using assms(2) unfolding slot_of_def by (metis dvd_div_mult_self)
  then have "unat h = unat h'" using assms(1) by (metis div_mult_mod_eq)
  then show ?thesis by (simp add: word_unat_eq_iff)
qed

section \<open>Recording chunks\<close>

lemma set_chunks_run:
  assumes "n \<le> length subs" "length subs \<le> length (allocated_chunks (chunk_store s c))"
  shows "\<exists>cs. for_each (\<lambda>i. set_allocated_chunk c i (subs ! i)) [0..<n] s = Ret () (update_chunk c (\<lambda>ch. ch\<lparr>allocated_chunks := cs\<rparr>) s) \<and>
    length cs = length (allocated_chunks (chunk_store s c)) \<and> (\<forall>i < n. cs ! i = Some (subs ! i))"
  using assms(1)
proof (induction n)
  case 0
  have "update_chunk c (\<lambda>ch. ch\<lparr>allocated_chunks := allocated_chunks (chunk_store s c)\<rparr>) s = s" by (simp add: update_chunk_def)
  then show ?case by (intro exI [of _ "allocated_chunks (chunk_store s c)"]) simp
next
  case (Suc n)
  then obtain cs where cs: "for_each (\<lambda>i. set_allocated_chunk c i (subs ! i)) [0..<n] s = Ret () (update_chunk c (\<lambda>ch. ch\<lparr>allocated_chunks := cs\<rparr>) s)"
    "length cs = length (allocated_chunks (chunk_store s c))" "\<forall>i < n. cs ! i = Some (subs ! i)" by auto
  have "set_allocated_chunk c n (subs ! n) (update_chunk c (\<lambda>ch. ch\<lparr>allocated_chunks := cs\<rparr>) s) =
      Ret () (update_chunk c (\<lambda>ch. ch\<lparr>allocated_chunks := cs[n := Some (subs ! n)]\<rparr>) s)"
    using cs(2) Suc.prems assms(2) by (simp add: set_allocated_chunk_def update_chunk_def)
  then show ?case
    using cs Suc.prems assms(2)
    by (intro exI [of _ "cs[n := Some (subs ! n)]"]) (auto simp: for_each_append nth_list_update)
qed

lemma table_ok_keeps: "keeps_tables s s' \<Longrightarrow> table_ok s \<Longrightarrow> table_ok s'"
  by (simp add: table_ok_def keeps_tables_def)

lemma keeps_tables_trans: "keeps_tables s s' \<Longrightarrow> keeps_tables s' s'' \<Longrightarrow> keeps_tables s s''"
  by (simp add: keeps_tables_def)

lemma keeps_update: "c \<notin> set (root_chunks s) \<Longrightarrow> keeps_tables s (update_chunk c f s)"
  by (simp add: keeps_tables_def update_chunk_def)

text \<open>The part of getting a handle that fills the table of the chunk itself.\<close>

definition fill_chunk :: "'p drv \<Rightarrow> u64 \<Rightarrow> chunk_ptr \<Rightarrow> 'p sys \<Rightarrow> ('p, NV_STATUS \<times> u64 option) handler" where
  "fill_chunk d sz c s =
     (if sz = UVM_PAGE_SIZE_64K
      then obind (set_allocated_chunk c 0 c s) (\<lambda>_ s. Ret (NV_OK, Some (ch_address (chunk_store s c))) s)
      else case uvm_pmm_gpu_split_chunk d c UVM_PAGE_SIZE_64K s of (status, subs, s) \<Rightarrow>
        if status \<noteq> NV_OK then Ret (status, None) s
        else obind (set_allocated_chunks c subs s) (\<lambda>_ s. Ret (NV_OK, Some (ch_address (chunk_store s c))) s))"

lemma fill_chunk_ok:
  assumes "pmm_ok d sz" "handle_size_ok sz" "uvm_pmm_gpu_alloc_user d sz s0 = (NV_OK, c, s1)" "c \<notin> set (root_chunks s)"
    "length (allocated_chunks (chunk_store s c)) = 32" "fill_chunk d sz c s = Ret (NV_OK, Some h) s'"
  shows "h = ch_address (chunk_store s c) \<and> ch_address (chunk_store s' c) = h \<and> keeps_tables s s' \<and>
    (\<exists>subs. backed (chunk_store s') c subs \<and> length subs = big_pages sz \<and> parts_of (chunk_store s') h subs)"
proof (cases "sz = UVM_PAGE_SIZE_64K")
  case True
  have "big_pages sz = 1" using True by (simp add: big_pages_def)
  then show ?thesis
    using True assms(4-6) keeps_update [OF assms(4)]
    by (auto simp: fill_chunk_def set_allocated_chunk_def update_chunk_def backed_def parts_of_def intro!: exI [of _ "[c]"])
next
  case False
  then obtain subs s2 where sp: "uvm_pmm_gpu_split_chunk d c UVM_PAGE_SIZE_64K s = (NV_OK, subs, s2)"
    "obind (set_allocated_chunks c subs s2) (\<lambda>_ s. Ret (NV_OK, Some (ch_address (chunk_store s c))) s) = Ret (NV_OK, Some h) s'"
    using assms(6) by (auto simp: fill_chunk_def split: prod.splits if_splits)
  have k: "keeps_tables s s2" "length subs = big_pages sz" "ch_address (chunk_store s2 c) = ch_address (chunk_store s c)"
    "length (allocated_chunks (chunk_store s2 c)) = 32" "parts_of (chunk_store s2) (ch_address (chunk_store s c)) subs"
    using assms(1,3,5) sp(1) unfolding pmm_ok_def by metis+
  have "length subs \<le> length (allocated_chunks (chunk_store s2 c))" using k handle_size_facts(3) [OF assms(2)] by simp
  from set_chunks_run [OF order_refl this] obtain cs where cs:
    "set_allocated_chunks c subs s2 = Ret () (update_chunk c (\<lambda>ch. ch\<lparr>allocated_chunks := cs\<rparr>) s2)"
    "length cs = 32" "\<forall>i < length subs. cs ! i = Some (subs ! i)"
    using k(4) by (auto simp: set_allocated_chunks_def)
  have s': "s' = update_chunk c (\<lambda>ch. ch\<lparr>allocated_chunks := cs\<rparr>) s2" "h = ch_address (chunk_store s' c)"
    using sp(2) cs(1) by auto
  have addr: "ch_address (chunk_store s' x) = ch_address (chunk_store s2 x)" for x by (simp add: s'(1) update_chunk_def)
  have "c \<notin> set (root_chunks s2)" using assms(4) k(1) by (simp add: keeps_tables_def)
  then have "keeps_tables s s'" using keeps_tables_trans [OF k(1) keeps_update] by (simp add: s'(1))
  moreover have "length subs \<le> 32" using k handle_size_facts(3) [OF assms(2)] by simp
  then have "backed (chunk_store s') c subs" using cs by (simp add: s'(1) update_chunk_def backed_def)
  moreover have "parts_of (chunk_store s') h subs" using k(3,5) by (simp add: parts_of_def addr s'(2))
  ultimately show ?thesis using k(2,3) addr s'(2) by auto
qed

lemma get_handle_run:
  assumes "table_ok s" "pmm_ok d sz" "handle_size_ok sz" "uvm_api_get_mem_handle d sz (gpu_uuid s) s = Ret (NV_OK, Some h) s'"
  obtains c subs where "ch_address (chunk_store s' c) = h" "backed (chunk_store s') c subs \<and> parts_of (chunk_store s') h subs" "length subs = big_pages sz"
    "root_chunks s' = root_chunks s" "gpu_uuid s' = gpu_uuid s" "unat h div 2097152 < length (root_chunks s)" "unat sz dvd unat h"
    "\<forall>r \<in> set (root_chunks s). ch_address (chunk_store s' r) = ch_address (chunk_store s r) \<and>
       allocated_chunks (chunk_store s' r) = (if r = root_of h s then (allocated_chunks (chunk_store s r))[slot_of sz h := Some c]
         else allocated_chunks (chunk_store s r))"
proof -
  obtain c s1 where a: "uvm_pmm_gpu_alloc_user d sz s = (NV_OK, c, s1)"
    using assms(4) by (auto simp: uvm_api_get_mem_handle_def get_gpu_by_uuid_def split: prod.splits if_splits)
  have k1: "keeps_tables s s1" "c \<notin> set (root_chunks s)" "unat (ch_address (chunk_store s1 c)) div 2097152 < length (root_chunks s)"
    "unat sz dvd unat (ch_address (chunk_store s1 c))" "length (allocated_chunks (chunk_store s1 c)) = 32"
    using assms(2) a unfolding pmm_ok_def by metis+
  let ?a = "ch_address (chunk_store s1 c)" and ?r = "root_of (ch_address (chunk_store s1 c)) s1"
  have t1: "table_ok s1" using table_ok_keeps [OF k1(1) assms(1)] .
  have len: "unat ?a div 2097152 < length (root_chunks s1)" using k1 by (simp add: keeps_tables_def)
  have r: "?r \<in> set (root_chunks s)" "?r = root_of ?a s" using len k1(1) by (auto simp: root_of_def keeps_tables_def)
  have rl: "length (allocated_chunks (chunk_store s1 ?r)) = 32" using t1 len by (simp add: table_ok_def root_of_def)
  note o = offset_eq [OF t1 assms(3) len]
  define s2 where "s2 = update_chunk ?r (\<lambda>ch. ch\<lparr>allocated_chunks := (allocated_chunks ch)[slot_of sz ?a := Some c]\<rparr>) s1"
  have cr: "c \<noteq> ?r" using k1(2) r(1) by auto
  have f: "fill_chunk d sz c s2 = Ret (NV_OK, Some h) s'"
    using assms(4) a o rl root_eq [OF len]
    by (simp add: uvm_api_get_mem_handle_def get_gpu_by_uuid_def set_allocated_chunk_def s2_def fill_chunk_def)
  have s2: "chunk_store s2 c = chunk_store s1 c" "root_chunks s2 = root_chunks s" "gpu_uuid s2 = gpu_uuid s"
    using cr k1(1) by (simp_all add: s2_def update_chunk_def keeps_tables_def)
  obtain subs where g: "h = ?a" "ch_address (chunk_store s' c) = h" "keeps_tables s2 s'" "backed (chunk_store s') c subs"
    "length subs = big_pages sz" "parts_of (chunk_store s') h subs"
    using fill_chunk_ok [OF assms(2,3) a _ _ f] k1(2,5) s2 by auto
  have tb: "\<forall>x \<in> set (root_chunks s). ch_address (chunk_store s' x) = ch_address (chunk_store s x) \<and>
       allocated_chunks (chunk_store s' x) = (if x = root_of h s then (allocated_chunks (chunk_store s x))[slot_of sz h := Some c]
         else allocated_chunks (chunk_store s x))"
    using g(1,3) k1(1) s2(2) r(2) by (auto simp: keeps_tables_def s2_def update_chunk_def)
  show ?thesis
    by (rule that [of c subs]) (use tb g k1 s2 in \<open>simp_all add: keeps_tables_def\<close>)
qed

section \<open>Freeing\<close>

definition release :: "'p drv \<Rightarrow> chunk_ptr \<Rightarrow> 'p sys \<Rightarrow> 'p sys" where
  "release d sub s = uvm_pmm_gpu_free d sub (update_chunk sub (\<lambda>ch. ch\<lparr>ch_va_block := None\<rparr>) s)"

lemma backed_update: "backed (chunk_store (update_chunk c' (\<lambda>ch. ch\<lparr>ch_va_block := v\<rparr>) s)) c subs = backed (chunk_store s) c subs"
  by (simp add: backed_def update_chunk_def)

lemma free_run:
  assumes "pmm_ok d sz" "length subs = big_pages sz" "backed (chunk_store s) c subs" "n \<le> length subs"
  shows "for_each (free_one d c) [0..<n] s = Ret () (fold (release d) (take n subs) s) \<and>
    (n < length subs \<longrightarrow> backed (chunk_store (fold (release d) (take n subs) s)) c subs)"
  using assms(4)
proof (induction n)
  case 0
  then show ?case using assms(3) by simp
next
  case (Suc n)
  let ?s = "fold (release d) (take n subs) s"
  have IH: "for_each (free_one d c) [0..<n] s = Ret () ?s" "backed (chunk_store ?s) c subs" using Suc by simp_all
  have n: "n < length subs" using Suc.prems by simp
  have b: "backed (chunk_store (update_chunk (subs ! n) (\<lambda>ch. ch\<lparr>ch_va_block := None\<rparr>) ?s)) c subs" using IH(2) by (simp add: backed_update)
  have "free_one d c n ?s = Ret () (release d (subs ! n) ?s)"
    using IH(2) n by (simp add: free_one_def release_def backed_def)
  moreover have "backed (chunk_store (release d (subs ! n) ?s)) c subs" if "Suc n < length subs"
  proof -
    have "allocated_chunks (chunk_store (release d (subs ! n) ?s) c) =
        allocated_chunks (chunk_store (update_chunk (subs ! n) (\<lambda>ch. ch\<lparr>ch_va_block := None\<rparr>) ?s) c)"
      using assms(1,2) b that unfolding pmm_ok_def release_def by blast
    then show ?thesis using b by (simp add: backed_def)
  qed
  ultimately show ?case using IH(1) n by (simp add: for_each_append take_Suc_conv_app_nth)
qed

lemma got_handle_found:
  assumes "table_ok s" "pmm_ok d sz" "handle_size_ok sz" "uvm_api_get_mem_handle d sz (gpu_uuid s) s = Ret (NV_OK, Some h) s'"
  obtains c subs where "chunk_of_handle h sz s' = Ret c s'" "ch_address (chunk_store s' c) = h" "backed (chunk_store s') c subs"
    "parts_of (chunk_store s') h subs" "length subs = big_pages sz" "table_ok s'" "gpu_uuid s' = gpu_uuid s"
    "\<forall>h2 c2. h2 \<noteq> h \<and> unat sz dvd unat h2 \<and> chunk_of_handle h2 sz s = Ret c2 s \<longrightarrow> chunk_of_handle h2 sz s' = Ret c2 s'"
proof (rule get_handle_run [OF assms])
  fix c subs
  assume g: "ch_address (chunk_store s' c) = h" "backed (chunk_store s') c subs \<and> parts_of (chunk_store s') h subs" "length subs = big_pages sz"
    "root_chunks s' = root_chunks s" "gpu_uuid s' = gpu_uuid s" "unat h div 2097152 < length (root_chunks s)" "unat sz dvd unat h"
    "\<forall>r \<in> set (root_chunks s). ch_address (chunk_store s' r) = ch_address (chunk_store s r) \<and>
       allocated_chunks (chunk_store s' r) = (if r = root_of h s then (allocated_chunks (chunk_store s r))[slot_of sz h := Some c]
         else allocated_chunks (chunk_store s r))"
  have t: "table_ok s'" using assms(1) g(4,8) by (auto simp: table_ok_def)
  have root: "root_of x s' = root_of x s" for x using g(4) by (simp add: root_of_def)
  have rm: "root_of h s \<in> set (root_chunks s)" using g(6) by (simp add: root_of_def)
  have l: "length (allocated_chunks (chunk_store s (root_of h s))) = 32" using assms(1) g(6) by (simp add: table_ok_def root_of_def)
  have look: "chunk_of_handle h sz s' = Ret c s'"
    using chunk_of_handle_eq [OF t assms(3)] g(4,6) bspec [OF g(8) rm] offset_eq(2) [OF assms(1,3) g(6)] l by (simp add: root)
  have "chunk_of_handle h2 sz s' = Ret c2 s'" if h2: "h2 \<noteq> h" "unat sz dvd unat h2" "chunk_of_handle h2 sz s = Ret c2 s" for h2 c2
  proof -
    have i: "unat h2 div 2097152 < length (root_chunks s)"
      using h2(3) by (auto simp: chunk_of_handle_def uvm_pmm_get_root_chunk_from_address_def root_chunk_from_address_def at_index_def
          unat_div_distrib UVM_CHUNK_SIZE_2M_def split: if_splits)
    have rm2: "root_of h2 s \<in> set (root_chunks s)" using i by (simp add: root_of_def)
    have "slot_of sz h2 \<noteq> slot_of sz h" if "root_of h2 s = root_of h s"
    proof -
      have "unat h2 div 2097152 = unat h div 2097152"
        using that assms(1) i g(6) by (simp add: root_of_def table_ok_def nth_eq_iff_index_eq)
      then show ?thesis using same_slot [of h2 h sz] h2(1,2) g(7) assms(3) by auto
    qed
    then have "allocated_chunks (chunk_store s' (root_of h2 s)) ! slot_of sz h2 = allocated_chunks (chunk_store s (root_of h2 s)) ! slot_of sz h2"
      using bspec [OF g(8) rm2] by auto
    then show ?thesis
      using h2(3) chunk_of_handle_eq [OF assms(1,3) i] chunk_of_handle_eq [OF t assms(3), of h2] i g(4)
      by (auto simp: root lift_fault_def split: sum.splits)
  qed
  then show ?thesis using that look g t by blast
qed

text \<open>
  C8. A handle that was handed out can be looked up and freed. After getting a handle succeeds,
  the lookup that mapping and freeing use returns the chunk of the handle, the chunk records its 64 KiB parts in address order, every other handle of
  that size is found as before, and freeing the handle succeeds and releases each of the parts once, in order.
  The memory manager keeps its contract \<open>pmm_ok\<close>.
\<close>

theorem mem_handle_round_trip:
  assumes "table_ok s" "pmm_ok d sz" "handle_size_ok sz" "uvm_api_get_mem_handle d sz (gpu_uuid s) s = Ret (NV_OK, Some h) s'"
  shows "table_ok s' \<and> (\<exists>c subs. chunk_of_handle h sz s' = Ret c s' \<and> ch_address (chunk_store s' c) = h \<and>
      backed (chunk_store s') c subs \<and> length subs = big_pages sz \<and> parts_of (chunk_store s') h subs \<and>
      uvm_api_free_mem_handle d h sz (gpu_uuid s) s' =
        Ret NV_OK (fold (release d) subs (update_chunk c (\<lambda>ch. ch\<lparr>ch_va_block := None\<rparr>) s'))) \<and>
    (\<forall>h2 c2. h2 \<noteq> h \<and> unat sz dvd unat h2 \<and> chunk_of_handle h2 sz s = Ret c2 s \<longrightarrow> chunk_of_handle h2 sz s' = Ret c2 s')"
proof (rule got_handle_found [OF assms])
  fix c subs
  assume look: "chunk_of_handle h sz s' = Ret c s'" and g: "backed (chunk_store s') c subs" "length subs = big_pages sz" "gpu_uuid s' = gpu_uuid s"
    and r: "ch_address (chunk_store s' c) = h" "parts_of (chunk_store s') h subs" "table_ok s'"
      "\<forall>h2 c2. h2 \<noteq> h \<and> unat sz dvd unat h2 \<and> chunk_of_handle h2 sz s = Ret c2 s \<longrightarrow> chunk_of_handle h2 sz s' = Ret c2 s'"
  have "for_each (free_one d c) [0..<length subs] (update_chunk c (\<lambda>ch. ch\<lparr>ch_va_block := None\<rparr>) s') =
      Ret () (fold (release d) subs (update_chunk c (\<lambda>ch. ch\<lparr>ch_va_block := None\<rparr>) s'))"
    using free_run [OF assms(2) g(2), of "update_chunk c (\<lambda>ch. ch\<lparr>ch_va_block := None\<rparr>) s'" c "length subs"] g(1)
    by (simp add: backed_update)
  then have fr: "uvm_api_free_mem_handle d h sz (gpu_uuid s) s' =
        Ret NV_OK (fold (release d) subs (update_chunk c (\<lambda>ch. ch\<lparr>ch_va_block := None\<rparr>) s'))"
    using look g(2,3) handle_size_facts(5) [OF assms(3)] by (simp add: uvm_api_free_mem_handle_def get_gpu_by_uuid_def)
  then show ?thesis using look g r by blast
qed

lemma parts_of_two: "parts_of st h [a, b] \<longleftrightarrow> ch_address (st a) = h \<and> ch_address (st b) = h + 0x10000"
  by (auto simp: parts_of_def less_Suc_eq UVM_PAGE_SIZE_64K_def)

lemma demo_pmm_ok: "pmm_ok demo_drv 0x20000"
  by (auto simp: pmm_ok_def demo_drv_def keeps_tables_def demo_chunk_def big_pages_def parts_of_two split: if_splits)

lemma demo_table_ok: "table_ok demo_sys"
  by (auto simp: table_ok_def demo_sys_def demo_chunk_def less_Suc_eq)

lemma demo_get:
  obtains s' where "uvm_api_get_mem_handle demo_drv 0x20000 (gpu_uuid demo_sys) demo_sys = Ret (NV_OK, Some 0x260000) s'"
    "va_range_tree s' = va_range_tree demo_sys" "range_blocks s' = range_blocks demo_sys"
proof -
  have "\<exists>s'. uvm_api_get_mem_handle demo_drv 0x20000 (gpu_uuid demo_sys) demo_sys = Ret (NV_OK, Some 0x260000) s' \<and>
      va_range_tree s' = va_range_tree demo_sys \<and> range_blocks s' = range_blocks demo_sys"
    by (simp add: uvm_api_get_mem_handle_def get_gpu_by_uuid_def root_chunk_from_address_def offset_index_def get_offset_index_def
      set_allocated_chunk_def set_allocated_chunks_def update_chunk_def demo_drv_def demo_sys_def demo_chunk_def
      UVM_CHUNK_SIZE_2M_def UVM_PAGE_SIZE_64K_def upt_rec)
  then show ?thesis using that by blast
qed

theorem mem_handle_round_trip_witness:
  "\<exists>s' c s''. uvm_api_get_mem_handle demo_drv 0x20000 0 demo_sys = Ret (NV_OK, Some 0x260000) s' \<and>
     chunk_of_handle 0x260000 0x20000 s' = Ret c s' \<and> uvm_api_free_mem_handle demo_drv 0x260000 0x20000 0 s' = Ret NV_OK s'' \<and>
     chunk_of_handle 0x240000 0x20000 s' = Ret 2 s'"
proof -
  obtain s' where s': "uvm_api_get_mem_handle demo_drv 0x20000 0 demo_sys = Ret (NV_OK, Some 0x260000) s'"
    using demo_get unfolding demo_values(4) by blast
  have c: "chunk_of_handle 0x240000 0x20000 demo_sys = Ret 2 demo_sys" using demo_mappable by (simp add: mappable_def)
  have h: "handle_size_ok 0x20000" by (simp add: handle_size_ok_def)
  show ?thesis
    using mem_handle_round_trip [OF demo_table_ok demo_pmm_ok h, of "0x260000" s'] s' c demo_values(4) by auto
qed

end
