(* ===== verification/Cache_Kernels.thy ===== *)
theory Cache_Kernels
  imports Vattn_Prelude "HOL-Library.Signed_Division"
begin

text \<open>
  The cache kernels of the serving engine (\<^verbatim>\<open>src/sarathi-lean/csrc/cache_kernels.cu\<close>), which move
  keys and values between the per-token tensors and the block-structured cache.

  A CUDA thread is the list of element copies its loop performs; a launch is the list over all thread
  blocks and threads. The GPU may interleave them in any way, so a run of a launch is any reordering
  of that list (\<open>runs_to\<close>). Integers are mathematical, with the narrowing of \<^verbatim>\<open>int\<close> and
  \<^verbatim>\<open>int64_t\<close> expressions written out (\<open>c32\<close>, \<open>c64\<close>); division of a signed slot is
  truncating. Element types are a type variable; streams, device guards and the type dispatch have no
  effect on the result and are left out.
\<close>

section \<open>Machine integers and tensors\<close>

definition c32 :: "int \<Rightarrow> int" where "c32 v = signed_take_bit 31 v"

definition c64 :: "int \<Rightarrow> int" where "c64 v = signed_take_bit 63 v"

lemma c32_id [simp]: "0 \<le> v \<Longrightarrow> v < 2 ^ 31 \<Longrightarrow> c32 v = v"
  by (simp add: c32_def signed_take_bit_int_eq_self)

lemma c64_id [simp]: "0 \<le> v \<Longrightarrow> v < 2 ^ 63 \<Longrightarrow> c64 v = v"
  by (simp add: c64_def signed_take_bit_int_eq_self)

datatype kernel_error = TorchCheck string | IndexError

datatype dev = CPU | CUDA int | OtherDevice

record ten =
  t_device :: dev
  t_size :: "int list"
  t_stride :: "int list"
  t_element_size :: int

text \<open>The tensors' storage: keys and values of the tokens, and the two caches.\<close>

record 'a kvmem =
  key_buf :: "int \<Rightarrow> 'a"
  value_buf :: "int \<Rightarrow> 'a"
  kc_buf :: "int \<Rightarrow> 'a"
  vc_buf :: "int \<Rightarrow> 'a"

datatype side = K | V

text \<open>A copy: the side, the target index and the source index.\<close>

type_synonym copy = "side \<times> int \<times> int"

text \<open>Copies into the caches, and copies out of them.\<close>

fun store :: "copy \<Rightarrow> 'a kvmem \<Rightarrow> 'a kvmem" where
  "store (K, tgt, src) m = m\<lparr>kc_buf := (kc_buf m)(tgt := key_buf m src)\<rparr>"
| "store (V, tgt, src) m = m\<lparr>vc_buf := (vc_buf m)(tgt := value_buf m src)\<rparr>"

fun gather :: "copy \<Rightarrow> 'a kvmem \<Rightarrow> 'a kvmem" where
  "gather (K, tgt, src) m = m\<lparr>key_buf := (key_buf m)(tgt := kc_buf m src)\<rparr>"
| "gather (V, tgt, src) m = m\<lparr>value_buf := (value_buf m)(tgt := vc_buf m src)\<rparr>"

definition runs_to :: "(copy \<Rightarrow> 'm \<Rightarrow> 'm) \<Rightarrow> copy list \<Rightarrow> 'm \<Rightarrow> 'm \<Rightarrow> bool" where
  "runs_to f ops m m' \<longleftrightarrow> (\<exists>ops'. mset ops' = mset ops \<and> m' = fold f ops' m)"

section \<open>Threads\<close>

text \<open>
  \<^verbatim>\<open>for (int i = threadIdx.x; i < n; i += blockDim.x)\<close>: the values of \<open>i\<close>. A launch with an
  empty thread block is rejected by the runtime and runs no thread.
\<close>

function thread_loop :: "nat \<Rightarrow> nat \<Rightarrow> nat \<Rightarrow> nat list" where
  "thread_loop block_dim n i =
     (if block_dim = 0 \<or> n \<le> i then [] else i # thread_loop block_dim n (i + block_dim))"
  by pat_completeness auto
termination by (relation "measure (\<lambda>(b, n, i). n - i)") auto

declare thread_loop.simps [simp del]

definition launch :: "nat \<Rightarrow> nat \<Rightarrow> (nat \<Rightarrow> nat \<Rightarrow> copy list) \<Rightarrow> copy list" where
  "launch grid block body = concat (map (\<lambda>b. concat (map (body b) [0..<block])) [0..<grid])"

section \<open>Kernels\<close>

record kv_args =
  slot_mapping :: "int list"
  key_stride :: int
  value_stride :: int
  num_heads :: int
  head_size :: int
  block_size :: int
  xdim :: int

definition kv_dim :: "kv_args \<Rightarrow> nat" where
  "kv_dim a = nat (c32 (num_heads a * head_size a))"

definition cache_key_idx64 :: "kv_args \<Rightarrow> int \<Rightarrow> int \<Rightarrow> int \<Rightarrow> int" where
  "cache_key_idx64 a block_idx block_offset i =
     (let head_idx = i div head_size a; head_offset = i mod head_size a;
          x_idx = head_offset div xdim a; x_offset = head_offset mod xdim a
      in c64 (block_idx * num_heads a * (head_size a div xdim a) * block_size a * xdim a
              + c32 (head_idx * (head_size a div xdim a) * block_size a * xdim a)
              + c32 (x_idx * block_size a * xdim a)
              + block_offset * xdim a
              + x_offset))"

definition cache_value_idx64 :: "kv_args \<Rightarrow> int \<Rightarrow> int \<Rightarrow> int \<Rightarrow> int" where
  "cache_value_idx64 a block_idx block_offset i =
     (let head_idx = i div head_size a; head_offset = i mod head_size a
      in c64 (block_idx * num_heads a * head_size a * block_size a
              + c32 (head_idx * head_size a * block_size a)
              + c32 (head_offset * block_size a)
              + block_offset))"

definition reshape_and_cache_kernel :: "kv_args \<Rightarrow> nat \<Rightarrow> nat \<Rightarrow> nat \<Rightarrow> copy list" where
  "reshape_and_cache_kernel a block_dim token_idx tid =
     (let slot_idx = slot_mapping a ! token_idx;
          block_idx = slot_idx sdiv block_size a;
          block_offset = slot_idx smod block_size a
      in concat (map (\<lambda>i.
           [(K, cache_key_idx64 a block_idx block_offset (int i), c64 (int token_idx * key_stride a + int i)),
            (V, cache_value_idx64 a block_idx block_offset (int i), c64 (int token_idx * value_stride a + int i))])
         (thread_loop block_dim (kv_dim a) tid)))"

text \<open>The gathering kernels compute every index in \<^verbatim>\<open>int\<close>.\<close>

definition cache_key_idx32 :: "kv_args \<Rightarrow> int \<Rightarrow> int \<Rightarrow> int \<Rightarrow> int" where
  "cache_key_idx32 a block_idx block_offset i =
     (let head_idx = i div head_size a; head_offset = i mod head_size a;
          x_idx = head_offset div xdim a; x_offset = head_offset mod xdim a
      in c32 (block_idx * num_heads a * (head_size a div xdim a) * block_size a * xdim a
              + head_idx * (head_size a div xdim a) * block_size a * xdim a
              + x_idx * block_size a * xdim a
              + block_offset * xdim a
              + x_offset))"

definition cache_value_idx32 :: "kv_args \<Rightarrow> int \<Rightarrow> int \<Rightarrow> int \<Rightarrow> int" where
  "cache_value_idx32 a block_idx block_offset i =
     (let head_idx = i div head_size a; head_offset = i mod head_size a
      in c32 (block_idx * num_heads a * head_size a * block_size a
              + head_idx * head_size a * block_size a
              + head_offset * block_size a
              + block_offset))"

definition gather_copies :: "kv_args \<Rightarrow> nat \<Rightarrow> nat \<Rightarrow> copy list" where
  "gather_copies a token_idx i =
     (let slot_idx = slot_mapping a ! token_idx;
          block_idx = slot_idx sdiv block_size a;
          block_offset = slot_idx smod block_size a
      in [(K, c32 (int token_idx * key_stride a + int i), cache_key_idx32 a block_idx block_offset (int i)),
          (V, c32 (int token_idx * value_stride a + int i), cache_value_idx32 a block_idx block_offset (int i))])"

definition gather_cached_kv_kernel :: "kv_args \<Rightarrow> nat \<Rightarrow> nat \<Rightarrow> nat \<Rightarrow> copy list" where
  "gather_cached_kv_kernel a block_dim token_idx tid =
     concat (map (gather_copies a token_idx) (thread_loop block_dim (kv_dim a) tid))"

text \<open>
  Four elements per iteration: the loop runs over a quarter of the elements and handles
  \<open>i + j * unrolled_dim\<close> for each \<open>j < 4\<close>. The cache is read-only here, so loading the four
  values before storing them does not differ from copying them.
\<close>

definition gather_cached_kv_kernel_optimized :: "kv_args \<Rightarrow> nat \<Rightarrow> nat \<Rightarrow> nat \<Rightarrow> copy list" where
  "gather_cached_kv_kernel_optimized a block_dim token_idx tid =
     (let unrolled_dim = kv_dim a div 4
      in concat (map (\<lambda>i. concat (map (\<lambda>j. gather_copies a token_idx (i + j * unrolled_dim)) [0..<4]))
           (thread_loop block_dim unrolled_dim tid)))"

definition reshape_and_cache_flash_kernel :: "kv_args \<Rightarrow> int \<Rightarrow> nat \<Rightarrow> nat \<Rightarrow> nat \<Rightarrow> copy list" where
  "reshape_and_cache_flash_kernel a block_stride block_dim token_idx tid =
     (let slot_idx = slot_mapping a ! token_idx in
      if slot_idx < 0 then []
      else let block_idx = slot_idx div block_size a; block_offset = slot_idx mod block_size a
        in concat (map (\<lambda>i.
             let head_idx = int i div head_size a; head_offset = int i mod head_size a;
                 tgt = c64 (block_idx * block_stride + block_offset * num_heads a * head_size a
                            + c32 (head_idx * head_size a) + head_offset)
             in [(K, tgt, c64 (int token_idx * key_stride a + int i)),
                 (V, tgt, c64 (int token_idx * value_stride a + int i))])
           (thread_loop block_dim (kv_dim a) tid)))"

definition cache_flat_kernel :: "kv_args \<Rightarrow> int \<Rightarrow> int \<Rightarrow> nat \<Rightarrow> nat \<Rightarrow> nat \<Rightarrow> copy list" where
  "cache_flat_kernel a k_cache_stride v_cache_stride block_dim token_idx tid =
     concat (map (\<lambda>i.
         [(K, c64 (int token_idx * k_cache_stride + int i), c64 (int token_idx * key_stride a + int i)),
          (V, c64 (int token_idx * v_cache_stride + int i), c64 (int token_idx * value_stride a + int i))])
       (thread_loop block_dim (kv_dim a) tid))"

section \<open>Host functions\<close>

text \<open>The dimensions every host function reads, and the thread block \<^verbatim>\<open>min(num_heads * head_size, 512)\<close>.\<close>

definition block_of :: "kv_args \<Rightarrow> nat" where
  "block_of a = min (kv_dim a) 512"

definition paged_args :: "ten \<Rightarrow> ten \<Rightarrow> ten \<Rightarrow> int list \<Rightarrow> kernel_error + kv_args" where
  "paged_args key vl key_cache slots =
     (if length (t_size key) < 3 \<or> length (t_size key_cache) < 5 \<or> t_stride key = [] \<or> t_stride vl = []
      then Inl IndexError
      else Inr \<lparr>slot_mapping = slots,
        key_stride = c32 (hd (t_stride key)), value_stride = c32 (hd (t_stride vl)),
        num_heads = c32 (t_size key ! 1), head_size = c32 (t_size key ! 2),
        block_size = c32 (t_size key_cache ! 3), xdim = c32 (t_size key_cache ! 4)\<rparr>)"

definition num_tokens :: "ten \<Rightarrow> nat" where
  "num_tokens key = nat (c32 (hd (t_size key)))"

definition reshape_and_cache :: "ten \<Rightarrow> ten \<Rightarrow> ten \<Rightarrow> int list \<Rightarrow> kernel_error + copy list" where
  "reshape_and_cache key vl key_cache slots =
     (case paged_args key vl key_cache slots of
        Inl e \<Rightarrow> Inl e
      | Inr a \<Rightarrow> Inr (launch (num_tokens key) (block_of a) (reshape_and_cache_kernel a (block_of a))))"

definition gather_cached_kv :: "ten \<Rightarrow> ten \<Rightarrow> ten \<Rightarrow> int list \<Rightarrow> kernel_error + copy list" where
  "gather_cached_kv key vl key_cache slots =
     (case paged_args key vl key_cache slots of
        Inl e \<Rightarrow> Inl e
      | Inr a \<Rightarrow> Inr (launch (num_tokens key) (block_of a) (gather_cached_kv_kernel_optimized a (block_of a))))"

definition flat_args :: "ten \<Rightarrow> ten \<Rightarrow> int list \<Rightarrow> int \<Rightarrow> kv_args" where
  "flat_args key vl slots bs =
     \<lparr>slot_mapping = slots, key_stride = c32 (hd (t_stride key)), value_stride = c32 (hd (t_stride vl)),
      num_heads = c32 (t_size key ! 1), head_size = c32 (t_size key ! 2), block_size = bs, xdim = 1\<rparr>"

definition reshape_and_cache_flash :: "ten \<Rightarrow> ten \<Rightarrow> ten \<Rightarrow> ten \<Rightarrow> int list \<Rightarrow> string \<Rightarrow> kernel_error + copy list" where
  "reshape_and_cache_flash key vl k_cache v_cache slots kv_cache_dtype =
     (if kv_cache_dtype \<noteq> ''auto'' then Inl (TorchCheck ''Unsupported data type of kv cache'')
      else if length (t_size key) < 3 \<or> length (t_size k_cache) < 2 \<or> t_stride key = [] \<or> t_stride vl = [] \<or>
              t_stride k_cache = [] \<or> t_stride v_cache = [] then Inl IndexError
      else if hd (t_stride k_cache) \<noteq> hd (t_stride v_cache) then Inl (TorchCheck ''k_cache.stride(0) == v_cache.stride(0)'')
      else let a = flat_args key vl slots (c32 (t_size k_cache ! 1))
        in Inr (launch (num_tokens key) (block_of a)
             (reshape_and_cache_flash_kernel a (c32 (hd (t_stride k_cache))) (block_of a))))"

definition cache_flat :: "ten \<Rightarrow> ten \<Rightarrow> ten \<Rightarrow> ten \<Rightarrow> string \<Rightarrow> kernel_error + copy list" where
  "cache_flat key vl k_cache v_cache kv_cache_dtype =
     (if kv_cache_dtype \<noteq> ''auto'' then Inl (TorchCheck ''Unsupported data type of kv cache'')
      else if length (t_size key) < 3 \<or> t_stride key = [] \<or> t_stride vl = [] \<or>
              t_stride k_cache = [] \<or> t_stride v_cache = [] then Inl IndexError
      else if hd (t_stride k_cache) \<noteq> hd (t_stride v_cache) then Inl (TorchCheck ''k_cache.stride(0) == v_cache.stride(0)'')
      else let a = flat_args key vl [] 1
        in Inr (launch (num_tokens key) (block_of a)
             (cache_flat_kernel a (c32 (hd (t_stride k_cache))) (c32 (hd (t_stride v_cache))) (block_of a))))"

section \<open>Copying and swapping blocks\<close>

text \<open>The layers' caches; \<^verbatim>\<open>copy_blocks\<close> copies within a cache.\<close>

record 'a lmem =
  lkey :: "nat \<Rightarrow> int \<Rightarrow> 'a"
  lval :: "nat \<Rightarrow> int \<Rightarrow> 'a"

type_synonym lcopy = "nat \<times> side \<times> int \<times> int"

fun lcopy_step :: "lcopy \<Rightarrow> 'a lmem \<Rightarrow> 'a lmem" where
  "lcopy_step (layer, K, dst, src) m = m\<lparr>lkey := (lkey m)(layer := (lkey m layer)(dst := lkey m layer src))\<rparr>"
| "lcopy_step (layer, V, dst, src) m = m\<lparr>lval := (lval m)(layer := (lval m layer)(dst := lval m layer src))\<rparr>"

definition copy_blocks_kernel :: "int list \<Rightarrow> nat \<Rightarrow> nat \<Rightarrow> nat \<Rightarrow> nat \<Rightarrow> nat \<Rightarrow> lcopy list" where
  "copy_blocks_kernel block_mapping numel_per_block block_dim layer_idx pair_idx tid =
     (let src_block_offset = c64 (block_mapping ! (2 * pair_idx) * int numel_per_block);
          dst_block_offset = c64 (block_mapping ! (2 * pair_idx + 1) * int numel_per_block);
          is = thread_loop block_dim numel_per_block tid
      in map (\<lambda>i. (layer_idx, K, c64 (dst_block_offset + int i), c64 (src_block_offset + int i))) is @
         map (\<lambda>i. (layer_idx, V, c64 (dst_block_offset + int i), c64 (src_block_offset + int i))) is)"

text \<open>A \<^verbatim>\<open>std::map\<close> is the list of its pairs in ascending key order.\<close>

definition block_mapping_vec :: "(int \<times> int list) list \<Rightarrow> int list" where
  "block_mapping_vec mapping = concat (map (\<lambda>(src, dsts). concat (map (\<lambda>dst. [src, dst]) dsts)) mapping)"

definition is_cuda :: "dev \<Rightarrow> bool" where
  "is_cuda d \<longleftrightarrow> (case d of CUDA _ \<Rightarrow> True | _ \<Rightarrow> False)"

definition copy_blocks :: "ten list \<Rightarrow> ten list \<Rightarrow> (int \<times> int list) list \<Rightarrow> kernel_error + lcopy list" where
  "copy_blocks key_caches value_caches mapping =
     (let num_layers = length key_caches in
      if num_layers \<noteq> length value_caches then Inl (TorchCheck ''num_layers == value_caches.size()'')
      else if num_layers = 0 then Inr []
      else if \<not> is_cuda (t_device (hd key_caches)) then Inl (TorchCheck ''cache_device.is_cuda()'')
      else let vec = block_mapping_vec mapping;
               num_pairs = length vec div 2;
               numel_per_block = nat (c32 (prod_list (tl (t_size (hd key_caches)))));
               block = min 1024 numel_per_block
           in Inr (concat (map (\<lambda>layer. concat (map (\<lambda>pair.
                concat (map (copy_blocks_kernel vec numel_per_block block layer pair) [0..<block]))
                [0..<num_pairs])) [0..<num_layers])))"

definition cudaMemcpyAsync :: "(int \<Rightarrow> 'b) \<Rightarrow> int \<Rightarrow> int \<Rightarrow> int \<Rightarrow> (int \<Rightarrow> 'b) \<Rightarrow> int \<Rightarrow> 'b" where
  "cudaMemcpyAsync src dst_offset src_offset bytes dst =
     (\<lambda>k. if dst_offset \<le> k \<and> k < dst_offset + bytes then src (src_offset + (k - dst_offset)) else dst k)"

definition swap_blocks :: "ten \<Rightarrow> ten \<Rightarrow> (int \<times> int) list \<Rightarrow> (int \<Rightarrow> 'b) \<Rightarrow> (int \<Rightarrow> 'b) \<Rightarrow> kernel_error + (int \<Rightarrow> 'b)" where
  "swap_blocks src dst mapping src_bytes dst_bytes =
     (let copies = (let block_size_in_bytes = c64 (t_element_size src * prod_list (tl (t_size src))) in
            fold (\<lambda>(src_block_number, dst_block_number).
                cudaMemcpyAsync src_bytes (c64 (dst_block_number * block_size_in_bytes))
                  (c64 (src_block_number * block_size_in_bytes)) block_size_in_bytes)
              mapping dst_bytes)
      in case (t_device src, t_device dst) of
           (CUDA i, CUDA j) \<Rightarrow> if i = j then Inr copies else Inl (TorchCheck ''src and dst must be on the same GPU'')
         | (CUDA _, CPU) \<Rightarrow> Inr copies
         | (CPU, CUDA _) \<Rightarrow> Inr copies
         | _ \<Rightarrow> Inl (TorchCheck ''Invalid device combination''))"

section \<open>Threads cover the range\<close>

lemma thread_loop_set:
  assumes "0 < b"
  shows "set (thread_loop b n i) = {k. k < n \<and> (\<exists>j. k = i + j * b)}"
  using assms
proof (induction b n i rule: thread_loop.induct)
  case (1 b n i)
  show ?case
  proof (cases "n \<le> i")
    case False
    have "{k. k < n \<and> (\<exists>j. k = i + j * b)} = insert i {k. k < n \<and> (\<exists>j. k = i + b + j * b)}" (is "?L = ?R")
    proof (intro set_eqI iffI)
      fix k assume "k \<in> ?L"
      then obtain j where "k < n" "k = i + j * b" by blast
      then show "k \<in> ?R" by (cases j) auto
    next
      fix k assume "k \<in> ?R"
      then show "k \<in> ?L" using False by (auto intro: exI [of _ 0]) (metis add.assoc mult_Suc)
    qed
    then show ?thesis using False 1 by (subst thread_loop.simps) simp
  qed (subst thread_loop.simps; auto)
qed

lemma thread_loop_distinct: "distinct (thread_loop b n i)"
proof (induction b n i rule: thread_loop.induct)
  case (1 b n i)
  show ?case
  proof (cases "b = 0 \<or> n \<le> i")
    case False
    then have "i \<notin> set (thread_loop b n (i + b))" by (auto simp: thread_loop_set)
    then show ?thesis using False 1 by (subst thread_loop.simps) simp
  qed (subst thread_loop.simps; auto)
qed

lemma count_concat: "count (mset (concat xss)) k = (\<Sum>xs \<leftarrow> xss. count (mset xs) k)"
  by (induction xss) auto

text \<open>Together the threads of a block handle every index exactly once.\<close>

lemma threads_cover:
  assumes "0 < b"
  shows "mset (concat (map (thread_loop b n) [0..<b])) = mset [0..<n]"
proof -
  have e: "set (thread_loop b n t) = {k. k < n \<and> k mod b = t}" if "t < b" for t
  proof -
    have "(\<exists>j. k = t + j * b) \<longleftrightarrow> k mod b = t" for k
      using that by (auto, metis mod_div_decomp add.commute)
    then show ?thesis using thread_loop_set [OF assms] by simp
  qed
  have one: "count (mset (thread_loop b n t)) k = (if t = k mod b then of_bool (k < n) else 0)" if "t < b" for t k
    using e [OF that] thread_loop_distinct [of b n t] by (auto simp: distinct_count_atmost_1)
  have "count (mset (concat (map (thread_loop b n) [0..<b]))) k = count (mset [0..<n]) k" for k
  proof -
    have "count (mset (concat (map (thread_loop b n) [0..<b]))) k =
        (\<Sum>t \<leftarrow> [0..<b]. if t = k mod b then of_bool (k < n) else 0)"
      unfolding count_concat map_map comp_def
      by (intro arg_cong [of _ _ sum_list] map_cong refl) (simp add: one)
    also have "\<dots> = of_bool (k < n)"
      using assms by (simp add: interv_sum_list_conv_sum_set_nat)
    finally show ?thesis by (auto simp: distinct_count_atmost_1)
  qed
  then show ?thesis by (rule multiset_eqI)
qed

end
