(* ===== verification/Cache_Correct.thy ===== *)
theory Cache_Correct
  imports Cache_Kernels
begin

text \<open>
  Correctness of the cache kernels. The copies of a launch are described as a set, independently of
  block and thread numbers; a run of copies whose targets determine their sources has the same result
  in every order. The cache index is a mixed-radix number, so different slots and elements never meet.
\<close>

section \<open>Copies in any order\<close>

definition functional_copies :: "copy set \<Rightarrow> bool" where
  "functional_copies A \<longleftrightarrow> (\<forall>sd t s s'. (sd, t, s) \<in> A \<longrightarrow> (sd, t, s') \<in> A \<longrightarrow> s = s')"

lemma functional_copies_mono: "functional_copies A \<Longrightarrow> B \<subseteq> A \<Longrightarrow> functional_copies B"
  unfolding functional_copies_def by (meson subsetD)

lemma copy_cases [case_names K V]:
  obtains t s where "c = (K, t, s)" | t s where "c = (V, t, s)"
proof -
  obtain sd t s where "c = (sd, t, s)" by (cases c)
  then show thesis using that by (cases sd) auto
qed

lemma fold_store_sources [simp]:
  "key_buf (fold store ops m) = key_buf m \<and> value_buf (fold store ops m) = value_buf m"
proof (induction ops rule: rev_induct)
  case (snoc c ops)
  then show ?case by (cases c rule: copy_cases) simp_all
qed simp

lemma fold_store_target:
  assumes "functional_copies (set ops)"
  shows "((K, t, s) \<in> set ops \<longrightarrow> kc_buf (fold store ops m) t = key_buf m s) \<and>
    ((V, t, s) \<in> set ops \<longrightarrow> vc_buf (fold store ops m) t = value_buf m s) \<and>
    ((\<forall>s. (K, t, s) \<notin> set ops) \<longrightarrow> kc_buf (fold store ops m) t = kc_buf m t) \<and>
    ((\<forall>s. (V, t, s) \<notin> set ops) \<longrightarrow> vc_buf (fold store ops m) t = vc_buf m t)"
  using assms
proof (induction ops arbitrary: s rule: rev_induct)
  case (snoc c ops)
  have "functional_copies (set ops)" by (rule functional_copies_mono [OF snoc.prems]) auto
  note ih = snoc.IH [OF this]
  have same: "s1 = s2" if "(sd, t, s1) \<in> set (ops @ [c])" "(sd, t, s2) \<in> set (ops @ [c])" for sd s1 s2
    using snoc.prems that unfolding functional_copies_def by blast
  show ?case
  proof (cases c rule: copy_cases)
    case (K t' s')
    then show ?thesis using ih [of s] same [of K s s'] by (auto simp: fold_store_sources)
  next
    case (V t' s')
    then show ?thesis using ih [of s] same [of V s s'] by (auto simp: fold_store_sources)
  qed
qed simp

lemma fold_gather_sources [simp]:
  "kc_buf (fold gather ops m) = kc_buf m \<and> vc_buf (fold gather ops m) = vc_buf m"
proof (induction ops rule: rev_induct)
  case (snoc c ops)
  then show ?case by (cases c rule: copy_cases) simp_all
qed simp

lemma fold_gather_target:
  assumes "functional_copies (set ops)"
  shows "((K, t, s) \<in> set ops \<longrightarrow> key_buf (fold gather ops m) t = kc_buf m s) \<and>
    ((V, t, s) \<in> set ops \<longrightarrow> value_buf (fold gather ops m) t = vc_buf m s) \<and>
    ((\<forall>s. (K, t, s) \<notin> set ops) \<longrightarrow> key_buf (fold gather ops m) t = key_buf m t) \<and>
    ((\<forall>s. (V, t, s) \<notin> set ops) \<longrightarrow> value_buf (fold gather ops m) t = value_buf m t)"
  using assms
proof (induction ops arbitrary: s rule: rev_induct)
  case (snoc c ops)
  have "functional_copies (set ops)" by (rule functional_copies_mono [OF snoc.prems]) auto
  note ih = snoc.IH [OF this]
  have same: "s1 = s2" if "(sd, t, s1) \<in> set (ops @ [c])" "(sd, t, s2) \<in> set (ops @ [c])" for sd s1 s2
    using snoc.prems that unfolding functional_copies_def by blast
  show ?case
  proof (cases c rule: copy_cases)
    case (K t' s')
    then show ?thesis using ih [of s] same [of K s s'] by (auto simp: fold_gather_sources)
  next
    case (V t' s')
    then show ?thesis using ih [of s] same [of V s s'] by (auto simp: fold_gather_sources)
  qed
qed simp

section \<open>Copies of a launch\<close>

lemma mset_concat_map: "mset xs = mset ys \<Longrightarrow> mset (concat (map h xs)) = mset (concat (map h ys))"
proof -
  have "mset (concat (map h zs)) = (\<Sum>z \<in># mset zs. mset (h z))" for zs
    by (induction zs) auto
  then show "mset xs = mset ys \<Longrightarrow> ?thesis" by simp
qed

lemma launch_mset:
  assumes "0 < b" "\<And>tok tid. body tok tid = concat (map (g tok) (thread_loop b n tid))"
  shows "mset (launch grid b body) = mset (concat (map (\<lambda>tok. concat (map (g tok) [0..<n])) [0..<grid]))"
proof -
  have flat: "concat (map (\<lambda>tid. concat (map h (thread_loop b n tid))) xs) =
      concat (map h (concat (map (thread_loop b n) xs)))" for h :: "nat \<Rightarrow> copy list" and xs
    by (induction xs) simp_all
  have "mset (concat (map (body tok) [0..<b])) = mset (concat (map (g tok) [0..<n]))" for tok
  proof -
    have "concat (map (body tok) [0..<b]) = concat (map (g tok) (concat (map (thread_loop b n) [0..<b])))"
      unfolding assms(2) [abs_def] using flat [of "g tok" "[0..<b]"] by simp
    then show ?thesis using mset_concat_map [OF threads_cover [OF assms(1)]] by simp
  qed
  then show ?thesis unfolding launch_def by (induction grid) simp_all
qed

section \<open>Cache indices\<close>

text \<open>The index of an element of a slot, without narrowing.\<close>

definition key_pos :: "kv_args \<Rightarrow> int \<Rightarrow> int \<Rightarrow> int" where
  "key_pos a slot i =
     ((((slot div block_size a) * num_heads a + i div head_size a) * (head_size a div xdim a)
        + i mod head_size a div xdim a) * block_size a + slot mod block_size a) * xdim a
        + i mod head_size a mod xdim a"

definition value_pos :: "kv_args \<Rightarrow> int \<Rightarrow> int \<Rightarrow> int" where
  "value_pos a slot i =
     (((slot div block_size a) * num_heads a + i div head_size a) * head_size a
        + i mod head_size a) * block_size a + slot mod block_size a"

text \<open>A well-formed launch: a cache of \<open>num_blocks\<close> blocks and tensors within the range of \<^verbatim>\<open>int\<close>.\<close>

definition kv_ok :: "kv_args \<Rightarrow> int \<Rightarrow> nat \<Rightarrow> bool" where
  "kv_ok a num_blocks tokens \<longleftrightarrow>
     0 < num_heads a \<and> 0 < head_size a \<and> 0 < block_size a \<and> 0 < xdim a \<and> xdim a dvd head_size a \<and>
     num_blocks * num_heads a * head_size a * block_size a \<le> 2 ^ 31 \<and>
     num_heads a * head_size a < 2 ^ 31 \<and>
     num_heads a * head_size a \<le> key_stride a \<and> num_heads a * head_size a \<le> value_stride a \<and>
     int tokens * key_stride a \<le> 2 ^ 31 \<and> int tokens * value_stride a \<le> 2 ^ 31 \<and>
     length (slot_mapping a) = tokens \<and> distinct (slot_mapping a) \<and>
     (\<forall>s \<in> set (slot_mapping a). 0 \<le> s \<and> s < num_blocks * block_size a)"

lemma radix_inj:
  fixes n :: int
  assumes "a * n + b = a' * n + b'" "0 \<le> b" "b < n" "0 \<le> b'" "b' < n"
  shows "a = a' \<and> b = b'"
proof -
  have "(a * n + b) div n = a" "(a' * n + b') div n = a'" using assms(2-) by simp_all
  then have "a = a'" using assms(1) by simp
  then show ?thesis using assms(1) by simp
qed

lemma radix_bound:
  fixes n :: int
  assumes "0 \<le> a" "a < m" "0 \<le> b" "b < n"
  shows "0 \<le> a * n + b" "a * n + b < m * n"
proof -
  show "0 \<le> a * n + b" using assms by simp
  have "a * n + b < (a + 1) * n" using assms by (simp add: algebra_simps)
  also have "\<dots> \<le> m * n" using assms by (intro mult_right_mono) auto
  finally show "a * n + b < m * n" .
qed

lemma div_radix:
  fixes i :: int
  assumes "0 \<le> i" "i < m * n" "0 < n"
  shows "0 \<le> i div n" "i div n < m" "0 \<le> i mod n" "i mod n < n"
proof -
  have "i div n * n \<le> i" using assms by (simp add: minus_mod_eq_div_mult [symmetric])
  then have "i div n * n < m * n" using assms(2) by linarith
  then show "i div n < m" using assms(3) by simp
qed (use assms in \<open>auto simp: pos_imp_zdiv_nonneg_iff\<close>)

text \<open>The digits of a cache index.\<close>

definition in_slot :: "kv_args \<Rightarrow> int \<Rightarrow> int \<Rightarrow> bool" where
  "in_slot a slot i \<longleftrightarrow> slot \<in> set (slot_mapping a) \<and> 0 \<le> i \<and> i < num_heads a * head_size a"

lemma digits:
  assumes "kv_ok a nb tokens" "in_slot a slot i"
  shows "0 \<le> slot div block_size a" "slot div block_size a < nb"
    "0 \<le> slot mod block_size a" "slot mod block_size a < block_size a"
    "0 \<le> i div head_size a" "i div head_size a < num_heads a"
    "0 \<le> i mod head_size a" "i mod head_size a < head_size a"
    "0 \<le> i mod head_size a div xdim a" "i mod head_size a div xdim a < head_size a div xdim a"
    "0 \<le> i mod head_size a mod xdim a" "i mod head_size a mod xdim a < xdim a"
proof -
  have p: "0 < head_size a" "0 < block_size a" "0 < xdim a" "xdim a dvd head_size a"
    "0 \<le> slot" "slot < nb * block_size a" "0 \<le> i" "i < num_heads a * head_size a"
    using assms by (auto simp: kv_ok_def in_slot_def)
  show "0 \<le> slot div block_size a" "slot div block_size a < nb"
    "0 \<le> slot mod block_size a" "slot mod block_size a < block_size a"
    using div_radix [OF p(5,6,2)] by auto
  show h: "0 \<le> i div head_size a" "i div head_size a < num_heads a"
    "0 \<le> i mod head_size a" "i mod head_size a < head_size a"
    using div_radix [OF p(7,8,1)] by auto
  have "i mod head_size a < head_size a div xdim a * xdim a" using h(4) p(4) by simp
  from div_radix [OF h(3) this p(3)]
  show "0 \<le> i mod head_size a div xdim a" "i mod head_size a div xdim a < head_size a div xdim a"
    "0 \<le> i mod head_size a mod xdim a" "i mod head_size a mod xdim a < xdim a" by auto
qed

lemma slot_eqI:
  fixes slot slot' b :: int
  assumes "slot div b = slot' div b" "slot mod b = slot' mod b"
  shows "slot = slot'"
  using assms by (metis div_mult_mod_eq)

lemma key_pos_inj:
  assumes "kv_ok a nb tokens" "in_slot a slot i" "in_slot a slot' i'" "key_pos a slot i = key_pos a slot' i'"
  shows "slot = slot' \<and> i = i'"
proof -
  note d = digits [OF assms(1,2)] and d' = digits [OF assms(1,3)]
  have e1: "(((slot div block_size a) * num_heads a + i div head_size a) * (head_size a div xdim a)
        + i mod head_size a div xdim a) * block_size a + slot mod block_size a =
      (((slot' div block_size a) * num_heads a + i' div head_size a) * (head_size a div xdim a)
        + i' mod head_size a div xdim a) * block_size a + slot' mod block_size a"
    and xo: "i mod head_size a mod xdim a = i' mod head_size a mod xdim a"
    using radix_inj [OF assms(4) [unfolded key_pos_def] d(11,12) d'(11,12)] by auto
  from radix_inj [OF e1 d(3,4) d'(3,4)]
  have e2: "((slot div block_size a) * num_heads a + i div head_size a) * (head_size a div xdim a)
        + i mod head_size a div xdim a =
      ((slot' div block_size a) * num_heads a + i' div head_size a) * (head_size a div xdim a)
        + i' mod head_size a div xdim a"
    and o: "slot mod block_size a = slot' mod block_size a" by auto
  from radix_inj [OF e2 d(9,10) d'(9,10)]
  have e3: "(slot div block_size a) * num_heads a + i div head_size a =
      (slot' div block_size a) * num_heads a + i' div head_size a"
    and xi: "i mod head_size a div xdim a = i' mod head_size a div xdim a" by auto
  from radix_inj [OF e3 d(5,6) d'(5,6)] have b: "slot div block_size a = slot' div block_size a"
    and h: "i div head_size a = i' div head_size a" by auto
  show ?thesis using slot_eqI [OF b o] slot_eqI [OF h slot_eqI [OF xi xo]] by blast
qed

lemma value_pos_inj:
  assumes "kv_ok a nb tokens" "in_slot a slot i" "in_slot a slot' i'" "value_pos a slot i = value_pos a slot' i'"
  shows "slot = slot' \<and> i = i'"
proof -
  note d = digits [OF assms(1,2)] and d' = digits [OF assms(1,3)]
  have e1: "((slot div block_size a) * num_heads a + i div head_size a) * head_size a + i mod head_size a =
      ((slot' div block_size a) * num_heads a + i' div head_size a) * head_size a + i' mod head_size a"
    and o: "slot mod block_size a = slot' mod block_size a"
    using radix_inj [OF assms(4) [unfolded value_pos_def] d(3,4) d'(3,4)] by auto
  from radix_inj [OF e1 d(7,8) d'(7,8)]
  have e2: "(slot div block_size a) * num_heads a + i div head_size a =
      (slot' div block_size a) * num_heads a + i' div head_size a"
    and ho: "i mod head_size a = i' mod head_size a" by auto
  from radix_inj [OF e2 d(5,6) d'(5,6)] have b: "slot div block_size a = slot' div block_size a"
    and h: "i div head_size a = i' div head_size a" by auto
  show ?thesis using slot_eqI [OF b o] slot_eqI [OF h ho] by blast
qed

lemma key_pos_bound:
  assumes "kv_ok a nb tokens" "in_slot a slot i"
  shows "0 \<le> key_pos a slot i" "key_pos a slot i < 2 ^ 31"
proof -
  note d = digits [OF assms]
  have p: "xdim a dvd head_size a" "nb * num_heads a * head_size a * block_size a \<le> 2 ^ 31"
    using assms(1) by (simp_all add: kv_ok_def)
  note b1 = radix_bound [OF d(1,2,5,6)]
  note b2 = radix_bound [OF b1 d(9,10)]
  note b3 = radix_bound [OF b2 d(3,4)]
  note b4 = radix_bound [OF b3 d(11,12)]
  have "nb * num_heads a * (head_size a div xdim a) * block_size a * xdim a =
      nb * num_heads a * (head_size a div xdim a * xdim a) * block_size a" by (simp only: ac_simps)
  also have "\<dots> \<le> 2 ^ 31" using p(2) by (simp only: dvd_div_mult_self [OF p(1)])
  finally show "key_pos a slot i < 2 ^ 31" using b4(2) unfolding key_pos_def by linarith
  show "0 \<le> key_pos a slot i" using b4(1) unfolding key_pos_def by linarith
qed

lemma value_pos_bound:
  assumes "kv_ok a nb tokens" "in_slot a slot i"
  shows "0 \<le> value_pos a slot i" "value_pos a slot i < 2 ^ 31"
proof -
  note d = digits [OF assms]
  note b1 = radix_bound [OF d(1,2,5,6)]
  note b2 = radix_bound [OF b1 d(7,8)]
  note b3 = radix_bound [OF b2 d(3,4)]
  show "value_pos a slot i < 2 ^ 31" using b3(2) assms(1) unfolding value_pos_def kv_ok_def by linarith
  show "0 \<le> value_pos a slot i" using b3(1) unfolding value_pos_def by linarith
qed

lemma sdiv_nonneg:
  fixes s b :: int
  assumes "0 \<le> s" "0 < b"
  shows "s sdiv b = s div b" "s smod b = s mod b"
  using assms by (auto simp: signed_divide_int_def signed_modulo_int_def sgn_if minus_mult_div_eq_mod [symmetric])

lemma key_poly:
  fixes b :: int
  shows "b * h * q * bs * x + hi * q * bs * x + xi * bs * x + off * x + xo =
    (((b * h + hi) * q + xi) * bs + off) * x + xo"
  by (simp add: algebra_simps)

lemma value_poly:
  fixes b :: int
  shows "b * h * d * bs + hi * d * bs + ho * bs + off = ((b * h + hi) * d + ho) * bs + off"
  by (simp add: algebra_simps)

text \<open>Within the bounds, no narrowing changes an index.\<close>

lemma cache_idx_eq:
  assumes "kv_ok a nb tokens" "in_slot a slot i"
  shows "cache_key_idx32 a (slot sdiv block_size a) (slot smod block_size a) i = key_pos a slot i"
    and "cache_key_idx64 a (slot sdiv block_size a) (slot smod block_size a) i = key_pos a slot i"
    and "cache_value_idx32 a (slot sdiv block_size a) (slot smod block_size a) i = value_pos a slot i"
    and "cache_value_idx64 a (slot sdiv block_size a) (slot smod block_size a) i = value_pos a slot i"
proof -
  note d = digits [OF assms]
  have p: "0 \<le> slot" "0 < num_heads a" "0 < head_size a" "0 < block_size a" "0 < xdim a"
    using assms by (auto simp: kv_ok_def in_slot_def)
  define b off hi ho xi xo q where defs: "b = slot div block_size a" "off = slot mod block_size a"
    "hi = i div head_size a" "ho = i mod head_size a" "xi = ho div xdim a" "xo = ho mod xdim a"
    "q = head_size a div xdim a"
  have nn: "0 \<le> b" "0 \<le> off" "0 \<le> hi" "0 \<le> ho" "0 \<le> xi" "0 \<le> xo" "0 \<le> q"
    using d p by (auto simp: defs pos_imp_zdiv_nonneg_iff)
  have kp: "key_pos a slot i = b * num_heads a * q * block_size a * xdim a + hi * q * block_size a * xdim a
      + xi * block_size a * xdim a + off * xdim a + xo"
    unfolding key_poly by (simp add: key_pos_def defs)
  have vp: "value_pos a slot i = b * num_heads a * head_size a * block_size a + hi * head_size a * block_size a
      + ho * block_size a + off"
    unfolding value_poly by (simp add: value_pos_def defs)
  have t: "0 \<le> b * num_heads a * q * block_size a * xdim a" "0 \<le> hi * q * block_size a * xdim a"
    "0 \<le> xi * block_size a * xdim a" "0 \<le> off * xdim a"
    "0 \<le> b * num_heads a * head_size a * block_size a" "0 \<le> hi * head_size a * block_size a" "0 \<le> ho * block_size a"
    using nn p by (simp_all add: mult_nonneg_nonneg)
  note kb = key_pos_bound [OF assms] and vb = value_pos_bound [OF assms]
  have small: "hi * q * block_size a * xdim a < 2 ^ 31" "xi * block_size a * xdim a < 2 ^ 31"
    "hi * head_size a * block_size a < 2 ^ 31" "ho * block_size a < 2 ^ 31"
    using kb(2) vb(2) t nn unfolding kp vp by linarith+
  have big: "key_pos a slot i < 2 ^ 63" "value_pos a slot i < 2 ^ 63"
    by (rule order.strict_trans2 [OF kb(2)], simp) (rule order.strict_trans2 [OF vb(2)], simp)
  show "cache_key_idx32 a (slot sdiv block_size a) (slot smod block_size a) i = key_pos a slot i"
    unfolding cache_key_idx32_def Let_def sdiv_nonneg [OF p(1,4)] defs [symmetric] kp [symmetric]
    by (rule c32_id [OF kb])
  show "cache_key_idx64 a (slot sdiv block_size a) (slot smod block_size a) i = key_pos a slot i"
    unfolding cache_key_idx64_def Let_def sdiv_nonneg [OF p(1,4)] defs [symmetric]
      c32_id [OF t(2) small(1)] c32_id [OF t(3) small(2)] kp [symmetric]
    by (rule c64_id [OF kb(1) big(1)])
  show "cache_value_idx32 a (slot sdiv block_size a) (slot smod block_size a) i = value_pos a slot i"
    unfolding cache_value_idx32_def Let_def sdiv_nonneg [OF p(1,4)] defs [symmetric] vp [symmetric]
    by (rule c32_id [OF vb])
  show "cache_value_idx64 a (slot sdiv block_size a) (slot smod block_size a) i = value_pos a slot i"
    unfolding cache_value_idx64_def Let_def sdiv_nonneg [OF p(1,4)] defs [symmetric]
      c32_id [OF t(6) small(3)] c32_id [OF t(7) small(4)] vp [symmetric]
    by (rule c64_id [OF vb(1) big(2)])
qed

section \<open>The copies of each kernel\<close>

lemma launch_set:
  assumes "0 < b" "\<And>tok tid. body tok tid = concat (map (g tok) (thread_loop b n tid))"
  shows "set (launch grid b body) = {c. \<exists>tok < grid. \<exists>i < n. c \<in> set (g tok i)}"
proof -
  have "set (launch grid b body) = set (concat (map (\<lambda>tok. concat (map (g tok) [0..<n])) [0..<grid]))"
    using arg_cong [OF launch_mset [OF assms, where grid = grid], of set_mset] by (simp only: set_mset_mset)
  also have "\<dots> = (\<Union>tok \<in> {..<grid}. \<Union>i \<in> {..<n}. set (g tok i))" by (simp add: atLeast0LessThan)
  also have "\<dots> = {c. \<exists>tok < grid. \<exists>i < n. c \<in> set (g tok i)}" by blast
  finally show ?thesis .
qed

lemma kv_dim_eq:
  assumes "kv_ok a nb tokens"
  shows "int (kv_dim a) = num_heads a * head_size a" "0 < block_of a"
proof -
  have p: "0 < num_heads a * head_size a" "num_heads a * head_size a < 2 ^ 31"
    using assms by (simp_all add: kv_ok_def)
  then show "int (kv_dim a) = num_heads a * head_size a" by (simp add: kv_dim_def)
  then show "0 < block_of a" using p by (simp add: block_of_def)
qed

lemma in_slotI:
  assumes "kv_ok a nb tokens" "tok < tokens" "i < kv_dim a"
  shows "in_slot a (slot_mapping a ! tok) (int i)"
  using assms kv_dim_eq(1) [OF assms(1)] by (auto simp: in_slot_def kv_ok_def)

lemma token_pos:
  assumes "kv_ok a nb tokens" "tok < tokens" "i < kv_dim a"
  shows "c64 (int tok * key_stride a + int i) = int tok * key_stride a + int i"
    "c64 (int tok * value_stride a + int i) = int tok * value_stride a + int i"
    "c32 (int tok * key_stride a + int i) = int tok * key_stride a + int i"
    "c32 (int tok * value_stride a + int i) = int tok * value_stride a + int i"
proof -
  have i: "int i < key_stride a" "int i < value_stride a"
    "int tokens * key_stride a \<le> 2 ^ 31" "int tokens * value_stride a \<le> 2 ^ 31"
    using assms kv_dim_eq(1) [OF assms(1)] by (auto simp: kv_ok_def)
  have k: "0 \<le> int tok * key_stride a + int i" "int tok * key_stride a + int i < 2 ^ 31"
    using radix_bound [of "int tok" "int tokens" "int i" "key_stride a"] i assms(2) by auto
  have v: "0 \<le> int tok * value_stride a + int i" "int tok * value_stride a + int i < 2 ^ 31"
    using radix_bound [of "int tok" "int tokens" "int i" "value_stride a"] i assms(2) by auto
  show "c32 (int tok * key_stride a + int i) = int tok * key_stride a + int i"
    "c32 (int tok * value_stride a + int i) = int tok * value_stride a + int i"
    by (rule c32_id [OF k], rule c32_id [OF v])
  have "int tok * key_stride a + int i < 2 ^ 63" "int tok * value_stride a + int i < 2 ^ 63"
    by (rule order.strict_trans2 [OF k(2)], simp) (rule order.strict_trans2 [OF v(2)], simp)
  then show "c64 (int tok * key_stride a + int i) = int tok * key_stride a + int i"
    "c64 (int tok * value_stride a + int i) = int tok * value_stride a + int i"
    using k(1) v(1) by (simp_all only: c64_id)
qed

text \<open>The copies into the cache, and the copies out of it, as sets.\<close>

definition stored :: "kv_args \<Rightarrow> nat \<Rightarrow> copy set" where
  "stored a tokens = {c. \<exists>tok < tokens. \<exists>i < kv_dim a.
     c = (K, key_pos a (slot_mapping a ! tok) (int i), int tok * key_stride a + int i) \<or>
     c = (V, value_pos a (slot_mapping a ! tok) (int i), int tok * value_stride a + int i)}"

definition gathered :: "kv_args \<Rightarrow> nat \<Rightarrow> copy set" where
  "gathered a tokens = {c. \<exists>tok < tokens. \<exists>i < kv_dim a.
     c = (K, int tok * key_stride a + int i, key_pos a (slot_mapping a ! tok) (int i)) \<or>
     c = (V, int tok * value_stride a + int i, value_pos a (slot_mapping a ! tok) (int i))}"

definition store_copies :: "kv_args \<Rightarrow> nat \<Rightarrow> nat \<Rightarrow> copy list" where
  "store_copies a tok i =
     [(K, cache_key_idx64 a (slot_mapping a ! tok sdiv block_size a) (slot_mapping a ! tok smod block_size a) (int i),
        c64 (int tok * key_stride a + int i)),
      (V, cache_value_idx64 a (slot_mapping a ! tok sdiv block_size a) (slot_mapping a ! tok smod block_size a) (int i),
        c64 (int tok * value_stride a + int i))]"

lemma reshape_kernel_copies:
  "reshape_and_cache_kernel a b tok tid = concat (map (store_copies a tok) (thread_loop b (kv_dim a) tid))"
  by (simp add: reshape_and_cache_kernel_def store_copies_def [abs_def] Let_def)

lemma reshape_set:
  assumes "kv_ok a nb tokens"
  shows "set (launch tokens (block_of a) (reshape_and_cache_kernel a (block_of a))) = stored a tokens"
proof -
  have "set (store_copies a tok i) =
      {(K, key_pos a (slot_mapping a ! tok) (int i), int tok * key_stride a + int i),
       (V, value_pos a (slot_mapping a ! tok) (int i), int tok * value_stride a + int i)}"
    if "tok < tokens" "i < kv_dim a" for tok i
    by (simp add: store_copies_def cache_idx_eq [OF assms in_slotI [OF assms that]] token_pos [OF assms that])
  then show ?thesis
    unfolding launch_set [OF kv_dim_eq(2) [OF assms] reshape_kernel_copies] stored_def
    by (intro Collect_cong ex_cong1 conj_cong refl) simp
qed

lemma plain_gather_set:
  assumes "kv_ok a nb tokens" "0 < b"
  shows "set (launch tokens b (gather_cached_kv_kernel a b)) = gathered a tokens"
proof -
  have "set (gather_copies a tok i) =
      {(K, int tok * key_stride a + int i, key_pos a (slot_mapping a ! tok) (int i)),
       (V, int tok * value_stride a + int i, value_pos a (slot_mapping a ! tok) (int i))}"
    if "tok < tokens" "i < kv_dim a" for tok i
    by (simp add: gather_copies_def Let_def cache_idx_eq [OF assms(1) in_slotI [OF assms(1) that]]
        token_pos [OF assms(1) that])
  then show ?thesis
    unfolding launch_set [OF assms(2) gather_cached_kv_kernel_def] gathered_def
    by (intro Collect_cong ex_cong1 conj_cong refl) simp
qed

lemma stored_functional:
  assumes "kv_ok a nb tokens"
  shows "functional_copies (stored a tokens)"
proof -
  have "tok = tok' \<and> i = i'"
    if "tok < tokens" "i < kv_dim a" "tok' < tokens" "i' < kv_dim a"
      "key_pos a (slot_mapping a ! tok) (int i) = key_pos a (slot_mapping a ! tok') (int i') \<or>
       value_pos a (slot_mapping a ! tok) (int i) = value_pos a (slot_mapping a ! tok') (int i')" for tok i tok' i'
  proof -
    note s = in_slotI [OF assms that(1,2)] and s' = in_slotI [OF assms that(3,4)]
    have "slot_mapping a ! tok = slot_mapping a ! tok' \<and> int i = int i'"
      using that(5) key_pos_inj [OF assms s s'] value_pos_inj [OF assms s s'] by blast
    then show ?thesis using that(1,3) assms by (auto simp: kv_ok_def nth_eq_iff_index_eq)
  qed
  then show ?thesis unfolding functional_copies_def stored_def by blast
qed

lemma gathered_functional:
  assumes "kv_ok a nb tokens"
  shows "functional_copies (gathered a tokens)"
proof -
  have "tok = tok' \<and> i = i'"
    if "i < kv_dim a" "i' < kv_dim a" "int tok * n + int i = int tok' * n + int i'" "int (kv_dim a) \<le> n" for tok i tok' i' n
    using radix_inj [OF that(3)] that by simp
  moreover have "int (kv_dim a) \<le> key_stride a" "int (kv_dim a) \<le> value_stride a"
    using assms kv_dim_eq(1) [OF assms] by (simp_all add: kv_ok_def)
  ultimately show ?thesis unfolding functional_copies_def gathered_def by blast
qed

lemma unrolled_indices:
  "mset (concat (map (\<lambda>i. map (\<lambda>j. i + j * u) [0..<4]) [0..<u])) = mset [0..<4 * u]" (is "mset ?xs = _")
proof -
  have len: "length ?xs = 4 * u" by (simp add: length_concat comp_def sum_list_triv)
  have "set ?xs = {0..<4 * u}"
  proof (intro set_eqI iffI)
    fix k assume "k \<in> set ?xs"
    then obtain i j where ij: "i < u" "j < 4" "k = i + j * u" by auto
    have "k < (j + 1) * u" using ij by simp
    also have "(j + 1) * u \<le> 4 * u" using ij(2) by (intro mult_right_mono) auto
    finally show "k \<in> {0..<4 * u}" by simp
  next
    fix k assume "k \<in> {0..<4 * u}"
    then have "k div u < 4" "k mod u < u" "k = k mod u + k div u * u" "0 < u"
      by (auto simp: div_less_iff_less_mult)
    then show "k \<in> set ?xs" by (auto intro!: bexI [of _ "k mod u"] image_eqI [of _ _ "k div u"])
  qed
  moreover from this len have "distinct ?xs" by (intro card_distinct) simp
  ultimately show ?thesis using set_eq_iff_mset_eq_distinct [of ?xs "[0..<4 * u]"] by simp
qed

lemma optimized_mset:
  assumes "0 < b" "4 dvd kv_dim a"
  shows "mset (launch grid b (gather_cached_kv_kernel_optimized a b)) =
    mset (launch grid b (gather_cached_kv_kernel a b))"
proof -
  let ?u = "kv_dim a div 4"
  let ?g = "\<lambda>tok i. concat (map (\<lambda>j. gather_copies a tok (i + j * ?u)) [0..<4])"
  have d: "4 * ?u = kv_dim a" using assms(2) by simp
  have flat: "concat (map (?g tok) xs) =
      concat (map (gather_copies a tok) (concat (map (\<lambda>i. map (\<lambda>j. i + j * ?u) [0..<4]) xs)))" for tok xs
    by (induction xs) (simp_all add: comp_def)
  have tok: "mset (concat (map (?g tok) [0..<?u])) = mset (concat (map (gather_copies a tok) [0..<kv_dim a]))" for tok
    unfolding flat using mset_concat_map [OF unrolled_indices [of ?u]] d by simp
  have "mset (launch grid b (gather_cached_kv_kernel_optimized a b)) =
      mset (concat (map (\<lambda>tok. concat (map (?g tok) [0..<?u])) [0..<grid]))"
    by (rule launch_mset [OF assms(1)]) (simp add: gather_cached_kv_kernel_optimized_def Let_def)
  also have "\<dots> = mset (concat (map (\<lambda>tok. concat (map (gather_copies a tok) [0..<kv_dim a])) [0..<grid]))"
    by (induction grid) (simp_all add: tok)
  also have "\<dots> = mset (launch grid b (gather_cached_kv_kernel a b))"
    by (rule launch_mset [OF assms(1) gather_cached_kv_kernel_def, symmetric])
  finally show ?thesis .
qed

section \<open>Properties\<close>

lemma runs_to_fold: "runs_to f ops m (fold f ops m)"
  by (auto simp: runs_to_def)

lemma runs_to_store:
  assumes "runs_to store ops m m'" "set ops = A" "functional_copies A"
  shows "(K, t, s) \<in> A \<Longrightarrow> kc_buf m' t = key_buf m s" "(V, t, s) \<in> A \<Longrightarrow> vc_buf m' t = value_buf m s"
proof -
  obtain ops' where o: "mset ops' = mset ops" "m' = fold store ops' m" using assms(1) by (auto simp: runs_to_def)
  have s: "set ops' = A" using o(1) assms(2) by (metis set_mset_mset)
  have f: "functional_copies (set ops')" using assms(3) s by simp
  show "(K, t, s) \<in> A \<Longrightarrow> kc_buf m' t = key_buf m s" "(V, t, s) \<in> A \<Longrightarrow> vc_buf m' t = value_buf m s"
    using fold_store_target [OF f, of t s m] s o(2) by auto
qed

lemma runs_to_gather:
  assumes "runs_to gather ops m m'" "set ops = A" "functional_copies A"
  shows "(K, t, s) \<in> A \<Longrightarrow> key_buf m' t = kc_buf m s" "(V, t, s) \<in> A \<Longrightarrow> value_buf m' t = vc_buf m s"
proof -
  obtain ops' where o: "mset ops' = mset ops" "m' = fold gather ops' m" using assms(1) by (auto simp: runs_to_def)
  have s: "set ops' = A" using o(1) assms(2) by (metis set_mset_mset)
  have f: "functional_copies (set ops')" using assms(3) s by simp
  show "(K, t, s) \<in> A \<Longrightarrow> key_buf m' t = kc_buf m s" "(V, t, s) \<in> A \<Longrightarrow> value_buf m' t = vc_buf m s"
    using fold_gather_target [OF f, of t s m] s o(2) by auto
qed

lemma optimized_set:
  assumes "kv_ok a nb tokens" "4 dvd kv_dim a"
  shows "set (launch tokens (block_of a) (gather_cached_kv_kernel_optimized a (block_of a))) = gathered a tokens"
  using arg_cong [OF optimized_mset [OF kv_dim_eq(2) [OF assms(1)] assms(2), where grid = tokens], of set_mset]
    plain_gather_set [OF assms(1) kv_dim_eq(2) [OF assms(1)]] by (simp only: set_mset_mset)

text \<open>
  C37. What is written to the cache is read back. Store the keys and values of a batch of tokens in
  different slots, then gather the same slots into other tensors, with any strides: every element
  arrives, whatever the order in which the GPU runs the threads of either launch.
\<close>

theorem cache_roundtrip:
  assumes "paged_args key vl kc slots = Inr a" "paged_args okey ovl kc slots = Inr a'"
    and "kv_ok a nb tokens" "kv_ok a' nb tokens" "num_tokens key = tokens" "num_tokens okey = tokens"
    and "num_heads a' = num_heads a" "head_size a' = head_size a" "4 dvd kv_dim a"
    and "reshape_and_cache key vl kc slots = Inr ops" "gather_cached_kv okey ovl kc slots = Inr ops'"
    and "runs_to store ops m m1" "runs_to gather ops' (m1\<lparr>key_buf := k0, value_buf := v0\<rparr>) m2"
    and "tok < tokens" "i < kv_dim a"
  shows "key_buf m2 (int tok * key_stride a' + int i) = key_buf m (int tok * key_stride a + int i) \<and>
    value_buf m2 (int tok * value_stride a' + int i) = value_buf m (int tok * value_stride a + int i)"
proof -
  have same: "block_size a' = block_size a" "xdim a' = xdim a" "slot_mapping a' = slot_mapping a"
    using assms(1,2) by (auto simp: paged_args_def split: if_splits)
  have kp: "key_pos a' = key_pos a" "value_pos a' = value_pos a" "kv_dim a' = kv_dim a"
    using same assms(7,8) by (simp_all add: key_pos_def value_pos_def kv_dim_def fun_eq_iff)
  have o: "set ops = stored a tokens"
    using assms(1,5,10) reshape_set [OF assms(3)] by (auto simp: reshape_and_cache_def)
  have o': "set ops' = gathered a' tokens"
    using assms(2,6,11) optimized_set [OF assms(4)] assms(9) kp(3) by (auto simp: gather_cached_kv_def)
  let ?s = "slot_mapping a ! tok"
  have st: "(K, key_pos a ?s (int i), int tok * key_stride a + int i) \<in> stored a tokens"
    "(V, value_pos a ?s (int i), int tok * value_stride a + int i) \<in> stored a tokens"
    using assms(14,15) by (auto simp: stored_def)
  have ga: "(K, int tok * key_stride a' + int i, key_pos a ?s (int i)) \<in> gathered a' tokens"
    "(V, int tok * value_stride a' + int i, value_pos a ?s (int i)) \<in> gathered a' tokens"
    using assms(14,15) kp same(3) by (auto simp: gathered_def)
  show ?thesis
    using runs_to_store [OF assms(12) o stored_functional [OF assms(3)]] st
      runs_to_gather [OF assms(13) o' gathered_functional [OF assms(4)]] ga by simp
qed

definition demo_key :: ten where
  "demo_key = \<lparr>t_device = CUDA 0, t_size = [2, 1, 8], t_stride = [8, 8, 1], t_element_size = 2\<rparr>"

definition demo_out :: ten where
  "demo_out = \<lparr>t_device = CUDA 0, t_size = [2, 1, 8], t_stride = [24, 8, 1], t_element_size = 2\<rparr>"

definition demo_cache :: ten where
  "demo_cache = \<lparr>t_device = CUDA 0, t_size = [2, 1, 2, 4, 4], t_stride = [32, 32, 16, 4, 1], t_element_size = 2\<rparr>"

definition demo_mem :: "int kvmem" where
  "demo_mem = \<lparr>key_buf = (\<lambda>i. i), value_buf = (\<lambda>i. 100 + i), kc_buf = (\<lambda>_. 0), vc_buf = (\<lambda>_. 0)\<rparr>"

definition demo_args :: "int \<Rightarrow> kv_args" where
  "demo_args stride = \<lparr>slot_mapping = [6, 3], key_stride = stride, value_stride = stride,
     num_heads = 1, head_size = 8, block_size = 4, xdim = 4\<rparr>"

theorem cache_roundtrip_witness:
  "\<exists>ops ops'. reshape_and_cache demo_key demo_key demo_cache [6, 3] = Inr ops \<and>
     gather_cached_kv demo_out demo_out demo_cache [6, 3] = Inr ops' \<and>
     key_buf (fold gather ops' ((fold store ops demo_mem)\<lparr>key_buf := \<lambda>_. 0, value_buf := \<lambda>_. 0\<rparr>)) 29 = 13"
proof -
  have a: "paged_args demo_key demo_key demo_cache [6, 3] = Inr (demo_args 8)"
    "paged_args demo_out demo_out demo_cache [6, 3] = Inr (demo_args 24)" by code_simp+
  have k: "kv_ok (demo_args 8) 2 2" "kv_ok (demo_args 24) 2 2" by code_simp+
  have n: "num_tokens demo_key = 2" "num_tokens demo_out = 2" "4 dvd kv_dim (demo_args 8)"
    "num_heads (demo_args 24) = num_heads (demo_args 8)" "head_size (demo_args 24) = head_size (demo_args 8)"
    "1 < (2 :: nat)" "5 < kv_dim (demo_args 8)" "key_stride (demo_args 8) = 8" "key_stride (demo_args 24) = 24"
    by code_simp+
  obtain ops ops' where o: "reshape_and_cache demo_key demo_key demo_cache [6, 3] = Inr ops"
    "gather_cached_kv demo_out demo_out demo_cache [6, 3] = Inr ops'"
    using a by (simp add: reshape_and_cache_def gather_cached_kv_def)
  have "key_buf (fold gather ops' ((fold store ops demo_mem)\<lparr>key_buf := \<lambda>_. 0, value_buf := \<lambda>_. 0\<rparr>)) 29 = 13"
    using cache_roundtrip [OF a k n(1,2,4,5,3) o runs_to_fold [of store ops demo_mem]
        runs_to_fold [of gather ops' "(fold store ops demo_mem)\<lparr>key_buf := \<lambda>_. 0, value_buf := \<lambda>_. 0\<rparr>"] n(6,7)] n(8,9)
    by (simp add: demo_mem_def)
  then show ?thesis using o by blast
qed

text \<open>
  C38. The unrolled gathering kernel does what the plain one does: when the number of elements per
  token is a multiple of four, as its assertion demands, the two have the same runs for every launch.
\<close>

theorem gather_optimized_equivalent:
  assumes "0 < block_dim" "4 dvd kv_dim a"
  shows "runs_to f (launch grid block_dim (gather_cached_kv_kernel_optimized a block_dim)) m m' \<longleftrightarrow>
    runs_to f (launch grid block_dim (gather_cached_kv_kernel a block_dim)) m m'"
  unfolding runs_to_def optimized_mset [OF assms] ..

theorem gather_optimized_equivalent_witness:
  "runs_to gather (launch 2 3 (gather_cached_kv_kernel_optimized (demo_args 8) 3)) demo_mem
     (fold gather (launch 2 3 (gather_cached_kv_kernel (demo_args 8) 3)) demo_mem)"
proof -
  have "4 dvd kv_dim (demo_args 8)" by code_simp
  then show ?thesis
    using gather_optimized_equivalent [of 3 "demo_args 8" gather 2 demo_mem] by (simp add: runs_to_fold)
qed

text \<open>
  C39. A padded token, whose slot is -1, is skipped by the flash kernel but not by
  \<^verbatim>\<open>reshape_and_cache\<close>: there its first key element is written \<open>x\<close> elements before the
  beginning of the cache.
\<close>

theorem padded_slot_underflows:
  assumes "slot_mapping a ! tok = - 1" "1 < block_size a" "0 < xdim a" "xdim a < 2 ^ 31"
    and "0 < head_size a" "0 < kv_dim a" "0 < block_dim"
  shows "(K, - xdim a, c64 (int tok * key_stride a)) \<in> set (reshape_and_cache_kernel a block_dim tok 0) \<and>
    reshape_and_cache_flash_kernel a block_stride block_dim tok tid = []"
proof -
  have q: "- 1 sdiv block_size a = 0" "- 1 smod block_size a = - 1"
    using assms(2) by (simp_all add: signed_divide_int_def signed_modulo_int_def div_eq_0_iff)
  have "c64 (- xdim a) = - xdim a"
    using assms(3,4) by (simp add: c64_def signed_take_bit_int_eq_self)
  moreover have "c32 0 = 0" by simp
  ultimately have "cache_key_idx64 a 0 (- 1) 0 = - xdim a"
    by (simp add: cache_key_idx64_def Let_def)
  moreover have "0 \<in> set (thread_loop block_dim (kv_dim a) 0)"
    using assms(6,7) by (auto simp: thread_loop_set)
  ultimately show ?thesis
    using assms(1) q by (force simp: reshape_and_cache_kernel_def reshape_and_cache_flash_kernel_def Let_def)
qed

theorem padded_slot_underflows_witness:
  "(K, - 4, 0) \<in> set (reshape_and_cache_kernel ((demo_args 8)\<lparr>slot_mapping := [- 1]\<rparr>) 8 0 0)"
proof -
  let ?a = "(demo_args 8)\<lparr>slot_mapping := [- 1]\<rparr>"
  have h: "slot_mapping ?a ! 0 = - 1" "1 < block_size ?a" "0 < xdim ?a" "xdim ?a < 2 ^ 31"
    "0 < head_size ?a" "0 < kv_dim ?a" "0 < (8 :: nat)" "xdim ?a = 4" "c64 (int 0 * key_stride ?a) = 0" by code_simp+
  show ?thesis using padded_slot_underflows [OF h(1-7)] h(8,9) by simp
qed

section \<open>Copying blocks\<close>

definition disjoint_copies :: "lcopy set \<Rightarrow> bool" where
  "disjoint_copies A \<longleftrightarrow>
     (\<forall>l sd t s s'. (l, sd, t, s) \<in> A \<longrightarrow> (l, sd, t, s') \<in> A \<longrightarrow> s = s') \<and>
     (\<forall>l sd t s t' s'. (l, sd, t, s) \<in> A \<longrightarrow> (l, sd, t', s') \<in> A \<longrightarrow> t \<noteq> s')"

definition lread :: "'a lmem \<Rightarrow> nat \<Rightarrow> side \<Rightarrow> int \<Rightarrow> 'a" where
  "lread m l sd = (case sd of K \<Rightarrow> lkey m l | V \<Rightarrow> lval m l)"

lemma lread_step:
  "lread (lcopy_step (l', sd', t', s') m) l sd t =
     (if l = l' \<and> sd = sd' \<and> t = t' then lread m l sd s' else lread m l sd t)"
  by (cases sd; cases sd') (auto simp: lread_def)

lemma disjoint_copies_mono: "disjoint_copies A \<Longrightarrow> B \<subseteq> A \<Longrightarrow> disjoint_copies B"
  unfolding disjoint_copies_def by (meson subsetD)

lemma fold_lcopy:
  assumes "disjoint_copies (set ops)"
  shows "((l, sd, t, s) \<in> set ops \<longrightarrow> lread (fold lcopy_step ops m) l sd t = lread m l sd s) \<and>
    ((\<forall>s. (l, sd, t, s) \<notin> set ops) \<longrightarrow> lread (fold lcopy_step ops m) l sd t = lread m l sd t)"
  using assms
proof (induction ops arbitrary: t s rule: rev_induct)
  case (snoc c ops)
  obtain l' sd' t' s' where c: "c = (l', sd', t', s')" by (cases c)
  have "disjoint_copies (set ops)" by (rule disjoint_copies_mono [OF snoc.prems]) auto
  note ih = snoc.IH [OF this]
  have src: "lread (fold lcopy_step ops m) l' sd' s' = lread m l' sd' s'"
    if "l = l'" "sd = sd'"
  proof -
    have "c \<in> set (ops @ [c])" by simp
    then have "(l', sd', s', z) \<notin> set ops" for z
      using snoc.prems unfolding disjoint_copies_def c by (metis Un_iff set_append)
    then show ?thesis using ih [of s'] that by blast
  qed
  have same: "s1 = s2" if "(l, sd, t, s1) \<in> set (ops @ [c])" "(l, sd, t, s2) \<in> set (ops @ [c])" for s1 s2
    using snoc.prems that unfolding disjoint_copies_def by blast
  show ?case using ih [of t s] src same [of s s'] by (auto simp: c lread_step)
qed simp

definition block_pairs :: "(int \<times> int list) list \<Rightarrow> (int \<times> int) list" where
  "block_pairs mapping = concat (map (\<lambda>(src, dsts). map (Pair src) dsts) mapping)"

lemma block_mapping_vec_pairs:
  "block_mapping_vec mapping = concat (map (\<lambda>(s, d). [s, d]) (block_pairs mapping))"
  unfolding block_mapping_vec_def block_pairs_def
  by (induction mapping) (auto simp: comp_def)

lemma vec_nth:
  "length (concat (map (\<lambda>(s, d). [s, d]) ps)) = 2 * length ps"
  "p < length ps \<Longrightarrow> concat (map (\<lambda>(s, d). [s, d]) ps) ! (2 * p) = fst (ps ! p)"
  "p < length ps \<Longrightarrow> concat (map (\<lambda>(s, d). [s, d]) ps) ! (2 * p + 1) = snd (ps ! p)"
proof (induction ps arbitrary: p)
  case (Cons x ps)
  obtain s d where x: "x = (s, d)" by fastforce
  {
    case 1
    then show ?case using Cons.IH(1) x by simp
  next
    case 2
    then show ?case using Cons.IH(2) x by (cases p) auto
  next
    case 3
    then show ?case using Cons.IH(3) x by (cases p) auto
  }
qed simp_all

definition block_copy :: "int list \<Rightarrow> nat \<Rightarrow> nat \<Rightarrow> nat \<Rightarrow> side \<Rightarrow> nat \<Rightarrow> lcopy" where
  "block_copy vec n l p sd i =
     (l, sd, c64 (c64 (vec ! (2 * p + 1) * int n) + int i), c64 (c64 (vec ! (2 * p) * int n) + int i))"

lemma copy_kernel_set:
  assumes "0 < b"
  shows "set (concat (map (copy_blocks_kernel vec n b l p) [0..<b])) = {c. \<exists>i < n. \<exists>sd. c = block_copy vec n l p sd i}"
proof -
  let ?c = "block_copy vec n l p"
  have idx: "(\<Union>t < b. set (thread_loop b n t)) = {..<n}"
    using arg_cong [OF threads_cover [OF assms, of n], of set_mset] by (simp add: atLeast0LessThan)
  have sd: "(\<exists>sd. c = ?c sd i) \<longleftrightarrow> c = ?c K i \<or> c = ?c V i" for c i by (metis side.exhaust)
  have "set (concat (map (copy_blocks_kernel vec n b l p) [0..<b])) =
      (\<Union>t < b. ?c K ` set (thread_loop b n t) \<union> ?c V ` set (thread_loop b n t))"
    by (simp add: copy_blocks_kernel_def block_copy_def Let_def atLeast0LessThan)
  also have "\<dots> = ?c K ` (\<Union>t < b. set (thread_loop b n t)) \<union> ?c V ` (\<Union>t < b. set (thread_loop b n t))"
    by (simp only: image_UN UN_Un_distrib)
  also have "\<dots> = {c. \<exists>i < n. c = ?c K i \<or> c = ?c V i}" unfolding idx by blast
  finally show ?thesis by (simp only: sd)
qed

text \<open>The blocks of a cache fit into 64-bit indices, and no block is both copied from and copied to.\<close>

definition mapping_ok :: "(int \<times> int list) list \<Rightarrow> int \<Rightarrow> nat \<Rightarrow> bool" where
  "mapping_ok mapping num_blocks n \<longleftrightarrow> num_blocks * int n < 2 ^ 63 \<and>
     (\<forall>(s, d) \<in> set (block_pairs mapping). 0 \<le> s \<and> s < num_blocks \<and> 0 \<le> d \<and> d < num_blocks) \<and>
     distinct (map snd (block_pairs mapping)) \<and>
     set (map fst (block_pairs mapping)) \<inter> set (map snd (block_pairs mapping)) = {}"

lemma block_idx:
  assumes "0 \<le> s" "s < nb" "nb * int n < 2 ^ 63" "i < n"
  shows "c64 (c64 (s * int n) + int i) = s * int n + int i"
proof -
  have b: "0 \<le> s * int n + int i" "s * int n + int i < nb * int n"
    using radix_bound [of s nb "int i" "int n"] assms by auto
  have z: "0 \<le> s * int n" using assms(1) by simp
  have "s * int n < 2 ^ 63" "s * int n + int i < 2 ^ 63" using b assms(3) by linarith+
  then show ?thesis using c64_id [OF z] c64_id [OF b(1)] by simp
qed

lemma block_copy_eq:
  assumes "mapping_ok mapping nb n" "p < length (block_pairs mapping)" "i < n"
  shows "block_copy (block_mapping_vec mapping) n l p sd i =
    (l, sd, snd (block_pairs mapping ! p) * int n + int i, fst (block_pairs mapping ! p) * int n + int i)"
proof -
  obtain s d where sd: "block_pairs mapping ! p = (s, d)" by fastforce
  then have "(s, d) \<in> set (block_pairs mapping)" using assms(2) nth_mem by metis
  then have r: "0 \<le> s" "s < nb" "0 \<le> d" "d < nb" "nb * int n < 2 ^ 63" using assms(1) by (auto simp: mapping_ok_def)
  show ?thesis
    unfolding block_copy_def block_mapping_vec_pairs vec_nth(2,3) [OF assms(2)] sd
    using block_idx [OF r(1,2,5) assms(3)] block_idx [OF r(3,4,5) assms(3)] by simp
qed

lemma copy_blocks_set:
  assumes "copy_blocks key_caches value_caches mapping = Inr ops" "key_caches \<noteq> []"
    and "n = nat (c32 (prod_list (tl (t_size (hd key_caches)))))" "0 < n" "mapping_ok mapping nb n"
  shows "set ops = {c. \<exists>l < length key_caches. \<exists>p < length (block_pairs mapping). \<exists>i < n. \<exists>sd.
    c = (l, sd, snd (block_pairs mapping ! p) * int n + int i, fst (block_pairs mapping ! p) * int n + int i)}"
proof -
  let ?vec = "block_mapping_vec mapping"
  have np: "length ?vec div 2 = length (block_pairs mapping)"
    unfolding block_mapping_vec_pairs vec_nth(1) by simp
  have b: "0 < min 1024 n" using assms(4) by simp
  have "ops = concat (map (\<lambda>l. concat (map (\<lambda>p. concat (map (copy_blocks_kernel ?vec n (min 1024 n) l p)
      [0..<min 1024 n])) [0..<length (block_pairs mapping)])) [0..<length key_caches])"
    using assms(1,2) np unfolding copy_blocks_def Let_def assms(3) [symmetric] by (auto split: if_splits)
  then have "set ops = (\<Union>l < length key_caches. \<Union>p < length (block_pairs mapping).
      set (concat (map (copy_blocks_kernel ?vec n (min 1024 n) l p) [0..<min 1024 n])))"
    by (simp only: set_concat set_map set_upt image_image UN_simps atLeast0LessThan)
  also have "\<dots> = (\<Union>l < length key_caches. \<Union>p < length (block_pairs mapping).
      {c. \<exists>i < n. \<exists>sd. c = (l, sd, snd (block_pairs mapping ! p) * int n + int i, fst (block_pairs mapping ! p) * int n + int i)})"
    unfolding copy_kernel_set [OF b]
    by (intro SUP_cong refl Collect_cong ex_cong1 conj_cong) (simp add: block_copy_eq [OF assms(5)])
  also have "\<dots> = {c. \<exists>l < length key_caches. \<exists>p < length (block_pairs mapping). \<exists>i < n. \<exists>sd.
      c = (l, sd, snd (block_pairs mapping ! p) * int n + int i, fst (block_pairs mapping ! p) * int n + int i)}"
    by blast
  finally show ?thesis .
qed

lemma copy_blocks_disjoint:
  assumes "mapping_ok mapping nb n"
  shows "disjoint_copies {c. \<exists>l < layers. \<exists>p < length (block_pairs mapping). \<exists>i < n. \<exists>sd.
    c = (l, sd, snd (block_pairs mapping ! p) * int n + int i, fst (block_pairs mapping ! p) * int n + int i)}"
    (is "disjoint_copies ?A")
proof -
  let ?ps = "block_pairs mapping"
  have mem: "\<exists>p i. p < length ?ps \<and> i < n \<and> t = snd (?ps ! p) * int n + int i \<and> s = fst (?ps ! p) * int n + int i"
    if "(l, sd, t, s) \<in> ?A" for l sd t s
    using that by blast
  have dst: "p = q \<and> i = j" if "p < length ?ps" "q < length ?ps" "i < n" "j < n"
      "snd (?ps ! p) * int n + int i = snd (?ps ! q) * int n + int j" for p q i j
  proof -
    have "snd (?ps ! p) = snd (?ps ! q) \<and> int i = int j" using radix_inj [OF that(5)] that by simp
    moreover have "distinct (map snd ?ps)" using assms by (simp add: mapping_ok_def)
    ultimately show ?thesis using that(1,2) nth_eq_iff_index_eq [of "map snd ?ps" p q] by simp
  qed
  have src: "snd (?ps ! p) * int n + int i \<noteq> fst (?ps ! q) * int n + int j"
    if "p < length ?ps" "q < length ?ps" "i < n" "j < n" for p q i j
  proof
    assume e: "snd (?ps ! p) * int n + int i = fst (?ps ! q) * int n + int j"
    have "snd (?ps ! p) = fst (?ps ! q)" using radix_inj [OF e] that by simp
    moreover have "snd (?ps ! p) \<in> set (map snd ?ps)" "fst (?ps ! q) \<in> set (map fst ?ps)" using that by simp_all
    ultimately show False using assms unfolding mapping_ok_def by (metis IntI empty_iff)
  qed
  show ?thesis
    unfolding disjoint_copies_def
  proof (intro conjI allI impI)
    fix l sd t s s' assume "(l, sd, t, s) \<in> ?A" "(l, sd, t, s') \<in> ?A"
    then obtain p i q j where "p < length ?ps" "i < n" "t = snd (?ps ! p) * int n + int i" "s = fst (?ps ! p) * int n + int i"
      "q < length ?ps" "j < n" "t = snd (?ps ! q) * int n + int j" "s' = fst (?ps ! q) * int n + int j"
      using mem by meson
    then show "s = s'" using dst [of p q i j] by auto
  next
    fix l sd t s t' s' assume "(l, sd, t, s) \<in> ?A" "(l, sd, t', s') \<in> ?A"
    then obtain p i q j where "p < length ?ps" "i < n" "t = snd (?ps ! p) * int n + int i"
      "q < length ?ps" "j < n" "s' = fst (?ps ! q) * int n + int j"
      using mem by meson
    then show "t \<noteq> s'" using src [of p q i j] by auto
  qed
qed

text \<open>
  C40. Copying blocks is exact. When no block is both a source and a destination and the destinations
  are different, then after \<^verbatim>\<open>copy_blocks\<close>, in every layer and whatever the order of the threads,
  each destination block of the key and of the value cache holds what its source block held, and every
  element outside the destination blocks is unchanged.
\<close>

theorem copy_blocks_exact:
  assumes "copy_blocks key_caches value_caches mapping = Inr ops" "key_caches \<noteq> []"
    and "n = nat (c32 (prod_list (tl (t_size (hd key_caches)))))" "0 < n" "mapping_ok mapping nb n"
    and "mset ops' = mset ops" "l < length key_caches"
  shows "((s, d) \<in> set (block_pairs mapping) \<longrightarrow> i < n \<longrightarrow>
      lread (fold lcopy_step ops' m) l sd (d * int n + int i) = lread m l sd (s * int n + int i)) \<and>
    ((\<forall>(s, d) \<in> set (block_pairs mapping). t < d * int n \<or> d * int n + int n \<le> t) \<longrightarrow>
      lread (fold lcopy_step ops' m) l sd t = lread m l sd t)"
proof -
  have set_ops: "set ops' = {c. \<exists>l < length key_caches. \<exists>p < length (block_pairs mapping). \<exists>i < n. \<exists>sd.
      c = (l, sd, snd (block_pairs mapping ! p) * int n + int i, fst (block_pairs mapping ! p) * int n + int i)}" (is "_ = ?A")
    using copy_blocks_set [OF assms(1-5)] arg_cong [OF assms(6), of set_mset] by simp
  have d: "disjoint_copies (set ops')" unfolding set_ops by (rule copy_blocks_disjoint [OF assms(5)])
  note f = fold_lcopy [OF d]
  have "lread (fold lcopy_step ops' m) l sd (d * int n + int i) = lread m l sd (s * int n + int i)"
    if sd: "(s, d) \<in> set (block_pairs mapping)" and i: "i < n"
  proof -
    obtain p where "p < length (block_pairs mapping)" "block_pairs mapping ! p = (s, d)"
      using sd by (auto simp: in_set_conv_nth)
    then have "(l, sd, d * int n + int i, s * int n + int i) \<in> set ops'"
      unfolding set_ops using i assms(7) by force
    then show ?thesis using f [of l sd "d * int n + int i" "s * int n + int i" m] by blast
  qed
  moreover have "lread (fold lcopy_step ops' m) l sd t = lread m l sd t"
    if out: "\<forall>(s, d) \<in> set (block_pairs mapping). t < d * int n \<or> d * int n + int n \<le> t"
  proof -
    have "(l, sd, t, z) \<notin> set ops'" for z
    proof
      assume "(l, sd, t, z) \<in> set ops'"
      then obtain p i where p: "p < length (block_pairs mapping)" "i < n"
        "t = snd (block_pairs mapping ! p) * int n + int i" unfolding set_ops by blast
      obtain s d where sd: "block_pairs mapping ! p = (s, d)" by fastforce
      then have "(s, d) \<in> set (block_pairs mapping)" using p(1) by (metis nth_mem)
      then have "t < d * int n \<or> d * int n + int n \<le> t" using out by blast
      then show False using p(2,3) sd by auto
    qed
    then show ?thesis using f [of l sd t z m for z] by blast
  qed
  ultimately show ?thesis by blast
qed

theorem copy_blocks_exact_witness:
  "\<exists>ops. copy_blocks [demo_cache] [demo_cache] [(0, [1])] = Inr ops \<and>
     lkey (fold lcopy_step ops \<lparr>lkey = (\<lambda>_ i. i), lval = (\<lambda>_ i. i)\<rparr>) 0 37 = (5 :: int)"
proof -
  have n: "32 = nat (c32 (prod_list (tl (t_size (hd [demo_cache])))))" "(0, 1) \<in> set (block_pairs [(0, [1])])"
    "mapping_ok [(0, [1])] 2 32" by code_simp+
  obtain ops where o: "copy_blocks [demo_cache] [demo_cache] [(0, [1])] = Inr ops"
    by (simp add: copy_blocks_def demo_cache_def is_cuda_def Let_def)
  have "lread (fold lcopy_step ops \<lparr>lkey = (\<lambda>_ i. i), lval = (\<lambda>_ i. i)\<rparr>) 0 K (1 * int 32 + int 5) =
      lread \<lparr>lkey = (\<lambda>_ i. i), lval = (\<lambda>_ i. i)\<rparr> 0 K (0 * int 32 + int 5)"
    using copy_blocks_exact [OF o _ n(1) _ n(3) refl, where l = 0 and s = 0 and d = 1 and i = 5 and sd = K
        and m = "\<lparr>lkey = (\<lambda>_ i. i), lval = (\<lambda>_ i. i)\<rparr>"] n(2) by simp
  then show ?thesis using o by (auto simp: lread_def)
qed

end
