(* ===== verification/Engine_Seq.thy ===== *)
theory Engine_Seq
  imports Vattn_Prelude
begin

text \<open>
  The sequences of the serving engine (\<^verbatim>\<open>src/sarathi-lean/sarathi/core/datatypes\<close>): the state machine of a
  sequence's status, its prompt and output tokens, and the logical blocks they fill.

  An exception is a value of \<open>py_error\<close>. Times are clock ticks, and the clock's value is an argument. A missing
  timestamp is \<open>None\<close>, and subtracting it raises a \<^verbatim>\<open>TypeError\<close>.
\<close>

datatype py_error = AssertionError | ValueError | TypeError | KeyError | IndexError

fun pbind :: "py_error + 'a \<Rightarrow> ('a \<Rightarrow> py_error + 'b) \<Rightarrow> py_error + 'b" where
  "pbind (Inl e) f = Inl e"
| "pbind (Inr a) f = f a"

definition py_assert :: "bool \<Rightarrow> py_error + unit" where
  "py_assert b = (if b then Inr () else Inl AssertionError)"

definition since :: "int \<Rightarrow> int option \<Rightarrow> py_error + int" where
  "since now t = (case t of None \<Rightarrow> Inl TypeError | Some t \<Rightarrow> Inr (now - t))"

section \<open>Status\<close>

datatype SequenceStatus =
  WAITING | RUNNING | PAUSED | FINISHED_STOPPED | FINISHED_LENGTH_CAPPED | FINISHED_IGNORED

definition is_finished_status :: "SequenceStatus \<Rightarrow> bool" where
  "is_finished_status s \<longleftrightarrow> s \<in> {FINISHED_STOPPED, FINISHED_LENGTH_CAPPED, FINISHED_IGNORED}"

definition is_executing_status :: "SequenceStatus \<Rightarrow> bool" where
  "is_executing_status s \<longleftrightarrow> s \<in> {RUNNING, PAUSED}"

fun get_finished_reason :: "SequenceStatus \<Rightarrow> string option" where
  "get_finished_reason FINISHED_STOPPED = Some ''stop''"
| "get_finished_reason FINISHED_LENGTH_CAPPED = Some ''length''"
| "get_finished_reason FINISHED_IGNORED = Some ''length''"
| "get_finished_reason _ = None"

record SequenceState =
  arrived_at :: int
  num_prompt_tokens :: nat
  num_output_tokens :: nat
  status :: SequenceStatus
  is_scheduled :: bool
  is_completed :: bool
  scheduled_at :: "int option"
  completed_at :: "int option"
  prompt_processing_completed_at :: "int option"
  last_restart_at :: "int option"
  last_pause_at :: "int option"
  execution_time :: int
  preempted_time :: int
  last_execution_start_at :: "int option"
  num_restarts :: nat
  num_pauses :: nat
  is_ignore_finished :: bool
  last_token_generated_at :: "int option"
  last_token_generation_time :: int

definition SequenceState_init :: "int \<Rightarrow> nat \<Rightarrow> SequenceState" where
  "SequenceState_init arrived n = \<lparr>arrived_at = arrived, num_prompt_tokens = n, num_output_tokens = 0, status = WAITING,
     is_scheduled = False, is_completed = False, scheduled_at = None, completed_at = None,
     prompt_processing_completed_at = None, last_restart_at = None, last_pause_at = None, execution_time = 0,
     preempted_time = 0, last_execution_start_at = None, num_restarts = 0, num_pauses = 0, is_ignore_finished = False,
     last_token_generated_at = None, last_token_generation_time = 0\<rparr>"

definition handle_transitions_from_waiting_status :: "int \<Rightarrow> SequenceStatus \<Rightarrow> SequenceState \<Rightarrow> py_error + SequenceState" where
  "handle_transitions_from_waiting_status now to s =
     (if to = RUNNING then
        pbind (if scheduled_at s = None
               then pbind (py_assert (num_restarts s = 0)) (\<lambda>_. Inr (s\<lparr>is_scheduled := True, scheduled_at := Some now\<rparr>))
               else pbind (py_assert (num_restarts s > 0)) (\<lambda>_.
                 pbind (since now (last_restart_at s)) (\<lambda>d. Inr (s\<lparr>preempted_time := preempted_time s + d\<rparr>))))
          (\<lambda>s. Inr (s\<lparr>last_execution_start_at := Some now\<rparr>))
      else if to = FINISHED_IGNORED then
        Inr (s\<lparr>is_ignore_finished := True, is_completed := True, completed_at := Some now, scheduled_at := Some now\<rparr>)
      else Inl ValueError)"

definition handle_transitions_from_running_status :: "int \<Rightarrow> SequenceStatus \<Rightarrow> SequenceState \<Rightarrow> py_error + SequenceState" where
  "handle_transitions_from_running_status now to s =
     pbind (since now (last_execution_start_at s)) (\<lambda>d.
       let s = s\<lparr>execution_time := execution_time s + d\<rparr> in
       if to = PAUSED then Inr (s\<lparr>num_pauses := num_pauses s + 1, last_pause_at := Some now\<rparr>)
       else if to = WAITING then Inr (s\<lparr>num_restarts := num_restarts s + 1, last_restart_at := Some now\<rparr>)
       else Inl ValueError)"

definition handle_transitions_from_paused_status :: "int \<Rightarrow> SequenceStatus \<Rightarrow> SequenceState \<Rightarrow> py_error + SequenceState" where
  "handle_transitions_from_paused_status now to s =
     pbind (since now (last_pause_at s)) (\<lambda>d.
       let s = s\<lparr>preempted_time := preempted_time s + d\<rparr> in
       if to = FINISHED_STOPPED \<or> to = FINISHED_LENGTH_CAPPED then Inr (s\<lparr>is_completed := True, completed_at := Some now\<rparr>)
       else if to = RUNNING then Inr (s\<lparr>last_execution_start_at := Some now\<rparr>)
       else if to = WAITING then Inr (s\<lparr>num_restarts := num_restarts s + 1, last_restart_at := Some now\<rparr>)
       else Inl ValueError)"

definition state_set_status :: "int \<Rightarrow> SequenceStatus \<Rightarrow> SequenceState \<Rightarrow> py_error + SequenceState" where
  "state_set_status now to s =
     pbind (if status s = WAITING then handle_transitions_from_waiting_status now to s
            else if status s = RUNNING then handle_transitions_from_running_status now to s
            else if status s = PAUSED then handle_transitions_from_paused_status now to s
            else Inl ValueError)
       (\<lambda>s. Inr (s\<lparr>status := to\<rparr>))"

definition on_prompt_processing_completed :: "int \<Rightarrow> SequenceState \<Rightarrow> SequenceState" where
  "on_prompt_processing_completed now s = s\<lparr>prompt_processing_completed_at := Some now\<rparr>"

text \<open>The timestamp 0 counts as missing here, as it is false in a condition.\<close>

definition on_token_generated :: "int \<Rightarrow> SequenceState \<Rightarrow> SequenceState" where
  "on_token_generated now s =
     s\<lparr>num_output_tokens := num_output_tokens s + 1,
       last_token_generation_time :=
         (case last_token_generated_at s of None \<Rightarrow> 0 | Some t \<Rightarrow> if t = 0 then 0 else now - t),
       last_token_generated_at := Some now\<rparr>"

section \<open>Logical blocks\<close>

record LogicalTokenBlock =
  block_number :: nat
  lb_block_size :: nat
  lb_token_ids :: "int list"
  num_tokens :: nat

definition LogicalTokenBlock_init :: "nat \<Rightarrow> nat \<Rightarrow> LogicalTokenBlock" where
  "LogicalTokenBlock_init number bs =
     \<lparr>block_number = number, lb_block_size = bs, lb_token_ids = replicate bs (- 1), num_tokens = 0\<rparr>"

definition get_num_empty_slots :: "LogicalTokenBlock \<Rightarrow> nat" where
  "get_num_empty_slots b = lb_block_size b - num_tokens b"

definition is_full :: "LogicalTokenBlock \<Rightarrow> bool" where
  "is_full b \<longleftrightarrow> num_tokens b = lb_block_size b"

text \<open>A slice assignment replaces the slots from the current index on, as many as there are tokens.\<close>

definition append_tokens :: "int list \<Rightarrow> LogicalTokenBlock \<Rightarrow> py_error + LogicalTokenBlock" where
  "append_tokens ts b =
     pbind (py_assert (length ts \<le> get_num_empty_slots b)) (\<lambda>_.
       Inr (b\<lparr>lb_token_ids := take (num_tokens b) (lb_token_ids b) @ ts @ drop (num_tokens b + length ts) (lb_token_ids b),
              num_tokens := num_tokens b + length ts\<rparr>))"

definition lb_get_token_ids :: "LogicalTokenBlock \<Rightarrow> int list" where
  "lb_get_token_ids b = take (num_tokens b) (lb_token_ids b)"

definition lb_get_last_token_id :: "LogicalTokenBlock \<Rightarrow> py_error + int" where
  "lb_get_last_token_id b = pbind (py_assert (num_tokens b > 0)) (\<lambda>_. Inr (lb_token_ids b ! (num_tokens b - 1)))"

definition append_logical_block :: "nat \<Rightarrow> LogicalTokenBlock list \<Rightarrow> LogicalTokenBlock list" where
  "append_logical_block bs blocks = blocks @ [LogicalTokenBlock_init (length blocks) bs]"

text \<open>
  One round of the loop of \<^verbatim>\<open>_append_tokens_to_blocks\<close> and the loop, over the tokens that are left. The loop may
  not end, for a block size of 0, so its value is an option.
\<close>

definition append_round :: "nat \<Rightarrow> int list \<Rightarrow> LogicalTokenBlock list \<Rightarrow> py_error + int list \<times> LogicalTokenBlock list" where
  "append_round bs ts blocks =
     (let blocks = (if blocks = [] then append_logical_block bs blocks else blocks);
          blocks = (if is_full (last blocks) then append_logical_block bs blocks else blocks);
          num_empty_slots = get_num_empty_slots (last blocks)
      in pbind (append_tokens (take num_empty_slots ts) (last blocks)) (\<lambda>b.
           Inr (drop num_empty_slots ts, butlast blocks @ [b])))"

partial_function (option) append_tokens_to_blocks ::
  "nat \<Rightarrow> int list \<Rightarrow> LogicalTokenBlock list \<Rightarrow> (py_error + LogicalTokenBlock list) option" where
  "append_tokens_to_blocks bs ts blocks =
     (if ts = [] then Some (Inr blocks)
      else case append_round bs ts blocks of
        Inl e \<Rightarrow> Some (Inl e)
      | Inr (ts, blocks) \<Rightarrow> append_tokens_to_blocks bs ts blocks)"

declare append_tokens_to_blocks.simps [code]

section \<open>Sequences\<close>

record SamplingParams =
  stop :: "string list"
  max_tokens :: nat
  ignore_eos :: bool

record Sequence =
  seq_id :: string
  sq_block_size :: nat
  eos_token_id :: int
  arrival_time :: int
  sampling_params :: SamplingParams
  prompt_token_ids :: "int list"
  output_token_ids :: "int list"
  prompt_tokens_processed :: int
  prompt_processing_finished :: bool
  output_text :: string
  logical_token_blocks :: "LogicalTokenBlock list"
  seq_state :: SequenceState

definition Sequence_init ::
  "string \<Rightarrow> int list \<Rightarrow> nat \<Rightarrow> int \<Rightarrow> int \<Rightarrow> SamplingParams \<Rightarrow> (py_error + Sequence) option" where
  "Sequence_init sid prompt bs eos arrival params =
     map_option (\<lambda>r. pbind r (\<lambda>blocks.
         Inr \<lparr>seq_id = sid, sq_block_size = bs, eos_token_id = eos, arrival_time = arrival, sampling_params = params,
              prompt_token_ids = prompt, output_token_ids = [], prompt_tokens_processed = 0, prompt_processing_finished = False,
              output_text = [], logical_token_blocks = blocks, seq_state = SequenceState_init arrival (length prompt)\<rparr>))
       (append_tokens_to_blocks bs prompt [])"

definition get_status :: "Sequence \<Rightarrow> SequenceStatus" where "get_status q = status (seq_state q)"

definition set_status :: "int \<Rightarrow> SequenceStatus \<Rightarrow> Sequence \<Rightarrow> py_error + Sequence" where
  "set_status now to q = pbind (state_set_status now to (seq_state q)) (\<lambda>s. Inr (q\<lparr>seq_state := s\<rparr>))"

definition get_len :: "Sequence \<Rightarrow> nat" where
  "get_len q = length (output_token_ids q) + length (prompt_token_ids q)"

definition get_prompt_len :: "Sequence \<Rightarrow> nat" where "get_prompt_len q = length (prompt_token_ids q)"

definition get_output_len :: "Sequence \<Rightarrow> nat" where "get_output_len q = length (output_token_ids q)"

definition get_token_ids :: "Sequence \<Rightarrow> int list" where "get_token_ids q = prompt_token_ids q @ output_token_ids q"

definition get_last_token_id :: "Sequence \<Rightarrow> py_error + int" where
  "get_last_token_id q =
     (if output_token_ids q = []
      then if prompt_token_ids q = [] then Inl IndexError else Inr (last (prompt_token_ids q))
      else Inr (last (output_token_ids q)))"

definition get_next_prompt_chunk_token_ids :: "Sequence \<Rightarrow> nat \<Rightarrow> py_error + int list" where
  "get_next_prompt_chunk_token_ids q n =
     (let start = nat (prompt_tokens_processed q) in
      pbind (py_assert (start + n \<le> length (prompt_token_ids q))) (\<lambda>_. Inr (take n (drop start (prompt_token_ids q)))))"

definition get_next_prompt_chunk_len :: "Sequence \<Rightarrow> int \<Rightarrow> int" where
  "get_next_prompt_chunk_len q chunk_size = min chunk_size (int (length (prompt_token_ids q)) - prompt_tokens_processed q)"

definition is_finished :: "Sequence \<Rightarrow> bool" where "is_finished q = is_finished_status (get_status q)"
definition is_executing :: "Sequence \<Rightarrow> bool" where "is_executing q = is_executing_status (get_status q)"
definition is_waiting :: "Sequence \<Rightarrow> bool" where "is_waiting q \<longleftrightarrow> get_status q = WAITING"
definition is_paused :: "Sequence \<Rightarrow> bool" where "is_paused q \<longleftrightarrow> get_status q = PAUSED"
definition is_running :: "Sequence \<Rightarrow> bool" where "is_running q \<longleftrightarrow> get_status q = RUNNING"

definition update_prompt_tokens_processed :: "int \<Rightarrow> int \<Rightarrow> Sequence \<Rightarrow> py_error + Sequence" where
  "update_prompt_tokens_processed now n q =
     pbind (py_assert (\<not> prompt_processing_finished q)) (\<lambda>_.
     pbind (py_assert (n > 0)) (\<lambda>_.
       let q = q\<lparr>prompt_tokens_processed := prompt_tokens_processed q + n\<rparr> in
       pbind (py_assert (prompt_tokens_processed q \<le> int (length (prompt_token_ids q)))) (\<lambda>_.
         Inr (if prompt_tokens_processed q = int (length (prompt_token_ids q))
              then q\<lparr>prompt_processing_finished := True, seq_state := on_prompt_processing_completed now (seq_state q)\<rparr>
              else q))))"

definition append_token_id :: "int \<Rightarrow> int \<Rightarrow> Sequence \<Rightarrow> (py_error + Sequence) option" where
  "append_token_id now t q =
     (if \<not> prompt_processing_finished q then Some (Inl AssertionError)
      else let q = q\<lparr>output_token_ids := output_token_ids q @ [t]\<rparr> in
        map_option (\<lambda>r. pbind r (\<lambda>blocks.
            Inr (q\<lparr>logical_token_blocks := blocks, seq_state := on_token_generated now (seq_state q)\<rparr>)))
          (append_tokens_to_blocks (sq_block_size q) [t] (logical_token_blocks q)))"

definition reset_for_recompute :: "int \<Rightarrow> Sequence \<Rightarrow> py_error + Sequence" where
  "reset_for_recompute now q =
     pbind (set_status now WAITING q) (\<lambda>q.
       Inr (q\<lparr>prompt_tokens_processed := 0, prompt_processing_finished := False,
              prompt_token_ids := prompt_token_ids q @ output_token_ids q, output_token_ids := []\<rparr>))"

definition ends_with :: "string \<Rightarrow> string \<Rightarrow> bool" where
  "ends_with text suffix \<longleftrightarrow> length suffix \<le> length text \<and> drop (length text - length suffix) text = suffix"

text \<open>For an empty stop string, \<^verbatim>\<open>text[:-0]\<close> is the empty string.\<close>

definition cut_end :: "string \<Rightarrow> string \<Rightarrow> string" where
  "cut_end text suffix = (if suffix = [] then [] else take (length text - length suffix) text)"

definition check_stop :: "int \<Rightarrow> Sequence \<Rightarrow> py_error + Sequence" where
  "check_stop now q =
     (case filter (ends_with (output_text q)) (stop (sampling_params q)) of
        stop_str # _ \<Rightarrow> set_status now FINISHED_STOPPED (q\<lparr>output_text := cut_end (output_text q) stop_str\<rparr>)
      | [] \<Rightarrow>
        if get_output_len q = max_tokens (sampling_params q) then set_status now FINISHED_LENGTH_CAPPED q
        else if \<not> ignore_eos (sampling_params q)
        then pbind (get_last_token_id q) (\<lambda>t.
               if t = eos_token_id q then set_status now FINISHED_STOPPED q else Inr q)
        else Inr q)"

section \<open>The status machine\<close>

fun allowed :: "SequenceStatus \<Rightarrow> SequenceStatus \<Rightarrow> bool" where
  "allowed WAITING to = (to \<in> {RUNNING, FINISHED_IGNORED})"
| "allowed RUNNING to = (to \<in> {PAUSED, WAITING})"
| "allowed PAUSED to = (to \<in> {FINISHED_STOPPED, FINISHED_LENGTH_CAPPED, RUNNING, WAITING})"
| "allowed _ to = False"

text \<open>Every timestamp that a transition out of the present status subtracts is there.\<close>

definition state_ok :: "SequenceState \<Rightarrow> bool" where
  "state_ok s \<longleftrightarrow>
     (case status s of
        WAITING \<Rightarrow> if scheduled_at s = None then num_restarts s = 0 else num_restarts s > 0 \<and> last_restart_at s \<noteq> None
      | RUNNING \<Rightarrow> last_execution_start_at s \<noteq> None \<and> scheduled_at s \<noteq> None
      | PAUSED \<Rightarrow> last_pause_at s \<noteq> None \<and> scheduled_at s \<noteq> None
      | _ \<Rightarrow> completed_at s \<noteq> None \<and> scheduled_at s \<noteq> None) \<and>
     (is_completed s \<longleftrightarrow> is_finished_status (status s))"

lemma pbind_assert [simp]: "pbind (py_assert b) f = (if b then f () else Inl AssertionError)"
  by (simp add: py_assert_def)

lemma since_Some [simp]: "since now (Some t) = Inr (now - t)"
  by (simp add: since_def)

lemmas transition_defs = state_set_status_def handle_transitions_from_waiting_status_def
  handle_transitions_from_running_status_def handle_transitions_from_paused_status_def

lemma state_set_status_cases:
  assumes "state_ok s"
  shows "if allowed (status s) to then \<exists>s'. state_set_status now to s = Inr s' \<and> state_ok s' \<and> status s' = to
    else state_set_status now to s = Inl ValueError"
  using assms
  by (cases "status s"; cases to) (auto simp: state_ok_def transition_defs is_finished_status_def Let_def split: if_splits)

text \<open>
  C15. The status machine is type-safe. In a new sequence and after any number of transitions, setting the
  status raises nothing but a \<^verbatim>\<open>ValueError\<close>, exactly for the transitions the design forbids: no assertion fails and no
  missing timestamp is subtracted. A sequence is completed exactly in a finished status.
\<close>

theorem status_machine_type_safe:
  "state_ok (SequenceState_init arrived n) \<and>
   (state_ok s \<longrightarrow>
     (if allowed (status s) to
      then \<exists>s'. state_set_status now to s = Inr s' \<and> state_ok s' \<and> status s' = to
      else state_set_status now to s = Inl ValueError))"
proof
  show "state_ok (SequenceState_init arrived n)"
    by (simp add: state_ok_def SequenceState_init_def is_finished_status_def)
  show "state_ok s \<longrightarrow> (if allowed (status s) to
      then \<exists>s'. state_set_status now to s = Inr s' \<and> state_ok s' \<and> status s' = to
      else state_set_status now to s = Inl ValueError)"
    using state_set_status_cases by blast
qed

theorem status_machine_type_safe_witness:
  "\<exists>s'. state_set_status 5 RUNNING (SequenceState_init 3 10) = Inr s' \<and> state_ok s' \<and> status s' = RUNNING"
  using status_machine_type_safe [of 3 10 "SequenceState_init 3 10" RUNNING 5]
  by (simp add: SequenceState_init_def)

section \<open>Filling the blocks\<close>

definition contents :: "LogicalTokenBlock list \<Rightarrow> int list" where
  "contents blocks = concat (map lb_get_token_ids blocks)"

definition token_block_ok :: "nat \<Rightarrow> LogicalTokenBlock \<Rightarrow> bool" where
  "token_block_ok bs b \<longleftrightarrow> lb_block_size b = bs \<and> length (lb_token_ids b) = bs \<and> 0 < num_tokens b \<and> num_tokens b \<le> bs"

definition blocks_ok :: "nat \<Rightarrow> LogicalTokenBlock list \<Rightarrow> bool" where
  "blocks_ok bs blocks \<longleftrightarrow> (\<forall>b \<in> set blocks. token_block_ok bs b) \<and> (\<forall>b \<in> set (butlast blocks). is_full b)"

lemma length_contents:
  assumes "blocks_ok bs blocks"
  shows "length (contents blocks) = (case blocks of [] \<Rightarrow> 0 | _ \<Rightarrow> (length blocks - 1) * bs + num_tokens (last blocks))"
  using assms
proof (induction blocks)
  case (Cons b blocks)
  then show ?case
    by (cases blocks) (auto simp: contents_def blocks_ok_def token_block_ok_def lb_get_token_ids_def is_full_def)
qed (simp add: contents_def)

lemma blocks_needed:
  assumes "blocks_ok bs blocks" "0 < bs"
  shows "length blocks = (length (contents blocks) + bs - 1) div bs"
proof (cases blocks)
  case Nil
  then show ?thesis using assms(2) by (simp add: contents_def)
next
  case (Cons b rest)
  let ?n = "num_tokens (last blocks)"
  have n: "0 < ?n" "?n \<le> bs" using assms(1) Cons by (auto simp: blocks_ok_def token_block_ok_def)
  have "length (contents blocks) + bs - 1 = (length blocks - 1) * bs + (?n + bs - 1)"
    using length_contents [OF assms(1)] Cons n by simp
  also have "\<dots> div bs = length blocks - 1 + (?n + bs - 1) div bs"
    using assms(2) by (simp only: div_mult_self3)
  also have "(?n + bs - 1) div bs = 1" using n by (intro div_nat_eqI) auto
  finally show ?thesis using Cons by simp
qed

lemma append_to_block:
  assumes "lb_block_size b = bs" "length (lb_token_ids b) = bs" "num_tokens b < bs" "ts \<noteq> []"
  shows "\<exists>b'. append_tokens (take (get_num_empty_slots b) ts) b = Inr b' \<and> token_block_ok bs b' \<and>
    lb_get_token_ids b' = lb_get_token_ids b @ take (get_num_empty_slots b) ts \<and>
    (drop (get_num_empty_slots b) ts \<noteq> [] \<longrightarrow> is_full b')"
  using assms
  by (auto simp: append_tokens_def token_block_ok_def lb_get_token_ids_def is_full_def get_num_empty_slots_def min_def)

lemma append_round_ok:
  assumes "blocks_ok bs blocks" "0 < bs" "ts \<noteq> []"
  shows "\<exists>ts' blocks'. append_round bs ts blocks = Inr (ts', blocks') \<and> blocks_ok bs blocks' \<and>
    length ts' < length ts \<and> contents blocks' @ ts' = contents blocks @ ts"
proof -
  define bl where "bl = (if blocks = [] \<or> is_full (last blocks) then append_logical_block bs blocks else blocks)"
  have ne: "bl \<noteq> []" by (simp add: bl_def append_logical_block_def)
  have l: "lb_block_size (last bl) = bs" "length (lb_token_ids (last bl)) = bs" "num_tokens (last bl) < bs"
    using assms(1,2)
    by (auto simp: bl_def append_logical_block_def LogicalTokenBlock_init_def blocks_ok_def token_block_ok_def is_full_def le_neq_implies_less)
  have f: "\<forall>b \<in> set (butlast bl). token_block_ok bs b \<and> is_full b"
  proof -
    have "\<forall>b \<in> set blocks. token_block_ok bs b \<and> is_full b" if "is_full (last blocks)"
      using that assms(1) append_butlast_last_id [of blocks] unfolding blocks_ok_def
      by (metis Un_iff empty_iff empty_set set_ConsD set_append)
    then show ?thesis
      using assms(1) by (auto simp: bl_def append_logical_block_def blocks_ok_def dest: in_set_butlastD)
  qed
  have c: "contents bl = contents blocks"
    by (simp add: bl_def append_logical_block_def contents_def LogicalTokenBlock_init_def lb_get_token_ids_def)
  obtain b' where b': "append_tokens (take (get_num_empty_slots (last bl)) ts) (last bl) = Inr b'" "token_block_ok bs b'"
    "lb_get_token_ids b' = lb_get_token_ids (last bl) @ take (get_num_empty_slots (last bl)) ts"
    using append_to_block [OF l assms(3)] by blast
  have e: "0 < get_num_empty_slots (last bl)" using l by (simp add: get_num_empty_slots_def)
  have "append_round bs ts blocks = Inr (drop (get_num_empty_slots (last bl)) ts, butlast bl @ [b'])"
  proof -
    have "\<not> is_full (last (append_logical_block bs []))" using assms(2)
      by (simp add: append_logical_block_def LogicalTokenBlock_init_def is_full_def)
    then show ?thesis using b'(1) by (auto simp: append_round_def bl_def Let_def)
  qed
  moreover have "blocks_ok bs (butlast bl @ [b'])" using f b'(2) by (auto simp: blocks_ok_def)
  moreover have "contents (butlast bl @ [b']) @ drop (get_num_empty_slots (last bl)) ts = contents blocks @ ts"
    using b'(3) c arg_cong [OF append_butlast_last_id [OF ne], of contents] by (simp add: contents_def)
  moreover have "length (drop (get_num_empty_slots (last bl)) ts) < length ts" using e assms(3) by simp
  ultimately show ?thesis by blast
qed

lemma append_tokens_to_blocks_returns:
  assumes "blocks_ok bs blocks" "0 < bs"
  shows "\<exists>blocks'. append_tokens_to_blocks bs ts blocks = Some (Inr blocks') \<and> blocks_ok bs blocks' \<and>
    contents blocks' = contents blocks @ ts"
  using assms(1)
proof (induction "length ts" arbitrary: ts blocks rule: less_induct)
  case less
  show ?case
  proof (cases "ts = []")
    case True
    then show ?thesis using less.prems by (subst append_tokens_to_blocks.simps) simp
  next
    case False
    from append_round_ok [OF less.prems assms(2) False] obtain ts' blocks' where
      r: "append_round bs ts blocks = Inr (ts', blocks')" "blocks_ok bs blocks'" "length ts' < length ts"
        "contents blocks' @ ts' = contents blocks @ ts" by blast
    then show ?thesis
      using less.hyps [OF r(3,2)] False by (subst append_tokens_to_blocks.simps) auto
  qed
qed

text \<open>
  C16. Storing tokens terminates. For a positive block size the loop that fills the logical blocks ends, raises
  nothing, stores exactly the given tokens behind the old ones, and leaves as many blocks as the tokens need.
\<close>

theorem append_tokens_terminates:
  assumes "blocks_ok bs blocks" "0 < bs"
  shows "\<exists>blocks'. append_tokens_to_blocks bs ts blocks = Some (Inr blocks') \<and> blocks_ok bs blocks' \<and>
    contents blocks' = contents blocks @ ts \<and>
    length blocks' = (length (contents blocks) + length ts + bs - 1) div bs"
  using append_tokens_to_blocks_returns [OF assms, of ts] blocks_needed [OF _ assms(2)] by fastforce

theorem append_tokens_terminates_witness:
  "\<exists>blocks'. append_tokens_to_blocks 4 [1, 2, 3, 4, 5] [] = Some (Inr blocks') \<and> contents blocks' = [1, 2, 3, 4, 5] \<and> length blocks' = 2"
  using append_tokens_terminates [of 4 "[]" "[1, 2, 3, 4, 5]"] by (auto simp: blocks_ok_def contents_def)

section \<open>A sequence and its blocks\<close>

definition seq_ok :: "Sequence \<Rightarrow> bool" where
  "seq_ok q \<longleftrightarrow> 0 < sq_block_size q \<and> blocks_ok (sq_block_size q) (logical_token_blocks q) \<and>
     contents (logical_token_blocks q) = get_token_ids q \<and> state_ok (seq_state q)"

lemma seq_blocks: "seq_ok q \<Longrightarrow> length (logical_token_blocks q) = (get_len q + sq_block_size q - 1) div sq_block_size q"
  using blocks_needed [of "sq_block_size q" "logical_token_blocks q"]
  by (simp add: seq_ok_def get_len_def get_token_ids_def add.commute add.left_commute)

lemma init_ok:
  assumes "0 < bs"
  shows "\<exists>q. Sequence_init sid prompt bs eos arrival params = Some (Inr q) \<and> seq_ok q \<and> get_len q = length prompt"
  using append_tokens_to_blocks_returns [of bs "[]" prompt] assms
  by (auto simp: Sequence_init_def seq_ok_def blocks_ok_def contents_def get_token_ids_def get_len_def state_ok_def
      SequenceState_init_def is_finished_status_def)

lemma state_ok_token [simp]:
  "state_ok (on_token_generated now s) = state_ok s" "status (on_token_generated now s) = status s"
  by (auto simp: state_ok_def on_token_generated_def split: SequenceStatus.splits)

lemma append_token_ok:
  assumes "seq_ok q" "prompt_processing_finished q"
  shows "\<exists>q'. append_token_id now t q = Some (Inr q') \<and> seq_ok q' \<and> get_len q' = get_len q + 1 \<and> get_status q' = get_status q"
  using append_tokens_to_blocks_returns [of "sq_block_size q" "logical_token_blocks q" "[t]"] assms
  by (auto simp: append_token_id_def seq_ok_def get_token_ids_def get_len_def get_status_def)

end
