(* ===== verification/Engine_Blocks.thy ===== *)
theory Engine_Blocks
  imports Engine_Seq "HOL-Library.AList"
begin

text \<open>
  The block space managers of the serving engine (\<^verbatim>\<open>src/sarathi-lean/sarathi/core/block_space_manager\<close>): the paged
  one, which hands out block numbers, and the one for vAttention, which only counts blocks against the number
  the allocator reports as free.

  A dictionary is an association list in insertion order. Blocks are their numbers. The number of
  watermark blocks, a truncated floating-point product, is a parameter of the initialisation, and the
  elements of a set are visited in the order of an arbitrary hash function, which is a parameter too. Rounding up a
  quotient of lengths is exact, block sizes are positive, and the number of free blocks has been set before it is read. The record \<open>manager\<close> is the interface the schedulers call; the locale \<open>block_space\<close> says what
  they rely on.
\<close>

type_synonym ('m, 'a) py = "(py_error, 'm, 'a) outcome"

record 'm manager =
  m_can_allocate :: "Sequence \<Rightarrow> 'm \<Rightarrow> ('m, bool) py"
  m_allocate :: "Sequence \<Rightarrow> 'm \<Rightarrow> ('m, unit) py"
  m_can_append_slot :: "Sequence \<Rightarrow> 'm \<Rightarrow> ('m, bool) py"
  m_append_slot :: "Sequence \<Rightarrow> 'm \<Rightarrow> ('m, unit) py"
  m_free :: "Sequence \<Rightarrow> 'm \<Rightarrow> ('m, unit) py"
  m_clear_promised_blocks :: "'m \<Rightarrow> 'm"
  m_queue_preempted :: "Sequence \<Rightarrow> 'm \<Rightarrow> 'm"

section \<open>Paged blocks\<close>

datatype manager_kind = VLLM | Orca

record block_manager =
  kind :: manager_kind
  bm_block_size :: nat
  num_total_gpu_blocks :: nat
  bm_max_model_len :: nat
  watermark_blocks :: int
  free_list :: "nat list"
  block_tables :: "(string \<times> nat list) list"

definition BlockSpaceManager_init :: "manager_kind \<Rightarrow> nat \<Rightarrow> nat \<Rightarrow> nat \<Rightarrow> int \<Rightarrow> block_manager" where
  "BlockSpaceManager_init kd bs n max_len wm =
     \<lparr>kind = kd, bm_block_size = bs, num_total_gpu_blocks = n, bm_max_model_len = max_len,
      watermark_blocks = (if kd = Orca then 0 else wm), free_list = [0..<n], block_tables = []\<rparr>"

definition BlockAllocator_allocate :: "block_manager \<Rightarrow> (block_manager, nat) py" where
  "BlockAllocator_allocate m =
     (if free_list m = [] then Fail ValueError m
      else Ret (last (free_list m)) (m\<lparr>free_list := butlast (free_list m)\<rparr>))"

definition BlockAllocator_free :: "nat \<Rightarrow> block_manager \<Rightarrow> block_manager" where
  "BlockAllocator_free b m = m\<lparr>free_list := free_list m @ [b]\<rparr>"

definition get_num_free_blocks :: "block_manager \<Rightarrow> nat" where
  "get_num_free_blocks m = length (free_list m)"

definition get_num_initial_blocks :: "Sequence \<Rightarrow> block_manager \<Rightarrow> nat" where
  "get_num_initial_blocks q m =
     (case kind m of VLLM \<Rightarrow> length (logical_token_blocks q) | Orca \<Rightarrow> ceil_div (bm_max_model_len m) (bm_block_size m))"

definition can_allocate :: "Sequence \<Rightarrow> block_manager \<Rightarrow> (block_manager, bool) py" where
  "can_allocate q m = Ret (int (get_num_free_blocks m) - int (get_num_initial_blocks q m) \<ge> watermark_blocks m) m"

fun allocate_blocks :: "nat \<Rightarrow> nat list \<Rightarrow> block_manager \<Rightarrow> (block_manager, nat list) py" where
  "allocate_blocks 0 table m = Ret table m"
| "allocate_blocks (Suc n) table m =
     obind (BlockAllocator_allocate m) (\<lambda>b. allocate_blocks n (table @ [b]))"

definition allocate :: "Sequence \<Rightarrow> block_manager \<Rightarrow> (block_manager, unit) py" where
  "allocate q m =
     obind (allocate_blocks (get_num_initial_blocks q m) [] m) (\<lambda>table m.
       Ret () (m\<lparr>block_tables := AList.update (seq_id q) table (block_tables m)\<rparr>))"

definition can_append_slot :: "Sequence \<Rightarrow> block_manager \<Rightarrow> (block_manager, bool) py" where
  "can_append_slot q m = Ret (get_num_free_blocks m > 0) m"

definition append_slot :: "Sequence \<Rightarrow> block_manager \<Rightarrow> (block_manager, unit) py" where
  "append_slot q m =
     (case map_of (block_tables m) (seq_id q) of
        None \<Rightarrow> Fail KeyError m
      | Some table \<Rightarrow>
        if length table < length (logical_token_blocks q)
        then obind (BlockAllocator_allocate m) (\<lambda>b m.
               Ret () (m\<lparr>block_tables := AList.update (seq_id q) (table @ [b]) (block_tables m)\<rparr>))
        else Ret () m)"

definition set_order :: "(nat \<Rightarrow> nat) \<Rightarrow> nat list \<Rightarrow> nat list" where
  "set_order hash xs = sort_key hash (sort (remdups xs))"

definition free_block_table :: "(nat \<Rightarrow> nat) \<Rightarrow> nat list \<Rightarrow> block_manager \<Rightarrow> block_manager" where
  "free_block_table hash table m = fold BlockAllocator_free (set_order hash table) m"

definition free :: "(nat \<Rightarrow> nat) \<Rightarrow> Sequence \<Rightarrow> block_manager \<Rightarrow> (block_manager, unit) py" where
  "free hash q m =
     (case map_of (block_tables m) (seq_id q) of
        None \<Rightarrow> Ret () m
      | Some table \<Rightarrow>
        let m = free_block_table hash table m
        in Ret () (m\<lparr>block_tables := AList.delete (seq_id q) (block_tables m)\<rparr>))"

definition reset :: "(nat \<Rightarrow> nat) \<Rightarrow> block_manager \<Rightarrow> block_manager" where
  "reset hash m =
     (fold (free_block_table hash) (map snd (block_tables m)) m)\<lparr>block_tables := []\<rparr>"

definition get_block_table :: "Sequence \<Rightarrow> block_manager \<Rightarrow> (block_manager, nat list) py" where
  "get_block_table q m =
     (case map_of (block_tables m) (seq_id q) of None \<Rightarrow> Fail KeyError m | Some table \<Rightarrow> Ret table m)"

definition is_allocated :: "Sequence \<Rightarrow> block_manager \<Rightarrow> bool" where
  "is_allocated q m \<longleftrightarrow> map_of (block_tables m) (seq_id q) \<noteq> None"

definition paged_manager :: "(nat \<Rightarrow> nat) \<Rightarrow> block_manager manager" where
  "paged_manager hash =
     \<lparr>m_can_allocate = can_allocate, m_allocate = allocate, m_can_append_slot = can_append_slot, m_append_slot = append_slot,
      m_free = free hash, m_clear_promised_blocks = (\<lambda>m. m), m_queue_preempted = (\<lambda>_ m. m)\<rparr>"

section \<open>Blocks of vAttention\<close>

record vattn_manager =
  v_block_size :: nat
  v_num_total_gpu_blocks :: nat
  v_max_model_len :: nat
  promised_blocks :: int
  v_watermark_blocks :: int
  free_blocks :: int
  active_requests :: "string list"
  preemption_queue :: "string list"

text \<open>The manager has no count of free blocks until the engine first reports one, which is an argument here.\<close>

definition vattn_manager_init :: "nat \<Rightarrow> nat \<Rightarrow> nat \<Rightarrow> int \<Rightarrow> int \<Rightarrow> vattn_manager" where
  "vattn_manager_init bs n max_len wm reported =
     \<lparr>v_block_size = bs, v_num_total_gpu_blocks = n, v_max_model_len = max_len, promised_blocks = 0, v_watermark_blocks = wm,
      free_blocks = reported, active_requests = [], preemption_queue = []\<rparr>"

definition vattn_get_num_blocks :: "Sequence \<Rightarrow> vattn_manager \<Rightarrow> int" where
  "vattn_get_num_blocks q m = int (ceil_div (get_len q) (v_block_size m))"

definition vattn_can_allocate :: "Sequence \<Rightarrow> vattn_manager \<Rightarrow> (vattn_manager, bool) py" where
  "vattn_can_allocate q m =
     Ret (free_blocks m - promised_blocks m - vattn_get_num_blocks q m \<ge> v_watermark_blocks m) m"

definition set_free_blocks :: "int \<Rightarrow> vattn_manager \<Rightarrow> vattn_manager" where
  "set_free_blocks n m = m\<lparr>free_blocks := n\<rparr>"

definition vattn_allocate :: "Sequence \<Rightarrow> vattn_manager \<Rightarrow> (vattn_manager, unit) py" where
  "vattn_allocate q m =
     Ret () (m\<lparr>active_requests := List.insert (seq_id q) (active_requests m),
               promised_blocks := promised_blocks m + vattn_get_num_blocks q m\<rparr>)"

definition needs_block :: "Sequence \<Rightarrow> vattn_manager \<Rightarrow> bool" where
  "needs_block q m \<longleftrightarrow> ceil_div (get_len q + 1) (v_block_size m) > ceil_div (get_len q) (v_block_size m)"

definition vattn_can_append_slot :: "Sequence option \<Rightarrow> vattn_manager \<Rightarrow> (vattn_manager, bool) py" where
  "vattn_can_append_slot q m =
     Ret (if (case q of Some q \<Rightarrow> \<not> needs_block q m | None \<Rightarrow> False) then True
          else free_blocks m - promised_blocks m > 0) m"

definition vattn_append_slot :: "Sequence \<Rightarrow> vattn_manager \<Rightarrow> (vattn_manager, unit) py" where
  "vattn_append_slot q m =
     Ret () (if needs_block q m then m\<lparr>promised_blocks := promised_blocks m + 1\<rparr> else m)"

definition vattn_free :: "Sequence \<Rightarrow> vattn_manager \<Rightarrow> (vattn_manager, unit) py" where
  "vattn_free q m =
     Ret () (if seq_id q \<notin> set (active_requests m) then m
             else m\<lparr>active_requests := remove1 (seq_id q) (active_requests m),
                    free_blocks := free_blocks m + vattn_get_num_blocks q m\<rparr>)"

definition vattn_reset :: "vattn_manager \<Rightarrow> vattn_manager" where
  "vattn_reset m = m\<lparr>active_requests := []\<rparr>"

definition clear_promised_blocks :: "vattn_manager \<Rightarrow> vattn_manager" where
  "clear_promised_blocks m = m\<lparr>promised_blocks := 0\<rparr>"

definition vattn_is_allocated :: "Sequence \<Rightarrow> vattn_manager \<Rightarrow> bool" where
  "vattn_is_allocated q m \<longleftrightarrow> seq_id q \<in> set (active_requests m)"

definition vattn_block_manager :: "vattn_manager manager" where
  "vattn_block_manager =
     \<lparr>m_can_allocate = vattn_can_allocate, m_allocate = vattn_allocate,
      m_can_append_slot = (\<lambda>q. vattn_can_append_slot (Some q)), m_append_slot = vattn_append_slot, m_free = vattn_free,
      m_clear_promised_blocks = clear_promised_blocks,
      m_queue_preempted = (\<lambda>q m. m\<lparr>preemption_queue := preemption_queue m @ [seq_id q]\<rparr>)\<rparr>"

section \<open>What a scheduler relies on\<close>

locale block_space =
  fixes ops :: "'m manager" and inv :: "'m \<Rightarrow> bool" and held :: "'m \<Rightarrow> string set"
  assumes can_allocate_pure: "inv m \<Longrightarrow> \<exists>b. m_can_allocate ops q m = Ret b m"
    and allocate_ok: "inv m \<Longrightarrow> seq_id q \<notin> held m \<Longrightarrow> m_can_allocate ops q m = Ret True m \<Longrightarrow>
      \<exists>m'. m_allocate ops q m = Ret () m' \<and> inv m' \<and> held m' = insert (seq_id q) (held m)"
    and can_append_pure: "inv m \<Longrightarrow> \<exists>b. m_can_append_slot ops q m = Ret b m"
    and append_slot_ok: "inv m \<Longrightarrow> seq_id q \<in> held m \<Longrightarrow> m_can_append_slot ops q m = Ret True m \<Longrightarrow>
      \<exists>m'. m_append_slot ops q m = Ret () m' \<and> inv m' \<and> held m' = held m"
    and free_ok: "inv m \<Longrightarrow> \<exists>m'. m_free ops q m = Ret () m' \<and> inv m' \<and> held m' = held m - {seq_id q}"
    and clear_ok: "inv m \<Longrightarrow> inv (m_clear_promised_blocks ops m) \<and> held (m_clear_promised_blocks ops m) = held m"
    and queue_ok: "inv m \<Longrightarrow> inv (m_queue_preempted ops q m) \<and> held (m_queue_preempted ops q m) = held m"
begin

lemma preempt_ok:
  assumes "inv m"
  shows "\<exists>m'. m_free ops q m = Ret () m' \<and> inv (m_queue_preempted ops q m') \<and>
    held (m_queue_preempted ops q m') = held m - {seq_id q}"
  using free_ok [OF assms, of q] queue_ok by blast

end

section \<open>The promises of vAttention's manager\<close>

definition promise_ok :: "vattn_manager \<Rightarrow> bool" where
  "promise_ok m \<longleftrightarrow> 0 \<le> v_watermark_blocks m \<and> 0 \<le> free_blocks m \<and> promised_blocks m \<le> free_blocks m \<and> distinct (active_requests m)"

interpretation vattn: block_space vattn_block_manager promise_ok "\<lambda>m. set (active_requests m)"
  by unfold_locales
     (auto simp: vattn_block_manager_def promise_ok_def vattn_can_allocate_def vattn_allocate_def vattn_can_append_slot_def
       vattn_append_slot_def vattn_free_def vattn_get_num_blocks_def clear_promised_blocks_def split: if_splits)

section \<open>The blocks of the paged manager\<close>

definition blocks_of :: "block_manager \<Rightarrow> nat multiset" where
  "blocks_of m = mset (free_list m) + mset (concat (map snd (block_tables m)))"

definition paged_ok :: "block_manager \<Rightarrow> bool" where
  "paged_ok m \<longleftrightarrow> blocks_of m = mset [0..<num_total_gpu_blocks m] \<and> distinct (map fst (block_tables m)) \<and> 0 \<le> watermark_blocks m"

lemma update_new: "k \<notin> fst ` set xs \<Longrightarrow> AList.update k v xs = xs @ [(k, v)]"
  by (induction xs) auto

lemma update_present:
  "map_of xs k = Some t \<Longrightarrow> mset (concat (map snd (AList.update k (t @ ys) xs))) = mset (concat (map snd xs)) + mset ys"
  by (induction xs) (auto split: if_splits)

lemma delete_present:
  "distinct (map fst xs) \<Longrightarrow> map_of xs k = Some t \<Longrightarrow>
   mset (concat (map snd (AList.delete k xs))) + mset t = mset (concat (map snd xs))"
proof (induction xs)
  case (Cons x xs)
  then show ?case
    by (cases x) (auto simp: AList.delete_id split: if_splits)
qed simp

lemma allocate_blocks_eq:
  "n \<le> length (free_list m) \<Longrightarrow>
   allocate_blocks n t m = Ret (t @ take n (rev (free_list m))) (m\<lparr>free_list := take (length (free_list m) - n) (free_list m)\<rparr>)"
proof (induction n arbitrary: t m)
  case (Suc n)
  then obtain xs x where x: "free_list m = xs @ [x]" by (cases "free_list m" rule: rev_cases) auto
  show ?case using Suc by (simp add: BlockAllocator_allocate_def x Suc_diff_le)
qed simp

lemma set_order_mset: "distinct t \<Longrightarrow> mset (set_order hash t) = mset t"
  by (simp add: set_order_def distinct_remdups_id)

lemma fold_free: "fold BlockAllocator_free xs m = m\<lparr>free_list := free_list m @ xs\<rparr>"
  by (induction xs arbitrary: m) (simp_all add: BlockAllocator_free_def)

lemma table_distinct:
  assumes "paged_ok m" "map_of (block_tables m) k = Some t"
  shows "distinct t"
proof -
  have "mset (free_list m @ concat (map snd (block_tables m))) = mset [0..<num_total_gpu_blocks m]"
    using assms(1) by (simp add: paged_ok_def blocks_of_def)
  then have "distinct (free_list m @ concat (map snd (block_tables m)))" by (metis distinct_upt mset_eq_imp_distinct_iff)
  then have "distinct (concat (map snd (block_tables m)))" by simp
  moreover have "t \<in> set (map snd (block_tables m))" using map_of_SomeD [OF assms(2)] by force
  ultimately show ?thesis by (auto simp: distinct_concat_iff)
qed

lemma paged_okI:
  assumes "paged_ok m" "mset f + mset (concat (map snd ts)) = blocks_of m" "distinct (map fst ts)"
  shows "paged_ok (m\<lparr>free_list := f, block_tables := ts\<rparr>)"
  using assms by (simp add: paged_ok_def blocks_of_def)

lemma paged_allocate:
  assumes "paged_ok m" "map_of (block_tables m) (seq_id q) = None" "get_num_initial_blocks q m \<le> length (free_list m)"
  shows "\<exists>m'. allocate q m = Ret () m' \<and> paged_ok m' \<and> map_of (block_tables m') = (map_of (block_tables m))(seq_id q \<mapsto> take (get_num_initial_blocks q m) (rev (free_list m)))"
proof -
  let ?n = "get_num_initial_blocks q m" and ?f = "free_list m"
  have k: "seq_id q \<notin> fst ` set (block_tables m)" using assms(2) by (simp add: map_of_eq_None_iff)
  have "mset (take (length ?f - ?n) ?f) + mset (take ?n (rev ?f)) = mset ?f"
  proof -
    have "take ?n (rev ?f) = rev (drop (length ?f - ?n) ?f)" by (simp add: take_rev)
    then show ?thesis by (metis append_take_drop_id mset_append mset_rev)
  qed
  then have "mset (take (length ?f - ?n) ?f) + mset (concat (map snd (block_tables m @ [(seq_id q, take ?n (rev ?f))]))) = blocks_of m"
    by (simp add: blocks_of_def)
  then have "paged_ok (m\<lparr>free_list := take (length ?f - ?n) ?f, block_tables := block_tables m @ [(seq_id q, take ?n (rev ?f))]\<rparr>)"
    using assms(1) k by (intro paged_okI) (simp_all add: paged_ok_def)
  moreover have "map_of (block_tables m @ [(seq_id q, take ?n (rev ?f))]) = (map_of (block_tables m))(seq_id q \<mapsto> take ?n (rev ?f))"
    using assms(2) by (auto simp: fun_eq_iff map_add_def split: option.splits)
  ultimately show ?thesis by (simp add: allocate_def allocate_blocks_eq [OF assms(3)] update_new [OF k])
qed

lemma paged_append:
  assumes "paged_ok m" "map_of (block_tables m) (seq_id q) = Some t" "free_list m \<noteq> []"
  shows "\<exists>m'. append_slot q m = Ret () m' \<and> paged_ok m' \<and> dom (map_of (block_tables m')) = dom (map_of (block_tables m))"
proof (cases "length t < length (logical_token_blocks q)")
  case True
  let ?b = "last (free_list m)"
  have f: "mset (butlast (free_list m)) + {#?b#} = mset (free_list m)"
    using assms(3) by (metis append_butlast_last_id mset_append mset_single_iff_right)
  have "distinct (map fst (AList.update (seq_id q) (t @ [?b]) (block_tables m)))"
    using assms(1) by (simp add: paged_ok_def distinct_update)
  moreover have "mset (butlast (free_list m)) + mset (concat (map snd (AList.update (seq_id q) (t @ [?b]) (block_tables m)))) = blocks_of m"
    using f update_present [OF assms(2), of "[?b]"] by (simp add: blocks_of_def)
  ultimately have "paged_ok (m\<lparr>free_list := butlast (free_list m), block_tables := AList.update (seq_id q) (t @ [?b]) (block_tables m)\<rparr>)"
    using assms(1) by (intro paged_okI) simp_all
  moreover have "dom (map_of (AList.update (seq_id q) (t @ [?b]) (block_tables m))) = dom (map_of (block_tables m))"
    using assms(2) by (auto simp: update_conv' split: if_splits)
  ultimately show ?thesis
    using True assms(2,3) by (simp add: append_slot_def BlockAllocator_allocate_def)
next
  case False
  then show ?thesis using assms by (simp add: append_slot_def)
qed

lemma paged_free:
  assumes "paged_ok m"
  shows "\<exists>m'. free hash q m = Ret () m' \<and> paged_ok m' \<and> dom (map_of (block_tables m')) = dom (map_of (block_tables m)) - {seq_id q}"
proof (cases "map_of (block_tables m) (seq_id q)")
  case None
  then show ?thesis using assms by (auto simp: free_def dom_def)
next
  case (Some t)
  have "distinct (map fst (AList.delete (seq_id q) (block_tables m)))"
    using assms by (simp add: paged_ok_def distinct_delete)
  moreover have "mset (free_list m @ set_order hash t) + mset (concat (map snd (AList.delete (seq_id q) (block_tables m)))) = blocks_of m"
    using assms set_order_mset [OF table_distinct [OF assms Some], of hash]
    by (simp add: blocks_of_def paged_ok_def delete_present [OF _ Some, symmetric] ac_simps)
  ultimately have "paged_ok (m\<lparr>free_list := free_list m @ set_order hash t, block_tables := AList.delete (seq_id q) (block_tables m)\<rparr>)"
    using assms by (intro paged_okI) simp_all
  moreover have "dom (map_of (AList.delete (seq_id q) (block_tables m))) = dom (map_of (block_tables m)) - {seq_id q}"
    by (auto simp: delete_conv' split: if_splits)
  ultimately show ?thesis using Some by (simp add: free_def free_block_table_def fold_free)
qed

interpretation paged: block_space "paged_manager hash" paged_ok "\<lambda>m. dom (map_of (block_tables m))" for hash
proof
  fix m q
  assume i: "paged_ok m"
  show "\<exists>b. m_can_allocate (paged_manager hash) q m = Ret b m" "\<exists>b. m_can_append_slot (paged_manager hash) q m = Ret b m"
    by (simp_all add: paged_manager_def can_allocate_def can_append_slot_def)
  show "\<exists>m'. m_free (paged_manager hash) q m = Ret () m' \<and> paged_ok m' \<and> dom (map_of (block_tables m')) = dom (map_of (block_tables m)) - {seq_id q}"
    using paged_free [OF i] by (simp add: paged_manager_def)
  show "paged_ok (m_clear_promised_blocks (paged_manager hash) m) \<and>
      dom (map_of (block_tables (m_clear_promised_blocks (paged_manager hash) m))) = dom (map_of (block_tables m))"
    "paged_ok (m_queue_preempted (paged_manager hash) q m) \<and>
      dom (map_of (block_tables (m_queue_preempted (paged_manager hash) q m))) = dom (map_of (block_tables m))"
    using i by (simp_all add: paged_manager_def)
  show "\<exists>m'. m_allocate (paged_manager hash) q m = Ret () m' \<and> paged_ok m' \<and>
      dom (map_of (block_tables m')) = insert (seq_id q) (dom (map_of (block_tables m)))"
    if "seq_id q \<notin> dom (map_of (block_tables m))" "m_can_allocate (paged_manager hash) q m = Ret True m"
    using that i paged_allocate [OF i, of q]
    by (force simp: paged_manager_def can_allocate_def get_num_free_blocks_def paged_ok_def)
  show "\<exists>m'. m_append_slot (paged_manager hash) q m = Ret () m' \<and> paged_ok m' \<and> dom (map_of (block_tables m')) = dom (map_of (block_tables m))"
    if "seq_id q \<in> dom (map_of (block_tables m))" "m_can_append_slot (paged_manager hash) q m = Ret True m"
    using that paged_append [OF i, of q] by (auto simp: paged_manager_def can_append_slot_def get_num_free_blocks_def)
qed

lemma paged_reset:
  assumes "paged_ok m"
  shows "paged_ok (reset hash m)"
proof -
  have fd: "fold (free_block_table hash) ts m' = m'\<lparr>free_list := free_list m' @ concat (map (set_order hash) ts)\<rparr>" for ts m'
    by (induction ts arbitrary: m') (simp_all add: free_block_table_def fold_free)
  have "distinct t" if "t \<in> set (map snd (block_tables m))" for t
    using that assms table_distinct [OF assms] by (auto simp: paged_ok_def)
  then have c: "mset (concat (map (set_order hash) ts)) = mset (concat ts)" if "set ts \<subseteq> set (map snd (block_tables m))" for ts
    using that by (induction ts) (auto simp: set_order_mset)
  have "mset (free_list m @ concat (map (set_order hash) (map snd (block_tables m)))) = blocks_of m"
    using c [of "map snd (block_tables m)"] by (simp add: blocks_of_def del: map_map)
  then show ?thesis using paged_okI [OF assms, of _ "[]"] by (simp add: reset_def fd)
qed

inductive bm_step :: "(nat \<Rightarrow> nat) \<Rightarrow> block_manager \<Rightarrow> block_manager \<Rightarrow> bool" for hash where
  step_allocate: "\<not> is_allocated q m \<Longrightarrow> can_allocate q m = Ret True m \<Longrightarrow> allocate q m = Ret () m' \<Longrightarrow> bm_step hash m m'"
| step_append: "is_allocated q m \<Longrightarrow> can_append_slot q m = Ret True m \<Longrightarrow> append_slot q m = Ret () m' \<Longrightarrow> bm_step hash m m'"
| step_free: "free hash q m = Ret () m' \<Longrightarrow> bm_step hash m m'"
| step_reset: "bm_step hash m (reset hash m)"

lemma can_allocate_fits:
  assumes "paged_ok m" "can_allocate q m = Ret True m"
  shows "get_num_initial_blocks q m \<le> length (free_list m)"
  using assms by (simp add: can_allocate_def get_num_free_blocks_def paged_ok_def)

lemma bm_step_ok: "bm_step hash m m' \<Longrightarrow> paged_ok m \<Longrightarrow> paged_ok m'"
proof (induction rule: bm_step.induct)
  case (step_allocate q m m')
  then show ?case using paged_allocate [of m q] can_allocate_fits [of m q] by (auto simp: is_allocated_def)
next
  case (step_append q m m')
  then show ?case
    using paged_append [of m q] by (auto simp: is_allocated_def can_append_slot_def get_num_free_blocks_def)
next
  case (step_free q m m')
  then show ?case using paged_free [of m hash q] by auto
qed (rule paged_reset)

lemma bm_step_total: "bm_step hash m m' \<Longrightarrow> num_total_gpu_blocks m' = num_total_gpu_blocks m"
proof (induction rule: bm_step.induct)
  case (step_allocate q m m')
  have "allocate_blocks n t m = Ret t' m' \<Longrightarrow> num_total_gpu_blocks m' = num_total_gpu_blocks m" for n t t' m m'
    by (induction n arbitrary: t m) (auto simp: BlockAllocator_allocate_def split: if_splits)
  then show ?case using step_allocate by (auto simp: allocate_def obind_eq_Ret)
next
  case (step_append q m m')
  then show ?case by (auto simp: append_slot_def BlockAllocator_allocate_def obind_eq_Ret split: option.splits if_splits)
next
  case (step_free q m m')
  then show ?case by (auto simp: free_def free_block_table_def fold_free split: option.splits)
next
  case (step_reset m)
  have "num_total_gpu_blocks (fold (free_block_table hash) ts m) = num_total_gpu_blocks m" for ts
    by (induction ts arbitrary: m) (simp_all add: free_block_table_def fold_free)
  then show ?case by (simp add: reset_def)
qed

text \<open>
  C14. The paged manager never loses a block or hands one out twice. After any sequence of allocations
  and appends that the manager admitted, frees and resets, the free list and the tables of all sequences together
  hold each block number exactly once; and a sequence the manager admits gets the blocks it asks for.
\<close>

theorem paged_blocks_partition:
  assumes "(bm_step hash)\<^sup>*\<^sup>* (BlockSpaceManager_init kd bs n max_len wm) m" "0 \<le> wm"
  shows "mset (free_list m) + mset (concat (map snd (block_tables m))) = mset [0..<n] \<and>
    (\<not> is_allocated q m \<and> can_allocate q m = Ret True m \<longrightarrow>
      (\<exists>m' t. allocate q m = Ret () m' \<and> get_block_table q m' = Ret t m' \<and> length t = get_num_initial_blocks q m))"
proof -
  have "paged_ok (BlockSpaceManager_init kd bs n max_len wm)" "num_total_gpu_blocks (BlockSpaceManager_init kd bs n max_len wm) = n"
    using assms(2) by (simp_all add: BlockSpaceManager_init_def paged_ok_def blocks_of_def)
  with assms(1) have m: "paged_ok m \<and> num_total_gpu_blocks m = n"
    by (induction rule: rtranclp_induct) (use bm_step_ok bm_step_total in auto)
  have "\<exists>m' t. allocate q m = Ret () m' \<and> get_block_table q m' = Ret t m' \<and> length t = get_num_initial_blocks q m"
    if "\<not> is_allocated q m" "can_allocate q m = Ret True m"
    using that paged_allocate [of m q] can_allocate_fits [of m q] m by (fastforce simp: is_allocated_def get_block_table_def)
  then show ?thesis using m by (simp add: paged_ok_def blocks_of_def)
qed

text \<open>Two requests, the second one freed again, over four blocks.\<close>

definition demo_seq :: "string \<Rightarrow> nat \<Rightarrow> Sequence" where
  "demo_seq sid n = \<lparr>seq_id = sid, sq_block_size = 4, eos_token_id = 0, arrival_time = 0,
     sampling_params = \<lparr>stop = [], max_tokens = 10, ignore_eos = False\<rparr>, prompt_token_ids = replicate n 7, output_token_ids = [],
     prompt_tokens_processed = 0, prompt_processing_finished = False, output_text = [],
     logical_token_blocks = map (\<lambda>i. LogicalTokenBlock_init i 4) [0..<ceil_div n 4], seq_state = SequenceState_init 0 n\<rparr>"

theorem paged_blocks_partition_witness:
  "\<exists>m :: block_manager. free_list m = [0] \<and> block_tables m = [(''a'', [3, 2, 1])] \<and>
     mset (free_list m) + mset (concat (map snd (block_tables m))) = mset [0..<4]"
proof -
  let ?i = "BlockSpaceManager_init VLLM 4 4 16 0" and ?a = "demo_seq ''a'' 9"
  let ?m = "?i\<lparr>free_list := [0], block_tables := [(''a'', [3, 2, 1])]\<rparr>"
  have q: "seq_id ?a = ''a''" "length (logical_token_blocks ?a) = 3" by (simp_all add: demo_seq_def ceil_div_def)
  have "allocate ?a ?i = Ret () ?m" "can_allocate ?a ?i = Ret True ?i" "\<not> is_allocated ?a ?i"
    by (simp_all add: allocate_def allocate_blocks_eq get_num_initial_blocks_def q BlockSpaceManager_init_def can_allocate_def
        get_num_free_blocks_def is_allocated_def upt_rec)
  then have "(bm_step id)\<^sup>*\<^sup>* ?i ?m" by (intro r_into_rtranclp step_allocate)
  then have p: "mset (free_list ?m) + mset (concat (map snd (block_tables ?m))) = mset [0..<4]"
    by (rule conjunct1 [OF paged_blocks_partition [OF _ order_refl]])
  have "free_list ?m = [0]" "block_tables ?m = [(''a'', [3, 2, 1])]" by simp_all
  then show ?thesis using p by blast
qed

end
