(* ===== verification/Engine_Sched.thy ===== *)
theory Engine_Sched
  imports Engine_Blocks
begin

text \<open>
  The schedulers of the serving engine (\<^verbatim>\<open>src/sarathi-lean/sarathi/core/scheduler\<close>), over the interface of a
  block space manager. Queues hold sequence ids, and the objects themselves are in the store \<open>seqs\<close>, because
  the scheduler and the sequence manager share them. The chunk sizes of the dynamic schedule, computed by numpy
  once, are part of the configuration.
\<close>

section \<open>State and outputs\<close>

record sched_config =
  max_model_len :: nat
  max_num_batched_tokens :: nat
  max_num_seqs :: nat
  num_pipeline_stages :: int
  chunk_size :: int
  enable_dynamic_chunking_schedule :: bool
  chunk_sizes :: "int list"
  tokens_per_stage :: int

datatype Turn = PREFILL | DECODE

record 'm scheduler =
  waiting :: "string list"
  running :: "string list"
  seqs :: "string \<Rightarrow> Sequence"
  block_mgr :: 'm
  iteration_id :: int
  num_running_batches :: int
  whose_turn :: Turn

type_synonym ('m, 'a) sched = "(py_error, 'm scheduler, 'a) outcome"

record SequenceScheduleMetadata =
  md_seq_id :: string
  prompt_chunk_len :: int

definition is_prompt :: "SequenceScheduleMetadata \<Rightarrow> bool" where "is_prompt md \<longleftrightarrow> prompt_chunk_len md > 0"

definition md_num_output_tokens :: "SequenceScheduleMetadata \<Rightarrow> int" where
  "md_num_output_tokens md = (if prompt_chunk_len md > 0 then 0 else 1)"

definition md_num_tokens :: "SequenceScheduleMetadata \<Rightarrow> int" where "md_num_tokens md = max (prompt_chunk_len md) 1"

definition from_sequence :: "Sequence \<Rightarrow> int option \<Rightarrow> SequenceScheduleMetadata" where
  "from_sequence q len =
     \<lparr>md_seq_id = seq_id q,
      prompt_chunk_len = (case len of Some n \<Rightarrow> n
        | None \<Rightarrow> if prompt_processing_finished q then 0 else int (get_prompt_len q))\<rparr>"

record SchedulerOutputs =
  out_id :: int
  ignored_seq_ids :: "string list"
  preempted_seq_ids :: "string list"
  scheduled_seq_metadata_list :: "SequenceScheduleMetadata list"

definition outputs_num_batched_tokens :: "SchedulerOutputs \<Rightarrow> int" where
  "outputs_num_batched_tokens o' = sum_list (map md_num_tokens (scheduled_seq_metadata_list o'))"

definition num_batched_prompt_tokens :: "SchedulerOutputs \<Rightarrow> int" where
  "num_batched_prompt_tokens o' = sum_list (map prompt_chunk_len (scheduled_seq_metadata_list o'))"

definition num_batched_output_tokens :: "SchedulerOutputs \<Rightarrow> int" where
  "num_batched_output_tokens o' = sum_list (map md_num_output_tokens (scheduled_seq_metadata_list o'))"

definition is_empty :: "SchedulerOutputs \<Rightarrow> bool" where "is_empty o' \<longleftrightarrow> scheduled_seq_metadata_list o' = []"

definition has_no_output :: "SchedulerOutputs \<Rightarrow> bool" where
  "has_no_output o' \<longleftrightarrow> scheduled_seq_metadata_list o' = [] \<and> ignored_seq_ids o' = [] \<and> preempted_seq_ids o' = []"

definition seq_ids :: "SchedulerOutputs \<Rightarrow> string list" where
  "seq_ids o' = map md_seq_id (scheduled_seq_metadata_list o')"

section \<open>Operations all schedulers share\<close>

definition on_manager :: "('m \<Rightarrow> ('m, 'a) py) \<Rightarrow> 'm scheduler \<Rightarrow> ('m, 'a) sched" where
  "on_manager f s = (case f (block_mgr s) of Ret a m \<Rightarrow> Ret a (s\<lparr>block_mgr := m\<rparr>) | Fail e m \<Rightarrow> Fail e (s\<lparr>block_mgr := m\<rparr>))"

definition assert_that :: "bool \<Rightarrow> 's \<Rightarrow> (py_error, 's, unit) outcome" where
  "assert_that b s = (if b then Ret () s else Fail AssertionError s)"

definition lift_py :: "py_error + 'a \<Rightarrow> 's \<Rightarrow> (py_error, 's, 'a) outcome" where
  "lift_py r s = (case r of Inl e \<Rightarrow> Fail e s | Inr a \<Rightarrow> Ret a s)"

definition add_seq :: "string \<Rightarrow> 'm scheduler \<Rightarrow> 'm scheduler" where
  "add_seq i s = s\<lparr>waiting := waiting s @ [i]\<rparr>"

definition reset_state :: "'m scheduler \<Rightarrow> 'm scheduler" where "reset_state s = s\<lparr>iteration_id := - 1\<rparr>"

definition has_unfinished_seqs :: "'m scheduler \<Rightarrow> bool" where
  "has_unfinished_seqs s \<longleftrightarrow> waiting s \<noteq> [] \<or> running s \<noteq> []"

definition get_num_unfinished_seqs :: "'m scheduler \<Rightarrow> nat" where
  "get_num_unfinished_seqs s = length (waiting s) + length (running s)"

definition free_seq :: "'m manager \<Rightarrow> string \<Rightarrow> 'm scheduler \<Rightarrow> ('m, unit) sched" where
  "free_seq ops i s = on_manager (m_free ops (seqs s i)) s"

definition sched_append_slot :: "'m manager \<Rightarrow> string \<Rightarrow> 'm scheduler \<Rightarrow> ('m, unit) sched" where
  "sched_append_slot ops i s =
     obind (assert_that (is_executing (seqs s i)) s) (\<lambda>_ s. on_manager (m_append_slot ops (seqs s i)) s)"

definition preempt :: "'m manager \<Rightarrow> string \<Rightarrow> 'm scheduler \<Rightarrow> ('m, unit) sched" where
  "preempt ops i s =
     obind (assert_that (is_executing (seqs s i)) s) (\<lambda>_ s.
     obind (free_seq ops i s) (\<lambda>_ s.
       Ret () (s\<lparr>block_mgr := m_queue_preempted ops (seqs s i) (block_mgr s), waiting := i # waiting s\<rparr>)))"

definition remove_finished_seqs :: "'m scheduler \<Rightarrow> 'm scheduler" where
  "remove_finished_seqs s = s\<lparr>running := filter (\<lambda>i. \<not> is_finished (seqs s i)) (running s)\<rparr>"

definition free_finished_seqs :: "'m manager \<Rightarrow> 'm scheduler \<Rightarrow> ('m, unit) sched" where
  "free_finished_seqs ops s =
     for_each (\<lambda>i s. if is_finished (seqs s i) then free_seq ops i s else Ret () s) (running s) s"

definition on_step_completed :: "'m manager \<Rightarrow> 'm scheduler \<Rightarrow> ('m, unit) sched" where
  "on_step_completed ops s =
     obind (free_finished_seqs ops s) (\<lambda>_ s.
       let s = remove_finished_seqs s in Ret () (s\<lparr>num_running_batches := num_running_batches s - 1\<rparr>))"

definition check_request_prompt_length :: "sched_config \<Rightarrow> int \<Rightarrow> string \<Rightarrow> 'm scheduler \<Rightarrow> ('m, bool) sched" where
  "check_request_prompt_length c now i s =
     (if get_len (seqs s i) > max_model_len c
      then obind (lift_py (set_status now FINISHED_IGNORED (seqs s i)) s) (\<lambda>q s.
             Ret False (s\<lparr>seqs := (seqs s)(i := q), waiting := tl (waiting s)\<rparr>))
      else Ret True s)"

definition sort_by_priority :: "int \<Rightarrow> 'm scheduler \<Rightarrow> 'm scheduler" where
  "sort_by_priority now s = s\<lparr>running := sort_key (\<lambda>i. - (now - arrival_time (seqs s i))) (running s)\<rparr>"

section \<open>Making room for a running sequence\<close>

text \<open>
  The inner loop of the decode phase: while no slot can be appended to the sequence, the last of the other
  running sequences, given in reverse order, is preempted, and in the end the sequence itself.
\<close>

fun make_room :: "'m manager \<Rightarrow> string \<Rightarrow> string list \<Rightarrow> string list \<Rightarrow> 'm scheduler \<Rightarrow>
  ('m, bool \<times> string list \<times> string list) sched" where
  "make_room ops i [] preempted s =
     obind (on_manager (m_can_append_slot ops (seqs s i)) s) (\<lambda>b s.
       if b then Ret (True, [], preempted) s
       else obind (preempt ops i s) (\<lambda>_ s. Ret (False, [], preempted @ [i]) s))"
| "make_room ops i (v # vs) preempted s =
     obind (on_manager (m_can_append_slot ops (seqs s i)) s) (\<lambda>b s.
       if b then Ret (True, v # vs, preempted) s
       else obind (preempt ops v (s\<lparr>running := rev vs\<rparr>)) (\<lambda>_ s. make_room ops i vs (preempted @ [v]) s))"

lemma make_room_shrinks: "make_room ops i vs pre s = Ret (b, vs', pre') s' \<Longrightarrow> length vs' \<le> length vs"
  by (induction vs arbitrary: pre s) (auto simp: obind_eq_Ret split: if_splits dest: le_SucI)

text \<open>
  The decode loop of the three schedulers with preemption. They differ in what they do with a paused sequence
  whose prompt is not finished: \<^verbatim>\<open>vllm_scheduler.py\<close> asserts that there is none, \<^verbatim>\<open>sarathi_scheduler.py\<close> collects
  it, \<^verbatim>\<open>simple_chunking_scheduler.py\<close> keeps it running.
\<close>

datatype policy = Vllm | Sarathi | Simple_Chunking

record decode_acc =
  kept :: "string list"
  prefills :: "string list"
  dec_preempted :: "string list"
  dec_scheduled :: "SequenceScheduleMetadata list"

function decode_loop :: "'m manager \<Rightarrow> policy \<Rightarrow> string list \<Rightarrow> decode_acc \<Rightarrow> 'm scheduler \<Rightarrow> ('m, decode_acc) sched" where
  "decode_loop ops pol rs acc s =
     (case rs of
        [] \<Rightarrow> Ret acc (s\<lparr>running := []\<rparr>)
      | i # rs \<Rightarrow>
        let s = s\<lparr>running := rs\<rparr>; q = seqs s i in
        if \<not> is_paused q then decode_loop ops pol rs (acc\<lparr>kept := kept acc @ [i]\<rparr>) s
        else if \<not> prompt_processing_finished q then
          (case pol of
             Vllm \<Rightarrow> Fail AssertionError s
           | Sarathi \<Rightarrow> decode_loop ops pol rs (acc\<lparr>prefills := prefills acc @ [i]\<rparr>) s
           | Simple_Chunking \<Rightarrow> decode_loop ops pol rs (acc\<lparr>kept := kept acc @ [i]\<rparr>) s)
        else (case make_room ops i (rev rs) (dec_preempted acc) s of
          Fail e s \<Rightarrow> Fail e s
        | Ret (b, vs, pre) s \<Rightarrow>
            if \<not> b then decode_loop ops pol (rev vs) (acc\<lparr>dec_preempted := pre\<rparr>) s
            else (case sched_append_slot ops i s of
              Fail e s \<Rightarrow> Fail e s
            | Ret _ s \<Rightarrow> decode_loop ops pol (rev vs)
                (acc\<lparr>dec_preempted := pre, kept := kept acc @ [i], dec_scheduled := dec_scheduled acc @ [from_sequence q None]\<rparr>) s)))"
  by pat_completeness auto
termination
  by (relation "measure (\<lambda>(ops, pol, rs, acc, s). length rs)") (auto dest!: make_room_shrinks)

declare decode_loop.simps [simp del]

lemmas decode_loop_list =
  decode_loop.simps [of _ _ "[]", unfolded list.case] decode_loop.simps [of _ _ "i # rs" for i rs, unfolded list.case]

definition no_acc :: decode_acc where
  "no_acc = \<lparr>kept = [], prefills = [], dec_preempted = [], dec_scheduled = []\<rparr>"

section \<open>vLLM\<close>

fun vllm_prefill :: "'m manager \<Rightarrow> sched_config \<Rightarrow> int \<Rightarrow> string list \<Rightarrow> nat \<Rightarrow> string list \<times> SequenceScheduleMetadata list \<Rightarrow>
  'm scheduler \<Rightarrow> ('m, string list \<times> SequenceScheduleMetadata list) sched" where
  "vllm_prefill ops c now [] num_batched_tokens (ignored, scheduled) s = Ret (ignored, scheduled) s"
| "vllm_prefill ops c now (i # ws) num_batched_tokens (ignored, scheduled) s =
     (if arrival_time (seqs s i) > now then Ret (ignored, scheduled) s
      else let num_prompt = get_len (seqs s i) in
        obind (check_request_prompt_length c now i s) (\<lambda>ok s.
        if \<not> ok then vllm_prefill ops c now ws num_batched_tokens (ignored @ [i], scheduled) s
        else obind (on_manager (m_can_allocate ops (seqs s i)) s) (\<lambda>b s.
        if \<not> b then Ret (ignored, scheduled) s
        else if num_batched_tokens + num_prompt > max_num_batched_tokens c then Ret (ignored, scheduled) s
        else if length (running s) + 1 > max_num_seqs c then Ret (ignored, scheduled) s
        else obind (on_manager (m_allocate ops (seqs s i)) (s\<lparr>waiting := ws\<rparr>)) (\<lambda>_ s.
          vllm_prefill ops c now ws (num_batched_tokens + num_prompt) (ignored, scheduled @ [from_sequence (seqs s i) None])
            (s\<lparr>running := running s @ [i]\<rparr>)))))"

definition vllm_schedule :: "'m manager \<Rightarrow> sched_config \<Rightarrow> int \<Rightarrow> 'm scheduler \<Rightarrow> ('m, SchedulerOutputs) sched" where
  "vllm_schedule ops c now s =
     (let s = s\<lparr>block_mgr := m_clear_promised_blocks ops (block_mgr s)\<rparr> in
      obind (vllm_prefill ops c now (waiting s) 0 ([], []) s) (\<lambda>(ignored, scheduled) s.
      if scheduled \<noteq> [] \<or> ignored \<noteq> []
      then Ret \<lparr>out_id = iteration_id s, ignored_seq_ids = ignored, preempted_seq_ids = [], scheduled_seq_metadata_list = scheduled\<rparr> s
      else let s = sort_by_priority now s in
        obind (decode_loop ops Vllm (running s) no_acc s) (\<lambda>acc s.
          Ret \<lparr>out_id = iteration_id s, ignored_seq_ids = [], preempted_seq_ids = dec_preempted acc,
               scheduled_seq_metadata_list = dec_scheduled acc\<rparr> (s\<lparr>running := kept acc\<rparr>))))"

section \<open>Sarathi\<close>

definition next_num_prefill_tokens :: "sched_config \<Rightarrow> Sequence \<Rightarrow> bool \<Rightarrow> int \<Rightarrow> py_error + int" where
  "next_num_prefill_tokens c q batch_contains_prefill num_batched_tokens =
     pbind (py_assert (\<not> is_finished q)) (\<lambda>_.
     pbind (if enable_dynamic_chunking_schedule c
            then let idx = prompt_tokens_processed q div tokens_per_stage c
                 in pbind (py_assert (idx < int (length (chunk_sizes c)))) (\<lambda>_. Inr (chunk_sizes c ! nat idx))
            else Inr (chunk_size c)) (\<lambda>chunk.
       Inr (if \<not> batch_contains_prefill
            then min (int (get_prompt_len q) - prompt_tokens_processed q) (chunk - num_batched_tokens)
            else 0)))"

record batch_acc =
  b_running :: "string list"
  b_ignored :: "string list"
  b_scheduled :: "SequenceScheduleMetadata list"
  contains_prefill :: bool
  batched_tokens :: int

fun sarathi_prefills :: "sched_config \<Rightarrow> string list \<Rightarrow> batch_acc \<Rightarrow> 'm scheduler \<Rightarrow> ('m, batch_acc) sched" where
  "sarathi_prefills c [] acc s = Ret acc s"
| "sarathi_prefills c (i # is) acc s =
     obind (assert_that (\<not> prompt_processing_finished (seqs s i)) s) (\<lambda>_ s.
     obind (lift_py (next_num_prefill_tokens c (seqs s i) (contains_prefill acc) (batched_tokens acc)) s) (\<lambda>n s.
       if n = 0 then sarathi_prefills c is (acc\<lparr>b_running := b_running acc @ [i]\<rparr>) s
       else sarathi_prefills c is
         (acc\<lparr>contains_prefill := True, batched_tokens := batched_tokens acc + n,
              b_scheduled := b_scheduled acc @ [from_sequence (seqs s i) (Some n)], b_running := b_running acc @ [i]\<rparr>) s))"

fun sarathi_waiting :: "'m manager \<Rightarrow> sched_config \<Rightarrow> int \<Rightarrow> string list \<Rightarrow> batch_acc \<Rightarrow> 'm scheduler \<Rightarrow> ('m, batch_acc) sched" where
  "sarathi_waiting ops c now [] acc s = Ret acc s"
| "sarathi_waiting ops c now (i # ws) acc s =
     (if arrival_time (seqs s i) > now then Ret acc s
      else obind (check_request_prompt_length c now i s) (\<lambda>ok s.
        if \<not> ok then sarathi_waiting ops c now ws (acc\<lparr>b_ignored := b_ignored acc @ [i]\<rparr>) s
        else obind (on_manager (m_can_allocate ops (seqs s i)) s) (\<lambda>b s.
        if \<not> b then Ret acc s
        else if length (b_running acc) \<ge> max_num_seqs c then Ret acc s
        else obind (lift_py (next_num_prefill_tokens c (seqs s i) (contains_prefill acc) (batched_tokens acc)) s) (\<lambda>n s.
        if n = 0 then Ret acc s
        else obind (on_manager (m_allocate ops (seqs s i)) (s\<lparr>waiting := ws\<rparr>)) (\<lambda>_ s.
          sarathi_waiting ops c now ws
            (acc\<lparr>contains_prefill := True, batched_tokens := batched_tokens acc + n,
                 b_scheduled := b_scheduled acc @ [from_sequence (seqs s i) (Some n)], b_running := b_running acc @ [i]\<rparr>) s)))))"

definition sarathi_schedule :: "'m manager \<Rightarrow> sched_config \<Rightarrow> int \<Rightarrow> 'm scheduler \<Rightarrow> ('m, SchedulerOutputs) sched" where
  "sarathi_schedule ops c now s =
     (let s = sort_by_priority now (s\<lparr>block_mgr := m_clear_promised_blocks ops (block_mgr s)\<rparr>) in
      obind (decode_loop ops Sarathi (running s) no_acc s) (\<lambda>d s.
      obind (sarathi_prefills c (prefills d)
              \<lparr>b_running = kept d, b_ignored = [], b_scheduled = dec_scheduled d, contains_prefill = False,
               batched_tokens = int (length (dec_scheduled d))\<rparr> s) (\<lambda>acc s.
      obind (sarathi_waiting ops c now (waiting s) acc s) (\<lambda>acc s.
        Ret \<lparr>out_id = iteration_id s, ignored_seq_ids = b_ignored acc, preempted_seq_ids = dec_preempted d,
             scheduled_seq_metadata_list = b_scheduled acc\<rparr> (s\<lparr>running := b_running acc\<rparr>)))))"

section \<open>Orca and Faster Transformer\<close>

fun resume_paused :: "string list \<Rightarrow> SequenceScheduleMetadata list \<Rightarrow> 'm scheduler \<Rightarrow> ('m, SequenceScheduleMetadata list) sched" where
  "resume_paused [] scheduled s = Ret scheduled s"
| "resume_paused (i # is) scheduled s =
     (if \<not> is_paused (seqs s i) then resume_paused is scheduled s
      else obind (assert_that (prompt_processing_finished (seqs s i)) s) (\<lambda>_ s.
        resume_paused is (scheduled @ [from_sequence (seqs s i) None]) s))"

fun orca_waiting :: "'m manager \<Rightarrow> sched_config \<Rightarrow> int \<Rightarrow> string list \<Rightarrow> string list \<times> SequenceScheduleMetadata list \<Rightarrow>
  'm scheduler \<Rightarrow> ('m, string list \<times> SequenceScheduleMetadata list) sched" where
  "orca_waiting ops c now [] (ignored, scheduled) s = Ret (ignored, scheduled) s"
| "orca_waiting ops c now (i # ws) (ignored, scheduled) s =
     (if arrival_time (seqs s i) > now then Ret (ignored, scheduled) s
      else obind (check_request_prompt_length c now i s) (\<lambda>ok s.
        if \<not> ok then orca_waiting ops c now ws (ignored @ [i], scheduled) s
        else obind (on_manager (m_can_allocate ops (seqs s i)) s) (\<lambda>b s.
        if \<not> b then Ret (ignored, scheduled) s
        else if length (running s) + 1 > max_num_seqs c then Ret (ignored, scheduled) s
        else obind (on_manager (m_allocate ops (seqs s i)) (s\<lparr>waiting := ws\<rparr>)) (\<lambda>_ s.
          orca_waiting ops c now ws (ignored, scheduled @ [from_sequence (seqs s i) None]) (s\<lparr>running := running s @ [i]\<rparr>)))))"

definition orca_schedule :: "'m manager \<Rightarrow> sched_config \<Rightarrow> int \<Rightarrow> 'm scheduler \<Rightarrow> ('m, SchedulerOutputs) sched" where
  "orca_schedule ops c now s =
     obind (resume_paused (running s) [] s) (\<lambda>scheduled s.
     obind (orca_waiting ops c now (waiting s) ([], scheduled) s) (\<lambda>(ignored, scheduled) s.
       Ret \<lparr>out_id = iteration_id s, ignored_seq_ids = ignored, preempted_seq_ids = [], scheduled_seq_metadata_list = scheduled\<rparr> s))"

definition faster_transformer_schedule :: "'m manager \<Rightarrow> sched_config \<Rightarrow> int \<Rightarrow> 'm scheduler \<Rightarrow> ('m, SchedulerOutputs) sched" where
  "faster_transformer_schedule ops c now s =
     obind (resume_paused (running s) [] s) (\<lambda>scheduled s.
     if scheduled \<noteq> []
     then Ret \<lparr>out_id = iteration_id s, ignored_seq_ids = [], preempted_seq_ids = [], scheduled_seq_metadata_list = scheduled\<rparr> s
     else obind (orca_waiting ops c now (waiting s) ([], []) s) (\<lambda>(ignored, scheduled) s.
       Ret \<lparr>out_id = iteration_id s, ignored_seq_ids = ignored, preempted_seq_ids = [], scheduled_seq_metadata_list = scheduled\<rparr> s))"

section \<open>Simple chunking\<close>

definition simple_next_num_prefill_tokens :: "sched_config \<Rightarrow> Sequence \<Rightarrow> int \<Rightarrow> py_error + int" where
  "simple_next_num_prefill_tokens c q num_batched_tokens =
     pbind (py_assert (\<not> is_finished q)) (\<lambda>_.
       Inr (min (int (get_prompt_len q) - prompt_tokens_processed q) (chunk_size c - num_batched_tokens)))"

fun simple_prefills :: "sched_config \<Rightarrow> string list \<Rightarrow> batch_acc \<Rightarrow> 'm scheduler \<Rightarrow> ('m, batch_acc) sched" where
  "simple_prefills c [] acc s = Ret acc s"
| "simple_prefills c (i # rs) acc s =
     (let s = s\<lparr>running := rs\<rparr>; keep = acc\<lparr>b_running := b_running acc @ [i]\<rparr> in
      if \<not> is_paused (seqs s i) \<or> prompt_processing_finished (seqs s i) then simple_prefills c rs keep s
      else obind (lift_py (simple_next_num_prefill_tokens c (seqs s i) (batched_tokens acc)) s) (\<lambda>n s.
        if n = 0 then simple_prefills c rs keep s
        else simple_prefills c rs
          (keep\<lparr>batched_tokens := batched_tokens acc + n,
                b_scheduled := b_scheduled acc @ [from_sequence (seqs s i) (Some n)]\<rparr>) s))"

fun simple_waiting :: "'m manager \<Rightarrow> sched_config \<Rightarrow> int \<Rightarrow> string list \<Rightarrow> batch_acc \<Rightarrow> 'm scheduler \<Rightarrow> ('m, batch_acc) sched" where
  "simple_waiting ops c now [] acc s = Ret acc s"
| "simple_waiting ops c now (i # ws) acc s =
     (if arrival_time (seqs s i) > now then Ret acc s
      else obind (check_request_prompt_length c now i s) (\<lambda>ok s.
        if \<not> ok then simple_waiting ops c now ws (acc\<lparr>b_ignored := b_ignored acc @ [i]\<rparr>) s
        else obind (on_manager (m_can_allocate ops (seqs s i)) s) (\<lambda>b s.
        if \<not> b then Ret acc s
        else if length (running s) + 1 > max_num_seqs c then Ret acc s
        else obind (lift_py (simple_next_num_prefill_tokens c (seqs s i) (batched_tokens acc)) s) (\<lambda>n s.
        if n = 0 then Ret acc s
        else obind (on_manager (m_allocate ops (seqs s i)) (s\<lparr>waiting := ws\<rparr>)) (\<lambda>_ s.
          simple_waiting ops c now ws
            (acc\<lparr>batched_tokens := batched_tokens acc + n,
                 b_scheduled := b_scheduled acc @ [from_sequence (seqs s i) (Some n)]\<rparr>)
            (s\<lparr>running := running s @ [i]\<rparr>))))))"

text \<open>
  Both prefill loops run only in a prefill turn. The first one empties \<open>running\<close> into the local list, which is
  then put back; in a decode turn the local list is empty and \<open>running\<close> is left as sorted.
\<close>

definition simple_chunking_schedule :: "'m manager \<Rightarrow> sched_config \<Rightarrow> int \<Rightarrow> 'm scheduler \<Rightarrow> ('m, SchedulerOutputs) sched" where
  "simple_chunking_schedule ops c now s =
     (let s = sort_by_priority now s;
          acc = \<lparr>b_running = [], b_ignored = [], b_scheduled = [], contains_prefill = False, batched_tokens = 0\<rparr> in
      obind (if whose_turn s = PREFILL then simple_prefills c (running s) acc s else Ret acc s) (\<lambda>acc s.
      let s = (if b_running acc \<noteq> [] then s\<lparr>running := b_running acc\<rparr> else s) in
      if b_scheduled acc \<noteq> []
      then Ret \<lparr>out_id = iteration_id s, ignored_seq_ids = [], preempted_seq_ids = [],
                scheduled_seq_metadata_list = b_scheduled acc\<rparr> (s\<lparr>whose_turn := DECODE\<rparr>)
      else obind (if whose_turn s = PREFILL then simple_waiting ops c now (waiting s) acc s else Ret acc s) (\<lambda>acc s.
      if b_scheduled acc \<noteq> [] \<or> b_ignored acc \<noteq> []
      then Ret \<lparr>out_id = iteration_id s, ignored_seq_ids = b_ignored acc, preempted_seq_ids = [],
                scheduled_seq_metadata_list = b_scheduled acc\<rparr> (s\<lparr>whose_turn := DECODE\<rparr>)
      else obind (decode_loop ops Simple_Chunking (running s) no_acc s) (\<lambda>d s.
        Ret \<lparr>out_id = iteration_id s, ignored_seq_ids = [], preempted_seq_ids = dec_preempted d,
             scheduled_seq_metadata_list = dec_scheduled d\<rparr> (s\<lparr>running := kept d, whose_turn := PREFILL\<rparr>)))))"

section \<open>One call of a scheduler\<close>

definition schedule :: "('m scheduler \<Rightarrow> ('m, SchedulerOutputs) sched) \<Rightarrow> sched_config \<Rightarrow> 'm scheduler \<Rightarrow> ('m, SchedulerOutputs) sched" where
  "schedule do_schedule c s =
     (let s = s\<lparr>iteration_id := iteration_id s + 1\<rparr> in
      if num_running_batches s \<ge> num_pipeline_stages c
      then Ret \<lparr>out_id = iteration_id s, ignored_seq_ids = [], preempted_seq_ids = [], scheduled_seq_metadata_list = []\<rparr> s
      else obind (do_schedule s) (\<lambda>o' s.
        Ret o' (if \<not> is_empty o' then s\<lparr>num_running_batches := num_running_batches s + 1\<rparr> else s)))"

end
