(* ===== verification/Engine_Sched_Correct.thy ===== *)
theory Engine_Sched_Correct
  imports Engine_Sched
begin

text \<open>
  Correctness of the schedulers over any block space manager that keeps the contract \<open>block_space\<close>: no call raises, no
  sequence is lost or queued twice, and exactly the admitted sequences hold blocks.
\<close>

section \<open>The invariant of the queues\<close>

definition holding :: "('m \<Rightarrow> bool) \<Rightarrow> ('m \<Rightarrow> string set) \<Rightarrow> string list \<Rightarrow> 'm scheduler \<Rightarrow> bool" where
  "holding I H rs s \<longleftrightarrow>
     I (block_mgr s) \<and> distinct (rs @ waiting s) \<and> (\<forall>i \<in> set (rs @ waiting s). seq_id (seqs s i) = i) \<and>
     set rs \<subseteq> H (block_mgr s) \<and> set (waiting s) \<inter> H (block_mgr s) = {}"

lemma holding_perm: "mset rs = mset rs' \<Longrightarrow> holding I H rs s = holding I H rs' s"
  unfolding holding_def by (metis distinct_append mset_eq_imp_distinct_iff set_append set_mset_mset)

lemma holding_inv: "holding I H rs s \<Longrightarrow> I (block_mgr s)"
  by (simp add: holding_def)

lemma holding_running [simp]: "holding I H rs (s\<lparr>running := r\<rparr>) = holding I H rs s"
  by (simp add: holding_def)

text \<open>What a decode round leaves untouched, and the sequences \<open>x\<close> it moved to the front of the waiting queue.\<close>

definition moved :: "string list \<Rightarrow> 'm scheduler \<Rightarrow> 'm scheduler \<Rightarrow> bool" where
  "moved x s s' \<longleftrightarrow> seqs s' = seqs s \<and> waiting s' = rev x @ waiting s \<and> iteration_id s' = iteration_id s"

lemma moved_running [simp]: "moved x (s\<lparr>running := r\<rparr>) s' = moved x s s'" "moved x s (s'\<lparr>running := r\<rparr>) = moved x s s'"
  by (simp_all add: moved_def)

lemma moved_trans: "moved x s s' \<Longrightarrow> moved y s' s'' \<Longrightarrow> moved (x @ y) s s''"
  by (simp add: moved_def)

lemma moved_refl [simp]: "moved [] s s"
  by (simp add: moved_def)

text \<open>
  What a run of the decode loop over \<open>rs\<close> did: each of its sequences is now kept, put aside with an unfinished prompt or preempted,
  and one token is scheduled for exactly those kept sequences that were paused after their prompt.
\<close>

definition decodable :: "Sequence \<Rightarrow> bool" where
  "decodable q \<longleftrightarrow> is_paused q \<and> prompt_processing_finished q"

definition decoded :: "string list \<Rightarrow> decode_acc \<Rightarrow> 'm scheduler \<Rightarrow> decode_acc \<Rightarrow> 'm scheduler \<Rightarrow> bool" where
  "decoded rs acc s acc' s' \<longleftrightarrow> (\<exists>x ks ps. moved x s s' \<and> mset rs = mset ks + mset ps + mset x \<and>
     kept acc' = kept acc @ ks \<and> prefills acc' = prefills acc @ ps \<and> dec_preempted acc' = dec_preempted acc @ x \<and>
     dec_scheduled acc' = dec_scheduled acc @ map (\<lambda>i. from_sequence (seqs s i) None) (filter (\<lambda>i. decodable (seqs s i)) ks) \<and>
     (\<forall>i \<in> set ps. is_paused (seqs s i) \<and> \<not> prompt_processing_finished (seqs s i)))"

lemma decoded_nil: "decoded [] acc s acc (s\<lparr>running := []\<rparr>)"
  by (simp add: decoded_def)

lemma decoded_keep:
  assumes "\<not> decodable (seqs s i)" "decoded rs (acc\<lparr>kept := kept acc @ [i]\<rparr>) (s\<lparr>running := r\<rparr>) acc' s'"
  shows "decoded (i # rs) acc s acc' s'"
proof -
  obtain x ks ps where "moved x s s'" "mset rs = mset ks + mset ps + mset x" "kept acc' = kept acc @ i # ks" "prefills acc' = prefills acc @ ps"
    "dec_preempted acc' = dec_preempted acc @ x"
    "dec_scheduled acc' = dec_scheduled acc @ map (\<lambda>i. from_sequence (seqs s i) None) (filter (\<lambda>i. decodable (seqs s i)) ks)"
    "\<forall>i \<in> set ps. is_paused (seqs s i) \<and> \<not> prompt_processing_finished (seqs s i)"
    using assms(2) by (auto simp: decoded_def)
  then show ?thesis unfolding decoded_def using assms(1)
    by (intro exI [of _ x] exI [of _ "i # ks"] exI [of _ ps]) auto
qed

lemma decoded_prefill:
  assumes "is_paused (seqs s i)" "\<not> prompt_processing_finished (seqs s i)"
    "decoded rs (acc\<lparr>prefills := prefills acc @ [i]\<rparr>) (s\<lparr>running := r\<rparr>) acc' s'"
  shows "decoded (i # rs) acc s acc' s'"
proof -
  obtain x ks ps where "moved x s s'" "mset rs = mset ks + mset ps + mset x" "kept acc' = kept acc @ ks" "prefills acc' = prefills acc @ i # ps"
    "dec_preempted acc' = dec_preempted acc @ x"
    "dec_scheduled acc' = dec_scheduled acc @ map (\<lambda>i. from_sequence (seqs s i) None) (filter (\<lambda>i. decodable (seqs s i)) ks)"
    "\<forall>i \<in> set ps. is_paused (seqs s i) \<and> \<not> prompt_processing_finished (seqs s i)"
    using assms(3) by (auto simp: decoded_def)
  then show ?thesis unfolding decoded_def using assms(1,2)
    by (intro exI [of _ x] exI [of _ ks] exI [of _ "i # ps"]) auto
qed

lemma decoded_stop:
  assumes "moved x s s'" "mset rs = mset x"
  shows "decoded rs acc s (acc\<lparr>dec_preempted := dec_preempted acc @ x\<rparr>) (s'\<lparr>running := r\<rparr>)"
  unfolding decoded_def using assms by (intro exI [of _ x] exI [of _ "[]"]) auto

lemma decoded_slot:
  assumes "decodable (seqs s i)" "moved x s w" "mset rs = mset vs + mset x"
    "decoded (rev vs) (acc\<lparr>dec_preempted := dec_preempted acc @ x, kept := kept acc @ [i],
       dec_scheduled := dec_scheduled acc @ [from_sequence (seqs s i) None]\<rparr>) w acc' s'"
  shows "decoded (i # rs) acc s acc' s'"
proof -
  have w: "seqs w = seqs s" using assms(2) by (simp add: moved_def)
  obtain y ks ps where y: "moved y w s'" "mset vs = mset ks + mset ps + mset y" "kept acc' = kept acc @ i # ks" "prefills acc' = prefills acc @ ps"
    "dec_preempted acc' = dec_preempted acc @ x @ y"
    "dec_scheduled acc' = dec_scheduled acc @ from_sequence (seqs s i) None #
       map (\<lambda>i. from_sequence (seqs s i) None) (filter (\<lambda>i. decodable (seqs s i)) ks)"
    "\<forall>i \<in> set ps. is_paused (seqs s i) \<and> \<not> prompt_processing_finished (seqs s i)"
    using assms(4) w by (auto simp: decoded_def)
  show ?thesis unfolding decoded_def using assms(1,3) y moved_trans [OF assms(2) y(1)]
    by (intro exI [of _ "x @ y"] exI [of _ "i # ks"] exI [of _ ps]) auto
qed

context block_space
begin

lemma preempt_step:
  assumes "holding inv held (v # rs) s" "is_executing (seqs s v)"
  shows "\<exists>s'. preempt ops v s = Ret () s' \<and> holding inv held rs s' \<and> moved [v] s s'"
proof -
  have i: "inv (block_mgr s)" and v: "seq_id (seqs s v) = v" using assms(1) by (auto simp: holding_def)
  obtain m where m: "m_free ops (seqs s v) (block_mgr s) = Ret () m" "inv (m_queue_preempted ops (seqs s v) m)"
    "held (m_queue_preempted ops (seqs s v) m) = held (block_mgr s) - {v}"
    using preempt_ok [OF i, of "seqs s v"] v by auto
  then show ?thesis using assms
    by (auto simp: preempt_def assert_that_def free_seq_def on_manager_def holding_def moved_def)
qed

lemma make_room_ok:
  assumes "holding inv held (i # vs @ K) s" "\<forall>v \<in> set (i # vs). is_executing (seqs s v)"
  shows "\<exists>b vs' x s'. make_room ops i vs pre s = Ret (b, vs', pre @ x) s' \<and> moved x s s' \<and>
    (if b then holding inv held (i # vs' @ K) s' \<and> mset vs = mset vs' + mset x \<and>
            m_can_append_slot ops (seqs s i) (block_mgr s') = Ret True (block_mgr s')
     else vs' = [] \<and> holding inv held K s' \<and> mset (i # vs) = mset x)"
  using assms
proof (induction vs arbitrary: pre s)
  case Nil
  obtain b where b: "m_can_append_slot ops (seqs s i) (block_mgr s) = Ret b (block_mgr s)"
    using can_append_pure [OF holding_inv [OF Nil.prems(1)]] by blast
  show ?case
  proof (cases b)
    case True
    then show ?thesis using Nil.prems b by (auto simp: on_manager_def intro!: exI [of _ "[]"])
  next
    case False
    obtain s' where "preempt ops i s = Ret () s'" "holding inv held K s'" "moved [i] s s'"
      using preempt_step [of i K s] Nil.prems by auto
    then show ?thesis using b False by (auto simp: on_manager_def intro!: exI [of _ "[i]"])
  qed
next
  case (Cons v vs)
  obtain b where b: "m_can_append_slot ops (seqs s i) (block_mgr s) = Ret b (block_mgr s)"
    using can_append_pure [OF holding_inv [OF Cons.prems(1)]] by blast
  show ?case
  proof (cases b)
    case True
    then show ?thesis using Cons.prems b by (auto simp: on_manager_def intro!: exI [of _ "[]"])
  next
    case False
    have "holding inv held (v # i # vs @ K) (s\<lparr>running := rev vs\<rparr>)"
      using Cons.prems(1) by (subst holding_perm [of _ "i # (v # vs) @ K"]) auto
    then obtain s' where s': "preempt ops v (s\<lparr>running := rev vs\<rparr>) = Ret () s'" "holding inv held (i # vs @ K) s'" "moved [v] s s'"
      using preempt_step [of v "i # vs @ K" "s\<lparr>running := rev vs\<rparr>"] Cons.prems(2) by auto
    have seqs: "seqs s' = seqs s" using s'(3) by (simp add: moved_def)
    obtain b' vs' x s'' where r: "make_room ops i vs (pre @ [v]) s' = Ret (b', vs', (pre @ [v]) @ x) s''" "moved x s' s''"
      "if b' then holding inv held (i # vs' @ K) s'' \<and> mset vs = mset vs' + mset x \<and>
            m_can_append_slot ops (seqs s i) (block_mgr s'') = Ret True (block_mgr s'')
       else vs' = [] \<and> holding inv held K s'' \<and> mset (i # vs) = mset x"
      using Cons.IH [OF s'(2), of "pre @ [v]"] Cons.prems(2) unfolding seqs by auto
    have "make_room ops i (v # vs) pre s = Ret (b', vs', pre @ v # x) s''"
      using b False s'(1) r(1) by (simp add: on_manager_def)
    moreover have "moved (v # x) s s''" using moved_trans [OF s'(3) r(2)] by simp
    ultimately show ?thesis using r(3) by (intro exI [of _ b'] exI [of _ vs'] exI [of _ "v # x"] exI [of _ s'']) (auto split: if_splits)
  qed
qed

lemma append_slot_step:
  assumes "holding inv held (i # rs) s" "is_executing (seqs s i)"
    "m_can_append_slot ops (seqs s i) (block_mgr s) = Ret True (block_mgr s)"
  shows "\<exists>s'. sched_append_slot ops i s = Ret () s' \<and> holding inv held (i # rs) s' \<and> moved [] s s'"
proof -
  have i: "inv (block_mgr s)" "seq_id (seqs s i) \<in> held (block_mgr s)" using assms(1) by (auto simp: holding_def)
  obtain m where "m_append_slot ops (seqs s i) (block_mgr s) = Ret () m" "inv m" "held m = held (block_mgr s)"
    using append_slot_ok [OF i assms(3)] by auto
  then show ?thesis using assms by (auto simp: sched_append_slot_def assert_that_def on_manager_def holding_def moved_def)
qed

lemma decode_loop_ok:
  assumes "holding inv held (rs @ kept acc @ prefills acc) s" "\<forall>i \<in> set rs. is_executing (seqs s i)"
    "pol = Vllm \<longrightarrow> (\<forall>i \<in> set rs. is_paused (seqs s i) \<longrightarrow> prompt_processing_finished (seqs s i))"
  shows "\<exists>acc' s'. decode_loop ops pol rs acc s = Ret acc' s' \<and> holding inv held (kept acc' @ prefills acc') s' \<and>
    decoded rs acc s acc' s'"
  using assms
proof (induction "length rs" arbitrary: rs acc s rule: less_induct)
  case less
  show ?case
  proof (cases rs)
    case Nil
    then show ?thesis using less.prems by (auto simp: decode_loop_list intro: decoded_nil)
  next
    case (Cons i rs')
    define t where "t = s\<lparr>running := rs'\<rparr>"
    have t: "seqs t = seqs s" by (simp add: t_def)
    have keep: "\<exists>acc'' s''. decode_loop ops pol rs' acc' t = Ret acc'' s'' \<and> holding inv held (kept acc'' @ prefills acc'') s'' \<and>
        decoded rs' acc' t acc'' s''"
      if "mset (kept acc' @ prefills acc') = mset (i # kept acc @ prefills acc)" for acc'
    proof (rule less.hyps)
      show "holding inv held (rs' @ kept acc' @ prefills acc') t"
        using less.prems(1) that Cons by (subst holding_perm [of _ "rs @ kept acc @ prefills acc"]) (auto simp: t_def)
    qed (use less.prems(2,3) Cons t in auto)
    consider (other) "\<not> is_paused (seqs s i)" | (prefill) "is_paused (seqs s i)" "\<not> prompt_processing_finished (seqs s i)"
      | (decode) "is_paused (seqs s i)" "prompt_processing_finished (seqs s i)" by blast
    then show ?thesis
    proof cases
      case other
      then show ?thesis using keep [of "acc\<lparr>kept := kept acc @ [i]\<rparr>"] Cons t decoded_keep [of s i rs' acc rs']
        by (auto simp: decode_loop_list Let_def t_def decodable_def)
    next
      case prefill
      have "pol \<noteq> Vllm" using prefill less.prems(3) Cons by auto
      then show ?thesis
        using keep [of "acc\<lparr>kept := kept acc @ [i]\<rparr>"] keep [of "acc\<lparr>prefills := prefills acc @ [i]\<rparr>"] prefill Cons t
          decoded_keep [of s i rs' acc rs'] decoded_prefill [of s i rs' acc rs']
        by (cases pol) (auto simp: decode_loop_list Let_def t_def decodable_def)
    next
      case decode
      have h: "holding inv held (i # rev rs' @ kept acc @ prefills acc) t"
        using less.prems(1) Cons by (subst holding_perm [of _ "rs @ kept acc @ prefills acc"]) (auto simp: t_def)
      obtain b vs x u where r: "make_room ops i (rev rs') (dec_preempted acc) t = Ret (b, vs, dec_preempted acc @ x) u" "moved x t u"
        and c: "if b then holding inv held (i # vs @ kept acc @ prefills acc) u \<and> mset (rev rs') = mset vs + mset x \<and>
            m_can_append_slot ops (seqs t i) (block_mgr u) = Ret True (block_mgr u)
          else vs = [] \<and> holding inv held (kept acc @ prefills acc) u \<and> mset (i # rev rs') = mset x"
        using make_room_ok [OF h, of "dec_preempted acc"] less.prems(2) Cons t by auto
      have u: "seqs u = seqs s" using r(2) t by (simp add: moved_def)
      show ?thesis
      proof (cases b)
        case False
        then have "decode_loop ops pol rs acc s = Ret (acc\<lparr>dec_preempted := dec_preempted acc @ x\<rparr>) (u\<lparr>running := []\<rparr>)"
          using r(1) c decode Cons t by (simp add: decode_loop_list Let_def t_def)
        moreover have "moved x s u" using r(2) by (simp add: t_def)
        ultimately show ?thesis using c False Cons by (auto intro: decoded_stop)
      next
        case True
        have g: "mset rs' = mset vs + mset x" using c True by simp
        then have sub: "set vs \<subseteq> set rs'" by (metis mset_subset_eq_add_left set_mset_mono set_mset_mset)
        have len: "length vs < length rs" using g Cons by (metis size_mset size_union le_add1 length_Cons less_Suc_eq_le)
        obtain w where w: "sched_append_slot ops i u = Ret () w" "holding inv held (i # vs @ kept acc @ prefills acc) w" "moved [] u w"
          using append_slot_step [of i "vs @ kept acc @ prefills acc" u] c True less.prems(2) Cons t u by auto
        have ws: "seqs w = seqs s" using w(3) u by (simp add: moved_def)
        define acc1 where "acc1 = acc\<lparr>dec_preempted := dec_preempted acc @ x, kept := kept acc @ [i],
          dec_scheduled := dec_scheduled acc @ [from_sequence (seqs s i) None]\<rparr>"
        have l: "length (rev vs) < length rs" and ex: "\<forall>v \<in> set (rev vs). is_executing (seqs w v)"
          and fin: "pol = Vllm \<longrightarrow> (\<forall>v \<in> set (rev vs). is_paused (seqs w v) \<longrightarrow> prompt_processing_finished (seqs w v))"
          using len sub less.prems(2,3) Cons ws by auto
        have hw: "holding inv held (rev vs @ kept acc1 @ prefills acc1) w"
          using w(2) by (subst holding_perm [of _ "i # vs @ kept acc @ prefills acc"]) (auto simp: acc1_def)
        obtain acc' s' where a: "decode_loop ops pol (rev vs) acc1 w = Ret acc' s'" "holding inv held (kept acc' @ prefills acc') s'"
          "decoded (rev vs) acc1 w acc' s'"
          using less.hyps [OF l hw ex fin] by blast
        have "decode_loop ops pol rs acc s = Ret acc' s'"
          using a(1) r(1) w(1) True decode Cons t by (simp add: decode_loop_list Let_def t_def acc1_def)
        moreover have "moved x s w" using moved_trans [OF r(2) w(3)] by (simp add: t_def)
        ultimately show ?thesis using a(2,3) decode g Cons
          by (auto simp: acc1_def decodable_def intro: decoded_slot)
      qed
    qed
  qed
qed

end

end
