(* ===== verification/Engine_Admit.thy ===== *)
theory Engine_Admit
  imports Engine_Sched_Correct
begin

text \<open>
  Admission from the waiting queue: the loops of all schedulers take a prefix of the queue, in order, ignore in it the
  sequences that are too long and allocate the others.
\<close>

section \<open>What an admission loop does\<close>

definition too_long :: "sched_config \<Rightarrow> 'm scheduler \<Rightarrow> string list \<Rightarrow> string list" where
  "too_long c s = filter (\<lambda>i. get_len (seqs s i) > max_model_len c)"

definition admissible :: "sched_config \<Rightarrow> 'm scheduler \<Rightarrow> string list \<Rightarrow> string list" where
  "admissible c s = filter (\<lambda>i. \<not> get_len (seqs s i) > max_model_len c)"

definition ignored_seq :: "int \<Rightarrow> Sequence \<Rightarrow> Sequence" where
  "ignored_seq now q = q\<lparr>seq_state := (seq_state q)\<lparr>is_ignore_finished := True, is_completed := True, completed_at := Some now,
     scheduled_at := Some now, status := FINISHED_IGNORED\<rparr>\<rparr>"

definition admitted :: "('m \<Rightarrow> bool) \<Rightarrow> ('m \<Rightarrow> string set) \<Rightarrow> sched_config \<Rightarrow> int \<Rightarrow> string list \<Rightarrow> string list \<Rightarrow>
  'm scheduler \<Rightarrow> 'm scheduler \<Rightarrow> bool" where
  "admitted I H c now K pre s s' \<longleftrightarrow>
     waiting s = pre @ waiting s' \<and> holding I H (K @ admissible c s pre) s' \<and> iteration_id s' = iteration_id s \<and>
     seqs s' = (\<lambda>i. if i \<in> set (too_long c s pre) then ignored_seq now (seqs s i) else seqs s i)"

text \<open>A waiting sequence can be checked without an exception: it was never started or it is short enough.\<close>

definition startable :: "sched_config \<Rightarrow> Sequence \<Rightarrow> bool" where
  "startable c q \<longleftrightarrow> get_status q = WAITING \<or> get_len q \<le> max_model_len c"

lemma admissible_simps [simp]:
  "admissible c s [] = []"
  "admissible c s (i # is) = (if get_len (seqs s i) > max_model_len c then admissible c s is else i # admissible c s is)"
  "too_long c s [] = []"
  "too_long c s (i # is) = (if get_len (seqs s i) > max_model_len c then i # too_long c s is else too_long c s is)"
  by (simp_all add: admissible_def too_long_def)

lemma admissible_too_long: "mset (admissible c s pre) + mset (too_long c s pre) = mset pre"
  by (simp add: admissible_def too_long_def union_commute mset_filter)

lemma ignored_seq_simps [simp]:
  "get_len (ignored_seq now q) = get_len q" "from_sequence (ignored_seq now q) n = from_sequence q n" "seq_id (ignored_seq now q) = seq_id q"
  "get_status (ignored_seq now q) = FINISHED_IGNORED" "arrival_time (ignored_seq now q) = arrival_time q"
  by (simp_all add: ignored_seq_def get_len_def from_sequence_def get_prompt_len_def get_status_def split: option.split)

text \<open>Ignoring a sequence changes no length and no metadata of the store.\<close>

lemma ignoring [simp]:
  "get_len (((seqs s)(i := ignored_seq now (seqs s i))) j) = get_len (seqs s j)"
  "from_sequence (((seqs s)(i := ignored_seq now (seqs s i))) j) n = from_sequence (seqs s j) n"
  by simp_all

lemma admissible_state:
  assumes "\<And>i. get_len (seqs t i) = get_len (seqs s i)"
  shows "admissible c t = admissible c s" "too_long c t = too_long c s"
  by (simp_all add: admissible_def too_long_def assms fun_eq_iff)

lemma check_length:
  assumes "startable c (seqs s i)"
  shows "check_request_prompt_length c now i s =
    (if get_len (seqs s i) > max_model_len c
     then Ret False (s\<lparr>seqs := (seqs s)(i := ignored_seq now (seqs s i)), waiting := tl (waiting s)\<rparr>) else Ret True s)"
  using assms
  by (auto simp: check_request_prompt_length_def startable_def set_status_def transition_defs get_status_def lift_py_def ignored_seq_def)

lemma admitted_refl: "holding I H K s \<Longrightarrow> admitted I H c now K [] s s"
  by (simp add: admitted_def)

lemma admitted_refl_running: "holding I H K s \<Longrightarrow> admitted I H c now K [] s (s\<lparr>running := r\<rparr>)"
  by (simp add: admitted_def)

lemma admitted_ignore:
  assumes h: "holding I H K s" "waiting s = i # ws" "get_len (seqs s i) > max_model_len c"
    and a: "admitted I H c now K pre (s\<lparr>seqs := (seqs s)(i := ignored_seq now (seqs s i)), waiting := ws\<rparr>) s'"
  shows "admitted I H c now K (i # pre) s s'"
proof -
  let ?t = "s\<lparr>seqs := (seqs s)(i := ignored_seq now (seqs s i)), waiting := ws\<rparr>"
  have "i \<notin> set (too_long c s pre)" using h a by (auto simp: holding_def admitted_def too_long_def)
  moreover have "admissible c ?t = admissible c s" "too_long c ?t = too_long c s" by (simp_all add: admissible_state [of ?t s])
  ultimately show ?thesis using a h by (auto simp: admitted_def)
qed

lemma admitted_admit:
  assumes "seqs t = seqs s" "waiting s = i # ws" "waiting t = ws" "iteration_id t = iteration_id s"
    "\<not> get_len (seqs s i) > max_model_len c" "admitted I H c now (K @ [i]) pre t s'"
  shows "admitted I H c now K (i # pre) s s'"
  using assms by (auto simp: admitted_def admissible_def too_long_def)

lemma holding_ignore:
  assumes "holding I H K s" "waiting s = i # ws"
  shows "holding I H K (s\<lparr>seqs := (seqs s)(i := ignored_seq now (seqs s i)), waiting := ws\<rparr>)"
  using assms by (auto simp: holding_def ignored_seq_def)

lemma startable_other: "i \<notin> set ws \<Longrightarrow> \<forall>j \<in> set ws. startable c (seqs s j) \<Longrightarrow> \<forall>j \<in> set ws. startable c (((seqs s)(i := q)) j)"
  by auto

lemma holding_fresh: "holding I H K s \<Longrightarrow> waiting s = i # ws \<Longrightarrow> i \<notin> set ws \<and> i \<notin> set K"
  by (auto simp: holding_def)

context block_space
begin

lemma can_allocate_step: "holding inv held K s \<Longrightarrow> \<exists>b. on_manager (m_can_allocate ops q) s = Ret b s \<and> m_can_allocate ops q (block_mgr s) = Ret b (block_mgr s)"
  using can_allocate_pure [of "block_mgr s" q] by (auto simp: holding_def on_manager_def)

lemma allocate_step:
  assumes "holding inv held K s" "waiting s = i # ws" "m_can_allocate ops (seqs s i) (block_mgr s) = Ret True (block_mgr s)"
  shows "\<exists>t. on_manager (m_allocate ops (seqs s i)) (s\<lparr>waiting := ws\<rparr>) = Ret () t \<and> holding inv held (K @ [i]) t \<and>
    seqs t = seqs s \<and> waiting t = ws \<and> running t = running s \<and> iteration_id t = iteration_id s"
proof -
  have i: "inv (block_mgr s)" "seq_id (seqs s i) = i" "i \<notin> held (block_mgr s)" using assms(1,2) by (auto simp: holding_def)
  obtain m where "m_allocate ops (seqs s i) (block_mgr s) = Ret () m" "inv m" "held m = insert i (held (block_mgr s))"
    using allocate_ok [OF i(1) _ assms(3)] i(2,3) by auto
  then show ?thesis using assms(1,2) by (auto simp: on_manager_def holding_def)
qed

section \<open>vLLM\<close>

lemma vllm_prefill_ok:
  assumes "holding inv held (running s) s" "waiting s = ws" "\<forall>i \<in> set ws. startable c (seqs s i)"
  shows "\<exists>pre s'. vllm_prefill ops c now ws n (ig, sc) s =
      Ret (ig @ too_long c s pre, sc @ map (\<lambda>i. from_sequence (seqs s i) None) (admissible c s pre)) s' \<and>
    admitted inv held c now (running s) pre s s' \<and> running s' = running s @ admissible c s pre \<and>
    (admissible c s pre \<noteq> [] \<longrightarrow> n + sum_list (map (\<lambda>i. get_len (seqs s i)) (admissible c s pre)) \<le> max_num_batched_tokens c \<and>
       length (running s') \<le> max_num_seqs c)"
  using assms
proof (induction ws arbitrary: s n ig sc)
  case Nil
  then show ?case using admitted_refl by (intro exI [of _ "[]"] exI [of _ s]) auto
next
  case (Cons i ws)
  have f: "i \<notin> set ws" using holding_fresh [OF Cons.prems(1,2)] by blast
  have stop: "\<exists>pre s'. Ret (ig, sc) s =
      Ret (ig @ too_long c s pre, sc @ map (\<lambda>i. from_sequence (seqs s i) None) (admissible c s pre)) s' \<and>
    admitted inv held c now (running s) pre s s' \<and> running s' = running s @ admissible c s pre \<and>
    (admissible c s pre \<noteq> [] \<longrightarrow> n + sum_list (map (\<lambda>i. get_len (seqs s i)) (admissible c s pre)) \<le> max_num_batched_tokens c \<and>
       length (running s') \<le> max_num_seqs c)"
    using admitted_refl [OF Cons.prems(1)] by (intro exI [of _ "[]"] exI [of _ s]) auto
  obtain b where b: "on_manager (m_can_allocate ops (seqs s i)) s = Ret b s"
    "m_can_allocate ops (seqs s i) (block_mgr s) = Ret b (block_mgr s)" using can_allocate_step [OF Cons.prems(1)] by blast
  note ck = check_length [of c s i now]
  consider (late) "arrival_time (seqs s i) > now"
    | (long) "\<not> arrival_time (seqs s i) > now" "get_len (seqs s i) > max_model_len c"
    | (full) "\<not> arrival_time (seqs s i) > now" "\<not> get_len (seqs s i) > max_model_len c"
        "\<not> b \<or> n + get_len (seqs s i) > max_num_batched_tokens c \<or> length (running s) + 1 > max_num_seqs c"
    | (take) "\<not> arrival_time (seqs s i) > now" "\<not> get_len (seqs s i) > max_model_len c" "b"
        "n + get_len (seqs s i) \<le> max_num_batched_tokens c" "length (running s) + 1 \<le> max_num_seqs c" by linarith
  then show ?case
  proof cases
    case late
    then show ?thesis using stop by simp
  next
    case long
    let ?t = "s\<lparr>seqs := (seqs s)(i := ignored_seq now (seqs s i)), waiting := ws\<rparr>"
    obtain pre s' where r: "vllm_prefill ops c now ws n (ig @ [i], sc) ?t =
        Ret ((ig @ [i]) @ too_long c ?t pre, sc @ map (\<lambda>i. from_sequence (seqs ?t i) None) (admissible c ?t pre)) s'"
      "admitted inv held c now (running s) pre ?t s'" "running s' = running s @ admissible c ?t pre"
      "admissible c ?t pre \<noteq> [] \<longrightarrow> n + sum_list (map (\<lambda>i. get_len (seqs ?t i)) (admissible c ?t pre)) \<le> max_num_batched_tokens c \<and>
       length (running s') \<le> max_num_seqs c"
      using Cons.IH [of ?t n "ig @ [i]" sc] holding_ignore [OF Cons.prems(1,2)] startable_other [OF f, of c s] Cons.prems(3) by auto
    have "admissible c ?t = admissible c s" "too_long c ?t = too_long c s" by (simp_all add: admissible_state [of ?t s])
    moreover have "(\<lambda>j. get_len (seqs ?t j)) = (\<lambda>j. get_len (seqs s j))"
      "(\<lambda>j. from_sequence (seqs ?t j) None) = (\<lambda>j. from_sequence (seqs s j) None)" by auto
    ultimately show ?thesis
      using r ck admitted_ignore [OF Cons.prems(1,2) long(2) r(2)] long Cons.prems(2,3)
      by (intro exI [of _ "i # pre"] exI [of _ s']) simp
  next
    case full
    then show ?thesis using stop ck b Cons.prems(2,3) by (auto simp: Let_def)
  next
    case take
    obtain t where t: "on_manager (m_allocate ops (seqs s i)) (s\<lparr>waiting := ws\<rparr>) = Ret () t" "holding inv held (running s @ [i]) t"
      "seqs t = seqs s" "waiting t = ws" "running t = running s" "iteration_id t = iteration_id s"
      using allocate_step [OF Cons.prems(1,2)] b take by auto
    let ?u = "t\<lparr>running := running t @ [i]\<rparr>"
    obtain pre s' where r: "vllm_prefill ops c now ws (n + get_len (seqs s i)) (ig, sc @ [from_sequence (seqs s i) None]) ?u =
        Ret (ig @ too_long c ?u pre, (sc @ [from_sequence (seqs s i) None]) @ map (\<lambda>i. from_sequence (seqs ?u i) None) (admissible c ?u pre)) s'"
      "admitted inv held c now (running s @ [i]) pre ?u s'" "running s' = running s @ [i] @ admissible c ?u pre"
      "admissible c ?u pre \<noteq> [] \<longrightarrow> n + get_len (seqs s i) + sum_list (map (\<lambda>i. get_len (seqs ?u i)) (admissible c ?u pre)) \<le> max_num_batched_tokens c \<and>
       length (running s') \<le> max_num_seqs c"
      using Cons.IH [of ?u "n + get_len (seqs s i)" ig "sc @ [from_sequence (seqs s i) None]"] t Cons.prems(3) by auto
    have e: "admissible c ?u pre = admissible c s pre" "too_long c ?u pre = too_long c s pre" using t(3) by (simp_all add: admissible_def too_long_def)
    have "admitted inv held c now (running s) (i # pre) s s'"
      using admitted_admit [OF _ Cons.prems(2) _ _ take(2) r(2)] t by simp
    then show ?thesis using r ck b t(1,3) take e Cons.prems(2,3)
      by (intro exI [of _ "i # pre"] exI [of _ s']) (cases "admissible c s pre = []"; simp add: Let_def)
  qed
qed

end

end
