(* ===== verification/Engine_Policies.thy ===== *)
theory Engine_Policies
  imports Engine_Admit
begin

text \<open>
  The calls of the vLLM and the Sarathi scheduler as a whole: nothing is raised, no sequence is lost, and the batch stays
  within its budget. Both are proved for every block space manager and stated for vAttention's manager and the paged one.
\<close>

section \<open>When a scheduler is called\<close>

definition seq_ready :: "sched_config \<Rightarrow> Sequence \<Rightarrow> bool" where
  "seq_ready c q \<longleftrightarrow> prompt_tokens_processed q \<le> int (get_prompt_len q) \<and>
     (enable_dynamic_chunking_schedule c \<longrightarrow> prompt_tokens_processed q div tokens_per_stage c < int (length (chunk_sizes c)))"

text \<open>
  Waiting sequences have not started, running ones are executing; only admitted sequences hold blocks. With whole prompts a paused
  sequence has finished its prompt; with chunked ones no running sequence is longer than the model allows.
\<close>

definition queues_ok :: "('m \<Rightarrow> bool) \<Rightarrow> ('m \<Rightarrow> string set) \<Rightarrow> 'm scheduler \<Rightarrow> bool" where
  "queues_ok I H s \<longleftrightarrow> holding I H (running s) s \<and> (\<forall>i \<in> set (waiting s). get_status (seqs s i) = WAITING) \<and>
     (\<forall>i \<in> set (running s). is_executing (seqs s i))"

definition whole_prompts :: "'m scheduler \<Rightarrow> bool" where
  "whole_prompts s \<longleftrightarrow> (\<forall>i \<in> set (running s). is_paused (seqs s i) \<longrightarrow> prompt_processing_finished (seqs s i))"

definition chunked_prompts :: "sched_config \<Rightarrow> 'm scheduler \<Rightarrow> bool" where
  "chunked_prompts c s \<longleftrightarrow> (\<forall>i \<in> set (running s @ waiting s). seq_ready c (seqs s i)) \<and>
     (\<forall>i \<in> set (running s). get_len (seqs s i) \<le> max_model_len c)"

text \<open>No sequence is lost or duplicated, and the batch holds running sequences, each once.\<close>

definition conserves :: "'m scheduler \<Rightarrow> SchedulerOutputs \<Rightarrow> 'm scheduler \<Rightarrow> bool" where
  "conserves s o' s' \<longleftrightarrow>
     mset (waiting s') + mset (running s') + mset (ignored_seq_ids o') = mset (waiting s) + mset (running s) \<and>
     set (preempted_seq_ids o') \<subseteq> set (running s) \<and>
     set (seq_ids o') \<subseteq> set (running s') \<and> distinct (seq_ids o')"

text \<open>A batch of vLLM that takes waiting sequences takes only those, whole, and leaves the running ones as they are.\<close>

definition prompt_batch :: "'m manager \<Rightarrow> sched_config \<Rightarrow> int \<Rightarrow> 'm scheduler \<Rightarrow> SchedulerOutputs \<Rightarrow> 'm scheduler \<Rightarrow> bool" where
  "prompt_batch ops c now s o' s' \<longleftrightarrow>
     scheduled_seq_metadata_list o' = map (\<lambda>i. from_sequence (seqs s i) None) (seq_ids o') \<and>
     set (seq_ids o') \<subseteq> set (waiting s) \<and> running s' = running s @ seq_ids o' \<and> length (running s') \<le> max_num_seqs c \<and>
     (\<forall>i \<in> set (seq_ids o'). get_len (seqs s i) \<le> max_model_len c) \<and>
     (\<exists>taken. vllm_prefill ops c now (waiting s) 0 ([], []) (s\<lparr>block_mgr := m_clear_promised_blocks ops (block_mgr s)\<rparr>) = Ret taken s')"

lemma sort_running [simp]: "mset (running (sort_by_priority now s)) = mset (running s)" "set (running (sort_by_priority now s)) = set (running s)"
  "waiting (sort_by_priority now s) = waiting s" "seqs (sort_by_priority now s) = seqs s" "block_mgr (sort_by_priority now s) = block_mgr s"
  "iteration_id (sort_by_priority now s) = iteration_id s"
  by (simp_all add: sort_by_priority_def)

lemma holding_sorted: "holding I H rs (sort_by_priority now s) = holding I H rs s"
  by (simp add: holding_def)

lemma md_from_sequence [simp]: "md_seq_id (from_sequence q n) = seq_id q"
  by (simp add: from_sequence_def)

lemma ids_of_metadata:
  "\<forall>i \<in> set is. seq_id (seqs s i) = i \<Longrightarrow> map md_seq_id (map (\<lambda>i. from_sequence (seqs s i) None) is) = is"
  by (induction "is") auto

lemma tokens_of_decodes: "\<forall>md \<in> set mds. prompt_chunk_len md = 0 \<Longrightarrow> sum_list (map md_num_tokens mds) = int (length mds)"
  by (induction mds) (auto simp: md_num_tokens_def)

lemma executing_not_finished: "is_executing q \<or> get_status q = WAITING \<Longrightarrow> \<not> is_finished q"
  by (auto simp: is_executing_def is_executing_status_def is_finished_def is_finished_status_def)

section \<open>The batch of Sarathi\<close>

definition batch_ok :: "batch_acc \<Rightarrow> bool" where
  "batch_ok acc \<longleftrightarrow> distinct (map md_seq_id (b_scheduled acc)) \<and> set (map md_seq_id (b_scheduled acc)) \<subseteq> set (b_running acc)"

definition within_chunk :: "sched_config \<Rightarrow> batch_acc \<Rightarrow> bool" where
  "within_chunk c acc \<longleftrightarrow> \<not> enable_dynamic_chunking_schedule c \<and> batched_tokens acc \<le> chunk_size c \<and>
     batched_tokens acc = sum_list (map md_num_tokens (b_scheduled acc)) \<and> (\<forall>md \<in> set (b_scheduled acc). 0 \<le> prompt_chunk_len md)"

lemma within_ignored [simp]: "within_chunk c (acc\<lparr>b_ignored := xs\<rparr>) = within_chunk c acc"
  by (simp add: within_chunk_def)

definition add_chunk :: "Sequence \<Rightarrow> int \<Rightarrow> string \<Rightarrow> batch_acc \<Rightarrow> batch_acc" where
  "add_chunk q n i acc = acc\<lparr>contains_prefill := True, batched_tokens := batched_tokens acc + n,
     b_scheduled := b_scheduled acc @ [from_sequence q (Some n)], b_running := b_running acc @ [i]\<rparr>"

lemma add_chunk_ok:
  assumes "batch_ok acc" "i \<notin> set (b_running acc)" "seq_id q = i"
  shows "batch_ok (add_chunk q n i acc)"
  using assms by (auto simp: batch_ok_def add_chunk_def)

lemma keep_ok: "batch_ok acc \<Longrightarrow> batch_ok (acc\<lparr>b_running := b_running acc @ [i]\<rparr>)"
  by (auto simp: batch_ok_def)

lemma next_tokens:
  assumes "seq_ready c q" "\<not> is_finished q"
  shows "\<exists>n. next_num_prefill_tokens c q cp b = Inr n \<and> (\<not> enable_dynamic_chunking_schedule c \<longrightarrow>
    n = (if cp then 0 else min (int (get_prompt_len q) - prompt_tokens_processed q) (chunk_size c - b)))"
  using assms by (auto simp: next_num_prefill_tokens_def seq_ready_def py_assert_def Let_def)

lemma add_chunk_within:
  assumes "seq_ready c q" "next_num_prefill_tokens c q (contains_prefill acc) (batched_tokens acc) = Inr n" "n \<noteq> 0" "\<not> is_finished q"
    "within_chunk c acc"
  shows "within_chunk c (add_chunk q n i acc)"
proof -
  have "n = (if contains_prefill acc then 0 else min (int (get_prompt_len q) - prompt_tokens_processed q) (chunk_size c - batched_tokens acc))"
    using next_tokens [OF assms(1,4), of "contains_prefill acc" "batched_tokens acc"] assms(2,5) by (auto simp: within_chunk_def)
  then have "n = min (int (get_prompt_len q) - prompt_tokens_processed q) (chunk_size c - batched_tokens acc)"
    using assms(3) by (simp split: if_splits)
  then have "0 < n" "batched_tokens acc + n \<le> chunk_size c"
    using assms(1,3,5) by (auto simp: seq_ready_def within_chunk_def)
  then show ?thesis using assms(5) by (auto simp: within_chunk_def add_chunk_def md_num_tokens_def from_sequence_def)
qed

lemma sarathi_prefills_ok:
  assumes "distinct (b_running acc @ is)" "\<forall>i \<in> set is. seq_id (seqs s i) = i \<and> seq_ready c (seqs s i) \<and>
      \<not> prompt_processing_finished (seqs s i) \<and> \<not> is_finished (seqs s i)" "batch_ok acc"
  shows "\<exists>acc'. sarathi_prefills c is acc s = Ret acc' s \<and> b_running acc' = b_running acc @ is \<and> b_ignored acc' = b_ignored acc \<and>
    batch_ok acc' \<and> (within_chunk c acc \<longrightarrow> within_chunk c acc')"
  using assms
proof (induction "is" arbitrary: acc)
  case (Cons i "is")
  have q: "seq_id (seqs s i) = i" "seq_ready c (seqs s i)" "\<not> prompt_processing_finished (seqs s i)" "\<not> is_finished (seqs s i)"
    using Cons.prems(2) by auto
  obtain n where n: "next_num_prefill_tokens c (seqs s i) (contains_prefill acc) (batched_tokens acc) = Inr n"
    using next_tokens [OF q(2,4)] by blast
  define a where "a = (if n = 0 then acc\<lparr>b_running := b_running acc @ [i]\<rparr> else add_chunk (seqs s i) n i acc)"
  have a: "b_running a = b_running acc @ [i]" "b_ignored a = b_ignored acc" by (simp_all add: a_def add_chunk_def)
  have b: "batch_ok a" using Cons.prems(1,3) q(1) by (auto simp: a_def intro: keep_ok add_chunk_ok)
  have w: "within_chunk c acc \<longrightarrow> within_chunk c a"
  proof (cases "n = 0")
    case False
    then show ?thesis using add_chunk_within [OF q(2) n _ q(4)] by (simp add: a_def)
  qed (simp add: a_def within_chunk_def)
  obtain acc' where "sarathi_prefills c is a s = Ret acc' s" "b_running acc' = b_running a @ is" "b_ignored acc' = b_ignored a"
    "batch_ok acc'" "within_chunk c a \<longrightarrow> within_chunk c acc'"
    using Cons.IH [of a] Cons.prems(1,2) a b by auto
  then show ?case using q n a w by (auto simp: assert_that_def lift_py_def a_def add_chunk_def)
qed simp

context block_space
begin

lemma sarathi_waiting_ok:
  assumes "holding inv held (b_running acc) s" "waiting s = ws"
    "\<forall>i \<in> set ws. startable c (seqs s i) \<and> seq_ready c (seqs s i) \<and> \<not> is_finished (seqs s i)" "batch_ok acc"
  shows "\<exists>pre acc' s'. sarathi_waiting ops c now ws acc s = Ret acc' s' \<and> admitted inv held c now (b_running acc) pre s s' \<and>
    b_running acc' = b_running acc @ admissible c s pre \<and> b_ignored acc' = b_ignored acc @ too_long c s pre \<and> batch_ok acc' \<and>
    (within_chunk c acc \<longrightarrow> within_chunk c acc') \<and> (admissible c s pre \<noteq> [] \<longrightarrow> length (b_running acc') \<le> max_num_seqs c)"
  (is "?P ws acc s (sarathi_waiting ops c now ws acc s)")
  using assms
proof (induction ws arbitrary: s acc)
  case Nil
  then show ?case using admitted_refl by (intro exI [of _ "[]"] exI [of _ acc] exI [of _ s]) auto
next
  case (Cons i ws)
  have f: "i \<notin> set ws" "i \<notin> set (b_running acc)" using holding_fresh [OF Cons.prems(1,2)] by auto
  have q: "startable c (seqs s i)" "seq_ready c (seqs s i)" "\<not> is_finished (seqs s i)" "seq_id (seqs s i) = i"
    using Cons.prems(1,2,3) by (auto simp: holding_def)
  have stop: "?P (i # ws) acc s (Ret acc s)"
    using admitted_refl [OF Cons.prems(1)] Cons.prems(4) by (intro exI [of _ "[]"] exI [of _ acc] exI [of _ s]) auto
  obtain b where b: "on_manager (m_can_allocate ops (seqs s i)) s = Ret b s"
    "m_can_allocate ops (seqs s i) (block_mgr s) = Ret b (block_mgr s)" using can_allocate_step [OF Cons.prems(1)] by blast
  obtain n where n: "next_num_prefill_tokens c (seqs s i) (contains_prefill acc) (batched_tokens acc) = Inr n"
    using next_tokens [OF q(2,3)] by blast
  note ck = check_length [OF q(1), of now]
  consider (late) "arrival_time (seqs s i) > now"
    | (long) "\<not> arrival_time (seqs s i) > now" "get_len (seqs s i) > max_model_len c"
    | (full) "\<not> arrival_time (seqs s i) > now" "\<not> get_len (seqs s i) > max_model_len c"
        "\<not> b \<or> length (b_running acc) \<ge> max_num_seqs c \<or> n = 0"
    | (take) "\<not> arrival_time (seqs s i) > now" "\<not> get_len (seqs s i) > max_model_len c" "b"
        "length (b_running acc) < max_num_seqs c" "n \<noteq> 0" by linarith
  then show ?case
  proof cases
    case late
    then show ?thesis using stop by simp
  next
    case long
    let ?t = "s\<lparr>seqs := (seqs s)(i := ignored_seq now (seqs s i)), waiting := ws\<rparr>" and ?a = "acc\<lparr>b_ignored := b_ignored acc @ [i]\<rparr>"
    have "?P ws ?a ?t (sarathi_waiting ops c now ws ?a ?t)"
      using holding_ignore [OF Cons.prems(1,2)] Cons.prems(3,4) f by (intro Cons.IH) (auto simp: batch_ok_def)
    then obtain pre acc' s' where r: "sarathi_waiting ops c now ws ?a ?t = Ret acc' s'"
      "admitted inv held c now (b_running acc) pre ?t s'" "b_running acc' = b_running acc @ admissible c ?t pre"
      "b_ignored acc' = (b_ignored acc @ [i]) @ too_long c ?t pre" "batch_ok acc'" "within_chunk c ?a \<longrightarrow> within_chunk c acc'"
      "admissible c ?t pre \<noteq> [] \<longrightarrow> length (b_running acc') \<le> max_num_seqs c" by auto
    have "admissible c ?t = admissible c s" "too_long c ?t = too_long c s" by (simp_all add: admissible_state [of ?t s])
    then show ?thesis
      using r ck admitted_ignore [OF Cons.prems(1,2) long(2) r(2)] long Cons.prems(2)
      by (intro exI [of _ "i # pre"] exI [of _ acc'] exI [of _ s']) simp
  next
    case full
    then show ?thesis using stop ck b n by (auto simp: lift_py_def)
  next
    case take
    obtain t where t: "on_manager (m_allocate ops (seqs s i)) (s\<lparr>waiting := ws\<rparr>) = Ret () t" "holding inv held (b_running acc @ [i]) t"
      "seqs t = seqs s" "waiting t = ws" "running t = running s" "iteration_id t = iteration_id s"
      using allocate_step [OF Cons.prems(1,2)] b take by auto
    let ?a = "add_chunk (seqs s i) n i acc"
    have a: "b_running ?a = b_running acc @ [i]" "b_ignored ?a = b_ignored acc" by (simp_all add: add_chunk_def)
    have "?P ws ?a t (sarathi_waiting ops c now ws ?a t)"
      using t Cons.prems(3) a add_chunk_ok [OF Cons.prems(4) f(2) q(4)] by (intro Cons.IH) auto
    then obtain pre acc' s' where r: "sarathi_waiting ops c now ws ?a t = Ret acc' s'"
      "admitted inv held c now (b_running acc @ [i]) pre t s'" "b_running acc' = b_running acc @ [i] @ admissible c t pre"
      "b_ignored acc' = b_ignored acc @ too_long c t pre" "batch_ok acc'" "within_chunk c ?a \<longrightarrow> within_chunk c acc'"
      "admissible c t pre \<noteq> [] \<longrightarrow> length (b_running acc') \<le> max_num_seqs c" unfolding a by auto
    have e: "admissible c t = admissible c s" "too_long c t = too_long c s" using t(3) by (simp_all add: admissible_state [of t s])
    have "admitted inv held c now (b_running acc) (i # pre) s s'"
      using admitted_admit [OF t(3) Cons.prems(2) t(4,6) take(2) r(2)] .
    moreover have "sarathi_waiting ops c now (i # ws) acc s = Ret acc' s'"
      using r(1) ck b n t(1,3) take by (simp add: lift_py_def add_chunk_def)
    moreover have "within_chunk c acc \<longrightarrow> within_chunk c acc'" using r(6) add_chunk_within [OF q(2) n take(5) q(3)] by blast
    ultimately show ?thesis using r take e
      by (intro exI [of _ "i # pre"] exI [of _ acc'] exI [of _ s']) (cases "admissible c s pre = []"; simp)
  qed
qed

section \<open>One call of vLLM\<close>

lemma clear_step: "holding inv held rs s \<Longrightarrow> holding inv held rs (s\<lparr>block_mgr := m_clear_promised_blocks ops (block_mgr s)\<rparr>)"
  using clear_ok [of "block_mgr s"] by (simp add: holding_def)

lemma vllm_schedule_ok:
  assumes "queues_ok inv held s" "whole_prompts s"
  shows "\<exists>o' s'. vllm_schedule ops c now s = Ret o' s' \<and> holding inv held (running s') s' \<and> conserves s o' s' \<and>
    (\<forall>md \<in> set (scheduled_seq_metadata_list o'). md_seq_id md \<in> set (waiting s) \<longrightarrow>
       preempted_seq_ids o' = [] \<and> sum_list (map (\<lambda>i. get_len (seqs s i)) (seq_ids o')) \<le> max_num_batched_tokens c \<and>
       prompt_batch ops c now s o' s') \<and>
    length (running s') \<le> max (max_num_seqs c) (length (running s))"
proof -
  define t where "t = s\<lparr>block_mgr := m_clear_promised_blocks ops (block_mgr s)\<rparr>"
  have t: "holding inv held (running t) t" "waiting t = waiting s" "seqs t = seqs s" "running t = running s"
    using assms(1) clear_step by (auto simp: t_def queues_ok_def)
  obtain pre u where r: "vllm_prefill ops c now (waiting t) 0 ([], []) t =
      Ret (too_long c t pre, map (\<lambda>i. from_sequence (seqs t i) None) (admissible c t pre)) u"
    and a: "admitted inv held c now (running t) pre t u" "running u = running t @ admissible c t pre"
    and l: "admissible c t pre \<noteq> [] \<longrightarrow> sum_list (map (\<lambda>i. get_len (seqs t i)) (admissible c t pre)) \<le> max_num_batched_tokens c \<and>
      length (running u) \<le> max_num_seqs c"
    using vllm_prefill_ok [of t "waiting t" c now 0 "[]" "[]"] t assms(1) by (auto simp: queues_ok_def startable_def)
  have w: "waiting s = pre @ waiting u" and hu: "holding inv held (running u) u" using a t(2) by (auto simp: admitted_def)
  have ids: "\<forall>i \<in> set (waiting s @ running s). seq_id (seqs s i) = i" using assms(1) by (auto simp: queues_ok_def holding_def)
  show ?thesis
  proof (cases "pre = []")
    case False
    then have ne: "admissible c t pre \<noteq> [] \<or> too_long c t pre \<noteq> []" using admissible_too_long [of c t pre] by auto
    define o' where "o' = \<lparr>out_id = iteration_id u, ignored_seq_ids = too_long c t pre, preempted_seq_ids = [],
      scheduled_seq_metadata_list = map (\<lambda>i. from_sequence (seqs t i) None) (admissible c t pre)\<rparr>"
    have "vllm_schedule ops c now s = Ret o' u"
      using r ne by (auto simp: vllm_schedule_def Let_def o'_def simp flip: t_def)
    moreover have "seq_ids o' = admissible c t pre"
      using ids_of_metadata [of "admissible c t pre" t] ids w t(3) by (auto simp: o'_def admissible_def seq_ids_def)
    moreover have "distinct (running u)" using hu by (simp add: holding_def)
    moreover have "admissible c t pre \<noteq> [] \<longrightarrow> prompt_batch ops c now s o' u"
      using \<open>seq_ids o' = admissible c t pre\<close> r w a(2) t l by (auto simp: prompt_batch_def o'_def admissible_def simp flip: t_def)
    ultimately show ?thesis using hu w a(2) t(3,4) l admissible_too_long [of c t pre]
      by (intro exI [of _ o'] exI [of _ u]) (auto simp: conserves_def o'_def ac_simps)
  next
    case True
    then have e: "seqs u = seqs s" "waiting u = waiting s" "running u = running s"
      using a t by (auto simp: admitted_def)
    define v where "v = sort_by_priority now u"
    have "holding inv held (running v @ kept no_acc @ prefills no_acc) v"
      using hu by (subst holding_perm [of _ "running u"]) (auto simp: v_def holding_sorted no_acc_def)
    moreover have "\<forall>i \<in> set (running v). is_executing (seqs v i)"
      "\<forall>i \<in> set (running v). is_paused (seqs v i) \<longrightarrow> prompt_processing_finished (seqs v i)"
      using assms e by (auto simp: v_def queues_ok_def whole_prompts_def)
    ultimately obtain acc s' where d: "decode_loop ops Vllm (running v) no_acc v = Ret acc s'"
      "holding inv held (kept acc @ prefills acc) s'" "decoded (running v) no_acc v acc s'"
      using decode_loop_ok [of "running v" no_acc v Vllm] by blast
    obtain x where x: "moved x v s'" "mset (running v) = mset (kept acc) + mset (prefills acc) + mset x" "dec_preempted acc = x"
      "dec_scheduled acc = map (\<lambda>i. from_sequence (seqs v i) None) (filter (\<lambda>i. decodable (seqs v i)) (kept acc))"
      "\<forall>i \<in> set (prefills acc). is_paused (seqs v i) \<and> \<not> prompt_processing_finished (seqs v i)"
      using d(3) by (auto simp: decoded_def no_acc_def)
    have sets: "set (running v) = set (kept acc) \<union> set (prefills acc) \<union> set x" using x(2) by (metis set_mset_mset set_mset_union)
    have "set (prefills acc) \<subseteq> set (running s)" using sets e by (auto simp: v_def)
    moreover have "\<forall>i \<in> set (running s). i \<notin> set (prefills acc)"
      using x(5) assms(2) e(1) by (auto simp: v_def whole_prompts_def)
    ultimately have pf: "prefills acc = []" by (cases "prefills acc") auto
    define o' where "o' = \<lparr>out_id = iteration_id s', ignored_seq_ids = [], preempted_seq_ids = x, scheduled_seq_metadata_list = dec_scheduled acc\<rparr>"
    have "vllm_schedule ops c now s = Ret o' (s'\<lparr>running := kept acc\<rparr>)"
      using r True d(1) x(3) by (simp add: vllm_schedule_def Let_def o'_def flip: t_def v_def)
    moreover have m: "seq_ids o' = filter (\<lambda>i. decodable (seqs v i)) (kept acc)"
      using ids_of_metadata [of "filter (\<lambda>i. decodable (seqs v i)) (kept acc)" v] ids sets e x(4) by (auto simp: v_def seq_ids_def o'_def)
    moreover have "md_seq_id ` set (scheduled_seq_metadata_list o') \<subseteq> set (kept acc)" using arg_cong [OF m, of set] by (auto simp: seq_ids_def)
    moreover have "distinct (kept acc)" using d(2) by (simp add: holding_def)
    moreover have "mset (waiting s') = mset x + mset (waiting s)" using x(1) e by (simp add: moved_def v_def)
    moreover have "mset (running s) = mset (kept acc) + mset x" using x(2) pf e by (simp add: v_def)
    moreover from this have "length (kept acc) \<le> length (running s)" by (metis le_add1 size_mset size_union)
    moreover have "set (kept acc) \<inter> set (waiting s) = {}"
      using assms(1) sets e by (auto simp: queues_ok_def holding_def v_def)
    moreover have "set x \<subseteq> set (running s)" using sets e by (auto simp: v_def)
    ultimately show ?thesis using d(2) pf
      by (intro exI [of _ o'] exI [of _ "s'\<lparr>running := kept acc\<rparr>"]) (auto simp: conserves_def o'_def ac_simps)
  qed
qed

section \<open>One call of Sarathi\<close>

lemma sarathi_schedule_ok:
  assumes "queues_ok inv held s" "chunked_prompts c s"
  shows "\<exists>o' s'. sarathi_schedule ops c now s = Ret o' s' \<and> holding inv held (running s') s' \<and> conserves s o' s' \<and>
    length (running s') \<le> max (max_num_seqs c) (length (running s)) \<and>
    (\<not> enable_dynamic_chunking_schedule c \<and> int (length (filter (\<lambda>i. decodable (seqs s i)) (running s))) \<le> chunk_size c \<longrightarrow>
      outputs_num_batched_tokens o' \<le> chunk_size c \<and> (\<forall>md \<in> set (scheduled_seq_metadata_list o'). 0 \<le> prompt_chunk_len md))"
proof -
  define t where "t = sort_by_priority now (s\<lparr>block_mgr := m_clear_promised_blocks ops (block_mgr s)\<rparr>)"
  have t: "waiting t = waiting s" "seqs t = seqs s" "mset (running t) = mset (running s)" "set (running t) = set (running s)"
    by (simp_all add: t_def)
  have "holding inv held (running t @ kept no_acc @ prefills no_acc) t"
    using assms(1) clear_step [of "running s" s] t(3)
    by (subst holding_perm [of _ "running s"]) (auto simp: queues_ok_def t_def holding_sorted no_acc_def)
  moreover have ex: "\<forall>i \<in> set (running t). is_executing (seqs t i)" using assms(1) t by (simp add: queues_ok_def)
  ultimately obtain d u where d: "decode_loop ops Sarathi (running t) no_acc t = Ret d u"
    "holding inv held (kept d @ prefills d) u" "decoded (running t) no_acc t d u"
    using decode_loop_ok [of "running t" no_acc t Sarathi] by auto
  obtain x where x: "moved x t u" "mset (running s) = mset (kept d) + mset (prefills d) + mset x" "dec_preempted d = x"
    "dec_scheduled d = map (\<lambda>i. from_sequence (seqs s i) None) (filter (\<lambda>i. decodable (seqs s i)) (kept d))"
    "\<forall>i \<in> set (prefills d). is_paused (seqs s i) \<and> \<not> prompt_processing_finished (seqs s i)"
    using d(3) t by (auto simp: decoded_def no_acc_def)
  have sets: "set (running s) = set (kept d) \<union> set (prefills d) \<union> set x" using x(2) by (metis set_mset_mset set_mset_union)
  have u: "seqs u = seqs s" "waiting u = rev x @ waiting s" using x(1) t by (auto simp: moved_def)
  have ids: "\<forall>i \<in> set (waiting s @ running s). seq_id (seqs s i) = i" using assms(1) by (auto simp: queues_ok_def holding_def)
  define a0 where "a0 = \<lparr>b_running = kept d, b_ignored = [], b_scheduled = dec_scheduled d, contains_prefill = False,
    batched_tokens = int (length (dec_scheduled d))\<rparr>"
  have "map md_seq_id (dec_scheduled d) = filter (\<lambda>i. decodable (seqs s i)) (kept d)"
    unfolding x(4) using ids sets by (intro ids_of_metadata) auto
  then have b0: "batch_ok a0" using d(2) by (auto simp: batch_ok_def a0_def holding_def)
  have rd: "seq_ready c (seqs s i) \<and> \<not> is_finished (seqs s i)" if "i \<in> set (running s @ waiting s)" for i
    using assms that executing_not_finished by (auto simp: queues_ok_def chunked_prompts_def)
  have "distinct (b_running a0 @ prefills d)" using d(2) by (auto simp: holding_def a0_def)
  moreover have "\<forall>i \<in> set (prefills d). seq_id (seqs u i) = i \<and> seq_ready c (seqs u i) \<and>
      \<not> prompt_processing_finished (seqs u i) \<and> \<not> is_finished (seqs u i)"
    using x(5) rd ids sets u by auto
  ultimately obtain a1 where a1: "sarathi_prefills c (prefills d) a0 u = Ret a1 u" "b_running a1 = kept d @ prefills d" "b_ignored a1 = []"
    "batch_ok a1" "within_chunk c a0 \<longrightarrow> within_chunk c a1"
    using sarathi_prefills_ok [OF _ _ b0, of "prefills d" u c] by (auto simp: a0_def)
  have "\<forall>i \<in> set (waiting u). startable c (seqs u i) \<and> seq_ready c (seqs u i) \<and> \<not> is_finished (seqs u i)"
    using rd sets u assms by (auto simp: startable_def queues_ok_def chunked_prompts_def)
  then obtain pre a2 v where v: "sarathi_waiting ops c now (waiting u) a1 u = Ret a2 v" "admitted inv held c now (b_running a1) pre u v"
    "b_running a2 = b_running a1 @ admissible c u pre" "b_ignored a2 = too_long c u pre" "batch_ok a2" "within_chunk c a1 \<longrightarrow> within_chunk c a2"
    "admissible c u pre \<noteq> [] \<longrightarrow> length (b_running a2) \<le> max_num_seqs c"
    using sarathi_waiting_ok [of a1 u "waiting u" c now] d(2) a1 by auto
  define o' where "o' = \<lparr>out_id = iteration_id v, ignored_seq_ids = b_ignored a2, preempted_seq_ids = x, scheduled_seq_metadata_list = b_scheduled a2\<rparr>"
  have r: "sarathi_schedule ops c now s = Ret o' (v\<lparr>running := b_running a2\<rparr>)"
    using d(1) a1(1) v(1) x(3) by (simp add: sarathi_schedule_def Let_def o'_def a0_def flip: t_def)
  have w: "rev x @ waiting s = pre @ waiting v" "holding inv held (b_running a2) v" using v(2,3) u by (auto simp: admitted_def)
  have "mset (waiting v) + mset (b_running a2) + mset (b_ignored a2) = mset (waiting v) + mset pre + mset (kept d) + mset (prefills d)"
    using v(3,4) a1(2) admissible_too_long [of c u pre] by (simp add: ac_simps)
  also have "mset (waiting v) + mset pre = mset x + mset (waiting s)" using arg_cong [OF w(1), of mset] by (simp add: ac_simps)
  finally have m: "mset (waiting v) + mset (b_running a2) + mset (b_ignored a2) = mset (waiting s) + mset (running s)"
    using x(2) by (simp add: ac_simps)
  have "length (b_running a2) \<le> max (max_num_seqs c) (length (running s))"
  proof (cases "admissible c u pre = []")
    case True
    have "length (running s) = length (kept d) + length (prefills d) + length x" using arg_cong [OF x(2), of size] by simp
    then show ?thesis using True v(3) a1(2) by simp
  qed (use v(7) in simp)
  moreover have "within_chunk c a0" if "\<not> enable_dynamic_chunking_schedule c" "int (length (filter (\<lambda>i. decodable (seqs s i)) (running s))) \<le> chunk_size c"
  proof -
    have "mset (filter (\<lambda>i. decodable (seqs s i)) (kept d)) \<subseteq># mset (filter (\<lambda>i. decodable (seqs s i)) (running s))"
      using x(2) by (simp add: mset_filter)
    then have "length (dec_scheduled d) \<le> length (filter (\<lambda>i. decodable (seqs s i)) (running s))"
      unfolding x(4) by (metis length_map size_mset size_mset_mono)
    moreover have "\<forall>md \<in> set (dec_scheduled d). prompt_chunk_len md = 0"
      unfolding x(4) by (auto simp: from_sequence_def decodable_def)
    ultimately show ?thesis using that tokens_of_decodes [of "dec_scheduled d"] by (simp add: within_chunk_def a0_def)
  qed
  ultimately have fin: "length (b_running a2) \<le> max (max_num_seqs c) (length (running s))"
    "\<not> enable_dynamic_chunking_schedule c \<and> int (length (filter (\<lambda>i. decodable (seqs s i)) (running s))) \<le> chunk_size c \<longrightarrow> within_chunk c a2"
    using v(6) a1(5) by blast+
  have "conserves s o' (v\<lparr>running := b_running a2\<rparr>)"
    using m v(5) sets by (simp add: conserves_def o'_def batch_ok_def seq_ids_def)
  moreover have "within_chunk c a2 \<longrightarrow> outputs_num_batched_tokens o' \<le> chunk_size c \<and>
      (\<forall>md \<in> set (scheduled_seq_metadata_list o'). 0 \<le> prompt_chunk_len md)"
    by (simp add: within_chunk_def o'_def outputs_num_batched_tokens_def)
  ultimately show ?thesis
    using r w(2) fin by (intro exI [of _ o'] exI [of _ "v\<lparr>running := b_running a2\<rparr>"]) simp
qed

end

end
