(* ===== verification/Spec2Isabelle.thy ===== *)
theory Spec2Isabelle
  imports Vattn_Requests Vattn_Limits Uvm_Range_Correct Uvm_Rb_Tree Uvm_Handle Cache_Correct Engine_Safe
begin

text \<open>
  A verification of vAttention: dynamic memory management for the key-value cache of a language-model
  server, without paging in the attention kernels. The program has four layers.

  \<^item> The allocator (\<^verbatim>\<open>src/vattention\<close>), a C++ extension. It reserves a large range of virtual addresses for the
    cache tensors of all layers and maps physical pages behind a request's part of it only as its
    sequence grows; freed requests keep their pages until another request needs them. A background
    thread maps the blocks of the next token ahead of time.
  \<^item> The driver (\<^verbatim>\<open>src/nvidia-vattn-uvm-driver\<close>), NVIDIA's UVM kernel module with four new ioctls that hand
    out physical memory in pieces of 64 to 256 KiB, map it at a virtual address, free it and clean up a range.
  \<^item> The cache kernels of the serving engine (\<^verbatim>\<open>src/sarathi-lean/csrc\<close>), which store and gather keys and values.
  \<^item> The serving engine (\<^verbatim>\<open>src/sarathi-lean/sarathi\<close>), in Python: sequences, block space managers and schedulers, which decide in each
    step which sequences run and how much memory is promised to them.

  The allocator calls the driver through ioctls (or CUDA's virtual-memory functions); the engine calls the
  allocator once per step with the lengths of all sequences.

  Conventions (\<^verbatim>\<open>Vattn_Prelude\<close>). Machine integers are words of their width, and where a driver structure is
  modelled by natural numbers the wrap-around is written out. An operation is a function from a state to an
  \<open>outcome\<close>, which is a result or an error, each with the state it leaves; null and wild pointers and
  indices out of an array are errors too. Code outside of the repository, and driver code beyond the modelled parts, is a
  parameter whose contract is a named hypothesis.

  The allocator.

  \<^item> \<^verbatim>\<open>Vattn_State\<close>: the globals and helpers of \<^verbatim>\<open>utils.h\<close> (records \<open>vcfg\<close> and \<open>vst\<close>).
  \<^item> \<^verbatim>\<open>Vattn_Backend\<close>: \<^verbatim>\<open>uvmInternal.h\<close>, \<^verbatim>\<open>cudaInternal.h\<close> and \<^verbatim>\<open>mux.h\<close>. The locale \<open>page_backend\<close> says what mapping and unmapping a
    pair of pages promise; it is interpreted on both backends and on the macros that choose between them.
  \<^item> \<^verbatim>\<open>Vattn_Tensor\<close>, \<^verbatim>\<open>Vattn_Init\<close>, \<^verbatim>\<open>Vattn_Alloc\<close>, \<^verbatim>\<open>Vattn_Api\<close>: \<^verbatim>\<open>vtensor.h\<close>, \<^verbatim>\<open>vattention.cu\<close> and \<^verbatim>\<open>apis.h\<close>, one definition per function.
  \<^item> \<^verbatim>\<open>Vattn_Async\<close>: the asynchronous step and its detached thread as an inductive step relation.
  \<^item> \<^verbatim>\<open>Vattn_Inv\<close>: the invariant \<open>vinv\<close> and that mapping and unmapping a block keep it. \<^verbatim>\<open>Vattn_Boot\<close>: start-up establishes it.
  \<^item> \<^verbatim>\<open>Vattn_Spec\<close>, \<^verbatim>\<open>Vattn_Refine\<close>, \<^verbatim>\<open>Vattn_Manager\<close>: an abstract allocator that only counts blocks, and that the
    step and the background manager implement it.
  \<^item> \<^verbatim>\<open>Vattn_Correct\<close>, \<^verbatim>\<open>Vattn_Requests\<close>, \<^verbatim>\<open>Vattn_Limits\<close>: the properties, on the machine of \<^verbatim>\<open>Vattn_Example\<close> as witness. A step
    covers every sequence or runs out of memory exactly when the blocks do not suffice; pages are never
    shared or lost; and the inputs on which the code departs from its comments.

  The driver.

  \<^item> \<^verbatim>\<open>Uvm_Tree\<close>, \<^verbatim>\<open>Uvm_Range_Tree\<close>, \<^verbatim>\<open>Uvm_Rb_Tree\<close>, \<^verbatim>\<open>Uvm_Range_Alloc\<close>: \<^verbatim>\<open>uvm_range_tree.c\<close>, \<^verbatim>\<open>uvm_rb_tree.c\<close> and \<^verbatim>\<open>uvm_range_allocator.c\<close>. Nodes are pointers into a
    store. Linux's red-black tree is a parameter that keeps the in-order sequence (\<open>rb_ok\<close>). Both trees are instances of the
    locale \<open>search_index\<close>. \<^verbatim>\<open>Uvm_Range_Correct\<close>: lookup, iteration, holes, splitting and merging, and that the
    allocator partitions its address space in all reachable states.
  \<^item> \<^verbatim>\<open>Uvm_Push\<close>, \<^verbatim>\<open>Uvm_Pte_Batch\<close>, \<^verbatim>\<open>Uvm_Tlb_Batch\<close>: a push is the list of its commands, \<open>run_push\<close> executes its memory writes.
    Batching page-table writes is invisible, and a TLB batch invalidates everything queued.
  \<^item> \<^verbatim>\<open>Uvm_Va_Block\<close>, \<^verbatim>\<open>Uvm_Geometry\<close>: the arithmetic of blocks, big pages and chunks of \<^verbatim>\<open>uvm_va_block.c\<close>, and that the chunk index
    counts the chunks of the block's layout.
  \<^item> \<^verbatim>\<open>Uvm_Block_Pte\<close>: the page tables of a block. \<^verbatim>\<open>Uvm_Vattn\<close>: the four handlers.
  \<^item> \<^verbatim>\<open>Uvm_Map\<close>, \<^verbatim>\<open>Uvm_Map_Correct\<close>, \<^verbatim>\<open>Uvm_Handle\<close>: what mapping writes and in which order, and that handles can be found and
    freed. This theory composes the two: a handle that was handed out is mapped where the caller asks.

  The kernels.

  \<^item> \<^verbatim>\<open>Cache_Kernels\<close>: \<^verbatim>\<open>cache_kernels.cu\<close>. A launch is the list of the copies of its threads and may run in any order.
  \<^item> \<^verbatim>\<open>Cache_Correct\<close>: storing and gathering are inverse, the unrolled gather equals the plain one, and block copies are exact, in every order.

  The engine.

  \<^item> \<^verbatim>\<open>Engine_Seq\<close>: \<^verbatim>\<open>core/datatypes\<close>, a sequence with its status machine and logical blocks. Exceptions are values of \<open>py_error\<close>.
  \<^item> \<^verbatim>\<open>Engine_Blocks\<close>: \<^verbatim>\<open>core/block_space_manager\<close>. The record \<open>manager\<close> holds the operations a scheduler calls, the locale \<open>block_space\<close> what they
    promise; it is interpreted on vAttention's manager and on the paged one.
  \<^item> \<^verbatim>\<open>Engine_Sched\<close>: \<^verbatim>\<open>core/scheduler\<close> and \<^verbatim>\<open>core/policy.py\<close>, five schedulers over a manager.
  \<^item> \<^verbatim>\<open>Engine_Sched_Correct\<close>, \<^verbatim>\<open>Engine_Admit\<close>, \<^verbatim>\<open>Engine_Policies\<close>: preemption, admission and whole calls, proved in the locale. \<^verbatim>\<open>Engine_Safe\<close>: the
    properties on both managers; no call raises, no sequence is lost, and the budgets hold.

  Bounds and fuel. Walking a range tree takes as many steps as there are nodes (\<open>nodes_from\<close>), and writing a buffer of
  entries at most one round per entry (\<open>write_ptes_loop\<close>); the properties show that this suffices, so no result
  depends on the fuel running out. Filling the logical blocks of a sequence loops for ever on a block size of 0; it is a partial function into
  \<open>option\<close>, proved to return for every other size. Every other function is total. Virtual addresses are below \<open>2 ^ 57\<close>, as on the hardware,
  where the geometry of blocks needs it.

  Not modelled. Printing and logging; the driver's physical memory manager, page-table allocation, fault handling, migration, channels
  and locks, and the rest of NVIDIA's modules, which are hardware access or paths vAttention does not take; the
  floating-point kernels and the attention kernels; the engine's configuration, workers, model execution and metrics, and the experiment scripts. The contents of the
  cache are modelled only in the kernels: the allocator and the driver deal in addresses.
\<close>

unbundle bit_operations_syntax

text \<open>
  C7. A handle that was handed out is mapped where the caller asks. Getting a handle of 64, 128 or 256 KiB and mapping
  it at an address of a VA range that starts at a block boundary succeeds when the allocators do.
  The block of the target then has a chunk for each mapped page, whose physical address is that of the handle plus the offset of the page; the other
  pages of the block and all other blocks are as before. Executing the one push that was submitted writes the entries of these
  pages with these addresses, then the directory entry, and no other memory. The entries carry no
  protection, because the block has recorded none.
\<close>

theorem got_handle_maps:
  assumes "table_ok s" "pmm_ok d sz" "uvm_api_get_mem_handle d sz (gpu_uuid s) s = Ret (NV_OK, Some h) s1"
    "placeable d a sz s1 vr" "i = uvm_va_range_block_index (n_start (va_range_tree s1) vr) a"
  shows "\<exists>s' gs p. uvm_api_map_handle d a h sz (gpu_uuid s) s1 = Ret NV_OK s' \<and>
    frame (block_before d s1 vr i) vr i s1 s' \<and> vb_gpu (blocks s' (block_before d s1 vr i)) = Some gs \<and>
    (\<forall>j < 32. if page_slot a \<le> j \<and> j < page_slot a + big_pages sz
       then bit (big_ptes gs) j \<and>
         (\<exists>c. gs_chunks gs ! j = Some c \<and> ch_address (chunk_store s' c) = h + of_nat (j - page_slot a) * UVM_PAGE_SIZE_64K)
       else gs_chunks gs ! j = gs_chunks (gs_before s1 vr i) ! j \<and> (bit (big_ptes gs) j = bit (big_ptes (gs_before s1 vr i)) j)) \<and>
    pushes s' = pushes s1 @ [p] \<and>
    (\<forall>m. run_push p m = pde_mem (hal d) gs
       (fold (\<lambda>j m. m(big_pte gs (page_slot a + j) := pte_value (hal d) (h + of_nat j * UVM_PAGE_SIZE_64K) UVM_PROT_NONE))
          [0..<big_pages sz] m))"
proof -
  have hs: "handle_size_ok sz" using assms(4) by (simp add: placeable_def target_ok_def)
  obtain c subs where g: "chunk_of_handle h sz s1 = Ret c s1" "backed (chunk_store s1) c subs" "length subs = big_pages sz"
    "gpu_uuid s1 = gpu_uuid s" "parts_of (chunk_store s1) h subs"
    by (rule got_handle_found [OF assms(1,2) hs assms(3)])
  have at: "ch_address (chunk_store s1 (subs ! j)) = h + of_nat j * UVM_PAGE_SIZE_64K" if "j < big_pages sz" for j
    using that g(3,5) by (simp add: parts_of_def)
  have "mappable d a h sz s1 vr c subs" using assms(4) g by (simp add: mappable_def)
  from map_handle_effect [OF this assms(5)] g(4) obtain s' gs p where
    r: "uvm_api_map_handle d a h sz (gpu_uuid s) s1 = Ret NV_OK s'" "frame (block_before d s1 vr i) vr i s1 s'"
    "same_chunks (chunk_store s1) (chunk_store s')" "vb_gpu (blocks s' (block_before d s1 vr i)) = Some gs" "pushes s' = pushes s1 @ [p]"
    and ch: "\<forall>j < 32. gs_chunks gs ! j = (if page_slot a \<le> j \<and> j < page_slot a + length subs then Some (subs ! (j - page_slot a))
       else gs_chunks (gs_before s1 vr i) ! j) \<and>
      (bit (big_ptes gs) j \<longleftrightarrow> bit (big_ptes (gs_before s1 vr i)) j \<or> page_slot a \<le> j \<and> j < page_slot a + length subs)"
    and mem: "\<forall>m. run_push p m = pde_mem (hal d) gs
       (fold (\<lambda>j m. m(big_pte gs (page_slot a + j) := pte_value (hal d) (ch_address (chunk_store s1 (subs ! j))) UVM_PROT_NONE))
          [0..<length subs] m)"
    by auto
  have "fold (\<lambda>j m. m(big_pte gs (page_slot a + j) := pte_value (hal d) (ch_address (chunk_store s1 (subs ! j))) UVM_PROT_NONE))
      [0..<length subs] m =
    fold (\<lambda>j m. m(big_pte gs (page_slot a + j) := pte_value (hal d) (h + of_nat j * UVM_PAGE_SIZE_64K) UVM_PROT_NONE)) [0..<big_pages sz] m" for m
    using at g(3) by (intro fold_cong) auto
  then have "\<forall>m. run_push p m = pde_mem (hal d) gs
       (fold (\<lambda>j m. m(big_pte gs (page_slot a + j) := pte_value (hal d) (h + of_nat j * UVM_PAGE_SIZE_64K) UVM_PROT_NONE))
          [0..<big_pages sz] m)"
    using mem by simp
  moreover have "\<forall>j < 32. if page_slot a \<le> j \<and> j < page_slot a + big_pages sz
       then bit (big_ptes gs) j \<and>
         (\<exists>c. gs_chunks gs ! j = Some c \<and> ch_address (chunk_store s' c) = h + of_nat (j - page_slot a) * UVM_PAGE_SIZE_64K)
       else gs_chunks gs ! j = gs_chunks (gs_before s1 vr i) ! j \<and> (bit (big_ptes gs) j = bit (big_ptes (gs_before s1 vr i)) j)"
    using ch g(3) r(3) at by (auto simp: same_chunks_def)
  ultimately show ?thesis using r by blast
qed

lemma demo_placeable:
  assumes "va_range_tree s = va_range_tree demo_sys" "range_blocks s = range_blocks demo_sys"
  shows "placeable demo_drv 0x440000 0x20000 s 7"
proof -
  have "block_ok s 7 1" using assms(2) by (simp add: block_ok_def demo_sys_def)
  then show ?thesis using demo_mappable assms(1) demo_index by (simp add: mappable_def placeable_def)
qed

theorem got_handle_maps_witness:
  "\<exists>s1 s' gs p. uvm_api_get_mem_handle demo_drv 0x20000 0 demo_sys = Ret (NV_OK, Some 0x260000) s1 \<and>
    uvm_api_map_handle demo_drv 0x440000 0x260000 0x20000 0 s1 = Ret NV_OK s' \<and> vb_gpu (blocks s' 0) = Some gs \<and>
    (\<forall>m. run_push p m = pde_mem demo_hal gs (m(big_pte gs 4 := 0x260001, big_pte gs 5 := 0x270001)))"
proof -
  have v: "pte_value demo_hal x prot = x + 1" for x prot by (simp add: pte_value_def demo_hal_def)
  have u: "[0..<big_pages 0x20000] = [0, 1]" "page_slot 0x440000 = 4" by (simp_all add: big_pages_def page_slot_def upt_rec)
  obtain s1 where s1: "uvm_api_get_mem_handle demo_drv 0x20000 (gpu_uuid demo_sys) demo_sys = Ret (NV_OK, Some 0x260000) s1"
    "va_range_tree s1 = va_range_tree demo_sys" "range_blocks s1 = range_blocks demo_sys"
    by (rule demo_get)
  have b: "block_before demo_drv s1 7 1 = 0" using s1(3) by (simp add: block_before_def demo_sys_def demo_drv_def)
  have i: "1 = uvm_va_range_block_index (n_start (va_range_tree s1) 7) 0x440000" using demo_index s1(2) by simp
  have e: "pte_value demo_hal (0x260000 + of_nat 0 * UVM_PAGE_SIZE_64K) UVM_PROT_NONE = 0x260001"
    "pte_value demo_hal (0x260000 + of_nat 1 * UVM_PAGE_SIZE_64K) UVM_PROT_NONE = 0x270001"
    by (simp_all add: v UVM_PAGE_SIZE_64K_def)
  from got_handle_maps [OF demo_table_ok demo_pmm_ok s1(1) demo_placeable [OF s1(2,3)] i] obtain s' gs p where
    "uvm_api_map_handle demo_drv 0x440000 0x260000 0x20000 0 s1 = Ret NV_OK s'" "vb_gpu (blocks s' 0) = Some gs"
    "\<forall>m. run_push p m = pde_mem demo_hal gs (fold (\<lambda>j m. m(big_pte gs (4 + j) :=
       pte_value demo_hal (0x260000 + of_nat j * UVM_PAGE_SIZE_64K) UVM_PROT_NONE)) [0, 1] m)"
    unfolding b u demo_values by blast
  then show ?thesis using s1(1) e unfolding demo_values by auto
qed

end
